(* ===== verification/GoPrelude.thy ===== *)
theory GoPrelude
  imports Main "HOL-Library.Word" "HOL-Library.Char_ord" "HOL-Library.List_Lexorder"
    "HOL-Library.Sublist" "HOL-Library.Multiset"
begin

text \<open>
  Shared ground of the development: error values, the effects a call may draw on (clock
  readings, random bytes), the text functions of the packages \<open>strings\<close> and \<open>slices\<close>
  that the daemon uses, and the lemmas about them that the component theories share.

  A Go string or byte slice is a list of bytes, that is \<open>string\<close>. Whitespace and letter
  case are those of UTF-8 text: the encodings of every rune for which \<open>unicode.IsSpace\<close>
  holds are listed, and the runes outside ASCII whose lower case, upper case or simple fold
  is an ASCII letter are listed, so that a comparison with an ASCII constant comes out as in
  Go. Other non-ASCII runes are left alone by the case functions; every use in the daemon
  compares the result with an ASCII constant or a generated ASCII code.
\<close>

section \<open>Errors\<close>

text \<open>
  The sentinel errors of the packages \<open>auth\<close>, \<open>attachment\<close> and \<open>imsg\<close>, which callers
  tell apart with \<open>errors.Is\<close>, and every other error by its message.
\<close>

datatype go_error =
    ErrUnauthorized
  | ErrInvalidCode
  | ErrSessionExpired
  | ErrForbidden
  | ErrInvalidID
  | ErrNotFound
  | ErrUnavailable string
  | ErrMsg string

type_synonym 'a res = "go_error + 'a"

section \<open>Effects\<close>

text \<open>
  What an operation reads from outside the program's own state: the successive readings of
  the wall clock, in nanoseconds since 1970 in UTC, and the bytes of \<open>crypto/rand\<close>. A
  reading consumes the head of its sequence.
\<close>

type_synonym go_time = int

record effects =
  clock :: "nat \<Rightarrow> go_time"
  entropy :: "nat \<Rightarrow> char"

type_synonym 'a eff = "effects \<Rightarrow> 'a \<times> effects"

definition time_now :: "go_time eff" where
  "time_now e = (clock e 0, e\<lparr>clock := (\<lambda>i. clock e (Suc i))\<rparr>)"

definition rand_read :: "nat \<Rightarrow> string eff" where
  "rand_read n e = (map (entropy e) [0..<n], e\<lparr>entropy := (\<lambda>i. entropy e (i + n))\<rparr>)"

abbreviation millisecond :: int where "millisecond \<equiv> 1000000"
abbreviation second :: int where "second \<equiv> 1000000000"
abbreviation minute :: int where "minute \<equiv> 60000000000"
abbreviation hour :: int where "hour \<equiv> 3600000000000"

text \<open>\<open>Time.Unix\<close>: whole seconds, rounded down as Go's seconds and nanoseconds are stored.\<close>

definition unix_of :: "go_time \<Rightarrow> int" where
  "unix_of t = t div second"

section \<open>Searching a slice\<close>

text \<open>
  The index at which a \<open>for i := range xs\<close> loop that stops at the first element with
  \<open>P\<close> stops.
\<close>

fun index_of :: "('a \<Rightarrow> bool) \<Rightarrow> 'a list \<Rightarrow> nat option" where
  "index_of P [] = None"
| "index_of P (x # xs) = (if P x then Some 0 else map_option Suc (index_of P xs))"

lemma index_of_SomeD:
  "index_of P xs = Some i \<Longrightarrow> i < length xs \<and> P (xs ! i) \<and> (\<forall>j < i. \<not> P (xs ! j))"
  by (induction xs arbitrary: i) (auto simp: less_Suc_eq_0_disj split: if_splits)

lemma index_of_None_iff: "index_of P xs = None \<longleftrightarrow> (\<forall>x \<in> set xs. \<not> P x)"
  by (induction xs) auto

lemma index_of_append:
  "index_of P (xs @ ys) =
     (case index_of P xs of
        Some i \<Rightarrow> Some i
      | None \<Rightarrow> (case index_of P ys of None \<Rightarrow> None | Some i \<Rightarrow> Some (length xs + i)))"
  by (induction xs) (auto split: option.splits)

lemma index_of_nth_mem: "index_of P xs = Some i \<Longrightarrow> xs ! i \<in> set xs"
  by (simp add: index_of_SomeD)

text \<open>\<open>append(xs[:i], xs[i+1:]...)\<close>.\<close>

definition remove_at :: "nat \<Rightarrow> 'a list \<Rightarrow> 'a list" where
  "remove_at i xs = take i xs @ drop (Suc i) xs"

lemma mset_remove_at: "i < length xs \<Longrightarrow> mset xs = add_mset (xs ! i) (mset (remove_at i xs))"
  by (metis id_take_nth_drop mset_append mset.simps(2) remove_at_def union_mset_add_mset_right)

lemma set_remove_at: "set (remove_at i xs) \<subseteq> set xs"
  by (auto simp: remove_at_def dest: in_set_takeD in_set_dropD)

section \<open>Running calls that answer yes or no\<close>

fun run_steps :: "('c \<Rightarrow> 's \<Rightarrow> bool \<times> 's) \<Rightarrow> 'c list \<Rightarrow> 's \<Rightarrow> bool list \<times> 's" where
  "run_steps step [] s = ([], s)"
| "run_steps step (c # cs) s =
     (case step c s of (ok, s) \<Rightarrow>
        (case run_steps step cs s of (oks, s) \<Rightarrow> (ok # oks, s)))"

definition yes_count :: "('c \<Rightarrow> bool) \<Rightarrow> 'c list \<Rightarrow> bool list \<Rightarrow> nat" where
  "yes_count counted cs oks = length (filter (\<lambda>(c, ok). counted c \<and> ok) (zip cs oks))"

lemma yes_count_Cons:
  "yes_count counted (c # cs) (ok # oks) =
     (if counted c \<and> ok then Suc (yes_count counted cs oks) else yes_count counted cs oks)"
  by (simp add: yes_count_def)

section \<open>Collections of facts\<close>

named_theorems eff_simps \<open>evaluation of effectful helper calls\<close>
named_theorems cfg_simps \<open>what an operation leaves of the configuration\<close>

lemma fst_time_now [simp, eff_simps]: "fst (time_now e) = clock e 0"
  by (simp add: time_now_def)

lemma snd_time_now_entropy [simp, eff_simps]: "entropy (snd (time_now e)) = entropy e"
  by (simp add: time_now_def)

lemma length_rand_read [simp, eff_simps]: "length (fst (rand_read n e)) = n"
  by (simp add: rand_read_def)

lemma snd_rand_read_clock [simp, eff_simps]: "clock (snd (rand_read n e)) = clock e"
  by (simp add: rand_read_def)

end
