(* ===== verification/GoStrings.thy ===== *)
theory GoStrings
  imports GoPrelude
begin

text \<open>
  The functions of \<open>strings\<close> the daemon calls: trimming, case, \<open>EqualFold\<close> against an ASCII
  constant, \<open>Cut\<close>, and the facts the component proofs need of them.
\<close>

section \<open>Trimming\<close>

text \<open>The UTF-8 encodings of the runes for which \<open>unicode.IsSpace\<close> holds.\<close>

definition space_runes :: "string list" where
  "space_runes =
     [[CHR 0x09], [CHR 0x0A], [CHR 0x0B], [CHR 0x0C], [CHR 0x0D], [CHR 0x20],
      [CHR 0xC2, CHR 0x85], [CHR 0xC2, CHR 0xA0], [CHR 0xE1, CHR 0x9A, CHR 0x80],
      [CHR 0xE2, CHR 0x80, CHR 0x80], [CHR 0xE2, CHR 0x80, CHR 0x81],
      [CHR 0xE2, CHR 0x80, CHR 0x82], [CHR 0xE2, CHR 0x80, CHR 0x83],
      [CHR 0xE2, CHR 0x80, CHR 0x84], [CHR 0xE2, CHR 0x80, CHR 0x85],
      [CHR 0xE2, CHR 0x80, CHR 0x86], [CHR 0xE2, CHR 0x80, CHR 0x87],
      [CHR 0xE2, CHR 0x80, CHR 0x88], [CHR 0xE2, CHR 0x80, CHR 0x89],
      [CHR 0xE2, CHR 0x80, CHR 0x8A], [CHR 0xE2, CHR 0x80, CHR 0xA8],
      [CHR 0xE2, CHR 0x80, CHR 0xA9], [CHR 0xE2, CHR 0x80, CHR 0xAF],
      [CHR 0xE2, CHR 0x81, CHR 0x9F], [CHR 0xE3, CHR 0x80, CHR 0x80]]"

text \<open>Drop leading runes of a list as long as one of them is a prefix.\<close>

fun strip_runes :: "string list \<Rightarrow> string \<Rightarrow> string" where
  "strip_runes rs [] = []"
| "strip_runes rs (c # s) =
     (case find (\<lambda>r. r \<noteq> [] \<and> prefix r (c # s)) rs of
        None \<Rightarrow> c # s
      | Some r \<Rightarrow> strip_runes rs (drop (length r - 1) s))"

definition trim_left :: "string \<Rightarrow> string" where
  "trim_left s = strip_runes space_runes s"

definition trim_right :: "string \<Rightarrow> string" where
  "trim_right s = rev (strip_runes (map rev space_runes) (rev s))"

text \<open>\<open>strings.TrimSpace\<close>.\<close>

definition trim_space :: "string \<Rightarrow> string" where
  "trim_space s = trim_right (trim_left s)"

lemma strip_runes_suffix: "suffix (strip_runes rs s) s"
proof (induction rs s rule: strip_runes.induct)
  case (2 rs c s)
  show ?case
  proof (cases "find (\<lambda>r. r \<noteq> [] \<and> prefix r (c # s)) rs")
    case (Some r)
    have "suffix (strip_runes rs (drop (length r - 1) s)) (drop (length r - 1) s)"
      using Some by (rule "2.IH")
    then show ?thesis
      using Some by (auto intro: suffix_order.trans [OF _ suffix_drop] suffix_ConsI)
  qed simp
qed simp

lemma strip_runes_normal:
  "r \<in> set rs \<Longrightarrow> r \<noteq> [] \<Longrightarrow> \<not> prefix r (strip_runes rs s)"
proof (induction rs s rule: strip_runes.induct)
  case (2 rs c s)
  show ?case
  proof (cases "find (\<lambda>r. r \<noteq> [] \<and> prefix r (c # s)) rs")
    case None
    then have "\<not> prefix r (c # s)"
      using "2.prems" by (auto simp: find_None_iff)
    with None show ?thesis by simp
  next
    case (Some q)
    then show ?thesis
      using "2.IH" [OF Some] "2.prems" by simp
  qed
qed simp

lemma strip_runes_id:
  assumes "\<And>r. r \<in> set rs \<Longrightarrow> r \<noteq> [] \<Longrightarrow> \<not> prefix r s"
  shows "strip_runes rs s = s"
proof (cases s)
  case (Cons c t)
  with assms have "find (\<lambda>r. r \<noteq> [] \<and> prefix r (c # t)) rs = None"
    by (auto simp: find_None_iff)
  with Cons show ?thesis by simp
qed simp

lemma trim_left_idem [simp]: "trim_left (trim_left s) = trim_left s"
  unfolding trim_left_def by (rule strip_runes_id) (rule strip_runes_normal)

lemma trim_right_prefix: "prefix (trim_right s) s"
  unfolding trim_right_def
  using strip_runes_suffix [of "map rev space_runes" "rev s"] by (simp add: suffix_to_prefix)

lemma trim_right_idem [simp]: "trim_right (trim_right s) = trim_right s"
  unfolding trim_right_def rev_rev_ident
proof (subst strip_runes_id)
  fix r assume "r \<in> set (map rev space_runes)" "r \<noteq> []"
  then show "\<not> prefix r (strip_runes (map rev space_runes) (rev s))"
    by (rule strip_runes_normal)
qed simp

lemma trim_left_right: "trim_left (trim_right (trim_left s)) = trim_right (trim_left s)"
proof -
  have "prefix (trim_right (trim_left s)) (trim_left s)"
    by (rule trim_right_prefix)
  moreover have "\<And>r. r \<in> set space_runes \<Longrightarrow> r \<noteq> [] \<Longrightarrow> \<not> prefix r (trim_left s)"
    unfolding trim_left_def by (rule strip_runes_normal)
  ultimately have "\<And>r. r \<in> set space_runes \<Longrightarrow> r \<noteq> [] \<Longrightarrow> \<not> prefix r (trim_right (trim_left s))"
    using prefix_order.trans by blast
  then show ?thesis
    unfolding trim_left_def [of "trim_right (trim_left s)"] by (rule strip_runes_id)
qed

lemma trim_space_idem [simp]: "trim_space (trim_space s) = trim_space s"
  by (simp add: trim_space_def trim_left_right)

lemma trim_space_Nil [simp]: "trim_space [] = []"
  by (simp add: trim_space_def trim_left_def trim_right_def)

text \<open>Text without whitespace and without bytes of multi-byte runes is not changed.\<close>

definition graphic :: "char \<Rightarrow> bool" where
  "graphic c \<longleftrightarrow> 33 \<le> (of_char c :: nat) \<and> (of_char c :: nat) \<le> 126"

lemma space_rune_not_graphic:
  assumes "r \<in> set space_runes \<or> r \<in> set (map rev space_runes)"
  shows "r \<noteq> [] \<and> \<not> graphic (hd r)"
  using assms by (auto simp: space_runes_def graphic_def)

lemma strip_runes_graphic:
  assumes "rs = space_runes \<or> rs = map rev space_runes" and "list_all graphic s"
  shows "strip_runes rs s = s"
proof (rule strip_runes_id)
  fix r assume r: "r \<in> set rs" "r \<noteq> []"
  with assms(1) have "\<not> graphic (hd r)"
    using space_rune_not_graphic [of r] by blast
  with assms(2) r(2) show "\<not> prefix r s"
    by (cases r; cases s) auto
qed

lemma trim_space_graphic: "list_all graphic s \<Longrightarrow> trim_space s = s"
  by (simp add: trim_space_def trim_left_def trim_right_def strip_runes_graphic)

section \<open>Letter case\<close>

definition ascii_lower :: "char \<Rightarrow> char" where
  "ascii_lower c =
     (if 65 \<le> (of_char c :: nat) \<and> (of_char c :: nat) \<le> 90 then char_of ((of_char c :: nat) + 32) else c)"

definition ascii_upper :: "char \<Rightarrow> char" where
  "ascii_upper c =
     (if 97 \<le> (of_char c :: nat) \<and> (of_char c :: nat) \<le> 122 then char_of ((of_char c :: nat) - 32) else c)"

text \<open>Replace runes by a table, left to right.\<close>

fun rewrite_runes :: "(string \<times> string) list \<Rightarrow> string \<Rightarrow> string" where
  "rewrite_runes tbl [] = []"
| "rewrite_runes tbl (c # s) =
     (case find (\<lambda>(r, t). r \<noteq> [] \<and> prefix r (c # s)) tbl of
        None \<Rightarrow> c # rewrite_runes tbl s
      | Some (r, t) \<Rightarrow> t @ rewrite_runes tbl (drop (length r - 1) s))"

text \<open>The runes outside ASCII with an ASCII lower case, upper case or simple fold.\<close>

definition kelvin_sign :: string where "kelvin_sign = [CHR 0xE2, CHR 0x84, CHR 0xAA]"
definition dotted_capital_i :: string where "dotted_capital_i = [CHR 0xC4, CHR 0xB0]"
definition dotless_i :: string where "dotless_i = [CHR 0xC4, CHR 0xB1]"
definition long_s :: string where "long_s = [CHR 0xC5, CHR 0xBF]"

definition to_lower :: "string \<Rightarrow> string" where
  "to_lower s = map ascii_lower
     (rewrite_runes [(kelvin_sign, ''k''), (dotted_capital_i, ''i'')] s)"

definition to_upper :: "string \<Rightarrow> string" where
  "to_upper s = map ascii_upper
     (rewrite_runes [(dotless_i, ''I''), (long_s, ''S'')] s)"

definition fold_case :: "string \<Rightarrow> string" where
  "fold_case s = map ascii_lower
     (rewrite_runes [(kelvin_sign, ''k''), (long_s, ''s'')] s)"

text \<open>\<open>strings.EqualFold\<close>, of which one side is an ASCII constant wherever it is called.\<close>

definition equal_fold :: "string \<Rightarrow> string \<Rightarrow> bool" where
  "equal_fold s t \<longleftrightarrow> fold_case s = fold_case t"

lemma rewrite_runes_graphic:
  assumes "\<And>r t. (r, t) \<in> set tbl \<Longrightarrow> r \<noteq> [] \<Longrightarrow> \<not> graphic (hd r)"
  shows "list_all graphic s \<Longrightarrow> rewrite_runes tbl s = s"
proof (induction s)
  case (Cons c s)
  have "find (\<lambda>(r, t). r \<noteq> [] \<and> prefix r (c # s)) tbl = None"
    unfolding find_None_iff
  proof (clarify)
    fix r t assume "(r, t) \<in> set tbl" "r \<noteq> []" "prefix r (c # s)"
    with assms [of r t] Cons.prems show False by (cases r) auto
  qed
  with Cons show ?case by simp
qed simp

lemma to_upper_graphic: "list_all graphic s \<Longrightarrow> to_upper s = map ascii_upper s"
  unfolding to_upper_def
  by (subst rewrite_runes_graphic) (auto simp: dotless_i_def long_s_def graphic_def)

lemma equal_fold_refl [simp]: "equal_fold s s"
  by (simp add: equal_fold_def)

section \<open>Cut and Join\<close>

text \<open>\<open>strings.Join\<close>.\<close>

fun join_with :: "string \<Rightarrow> string list \<Rightarrow> string" where
  "join_with sep [] = []"
| "join_with sep [x] = x"
| "join_with sep (x # y # xs) = x @ sep @ join_with sep (y # xs)"

text \<open>\<open>strings.Cut\<close> with a one-byte separator: before and after its first occurrence.\<close>

fun cut_at :: "char \<Rightarrow> string \<Rightarrow> (string \<times> string) option" where
  "cut_at sep [] = None"
| "cut_at sep (c # s) =
     (if c = sep then Some ([], s)
      else map_option (\<lambda>(a, b). (c # a, b)) (cut_at sep s))"

lemma cut_at_append: "sep \<notin> set a \<Longrightarrow> cut_at sep (a @ sep # b) = Some (a, b)"
  by (induction a) auto

lemma cut_at_None_iff: "cut_at sep s = None \<longleftrightarrow> sep \<notin> set s"
  by (induction s) auto

lemma cut_at_Some: "cut_at sep s = Some (a, b) \<Longrightarrow> s = a @ sep # b \<and> sep \<notin> set a"
  by (induction s arbitrary: a) (auto split: if_splits)

end
