(* ===== verification/GoNumbers.thy ===== *)
theory GoNumbers
  imports GoStrings
begin

text \<open>
  Decimal text of integers: \<open>strconv.Itoa\<close>, \<open>FormatInt\<close>, \<open>ParseInt\<close> and \<open>Atoi\<close> in base 10
  with 64 bits, digits of a fixed width as the time layouts need them, and 64-bit integers.
\<close>

section \<open>Digits\<close>

definition digit_char :: "nat \<Rightarrow> char" where
  "digit_char d = char_of (48 + d)"

definition is_digit :: "char \<Rightarrow> bool" where
  "is_digit c \<longleftrightarrow> 48 \<le> (of_char c :: nat) \<and> (of_char c :: nat) \<le> 57"

definition digit_val :: "char \<Rightarrow> nat" where
  "digit_val c = of_char c - 48"

lemma of_char_digit_char [simp]: "d < 10 \<Longrightarrow> of_char (digit_char d) = (48 + d :: nat)"
  by (simp add: digit_char_def)

lemma is_digit_digit_char [simp]: "d < 10 \<Longrightarrow> is_digit (digit_char d)"
  by (simp add: is_digit_def)

lemma digit_val_digit_char [simp]: "d < 10 \<Longrightarrow> digit_val (digit_char d) = d"
  by (simp add: digit_val_def)

definition digits_val :: "string \<Rightarrow> nat" where
  "digits_val s = foldl (\<lambda>a c. 10 * a + digit_val c) 0 s"

lemma digits_val_Nil [simp]: "digits_val [] = 0"
  by (simp add: digits_val_def)

lemma digits_val_snoc [simp]: "digits_val (s @ [c]) = 10 * digits_val s + digit_val c"
  by (simp add: digits_val_def)

text \<open>Decimal digits of a number, and its lowest \<open>k\<close> digits.\<close>

fun nat_text :: "nat \<Rightarrow> string" where
  "nat_text n = (if n < 10 then [digit_char n] else nat_text (n div 10) @ [digit_char (n mod 10)])"

declare nat_text.simps [simp del]

fun fixed_text :: "nat \<Rightarrow> nat \<Rightarrow> string" where
  "fixed_text 0 n = []"
| "fixed_text (Suc k) n = fixed_text k (n div 10) @ [digit_char (n mod 10)]"

lemma nat_text_digits: "list_all is_digit (nat_text n)"
  by (induction n rule: nat_text.induct) (subst nat_text.simps, auto)

lemma nat_text_not_Nil [simp]: "nat_text n \<noteq> []"
  by (subst nat_text.simps) simp

lemma digits_val_nat_text [simp]: "digits_val (nat_text n) = n"
proof (induction n rule: nat_text.induct)
  case (1 n)
  show ?case
  proof (cases "n < 10")
    case True
    then have "nat_text n = [] @ [digit_char n]" by (subst nat_text.simps) simp
    with True show ?thesis by (simp del: append_Nil)
  next
    case False
    then have "nat_text n = nat_text (n div 10) @ [digit_char (n mod 10)]"
      by (subst nat_text.simps) simp
    with False "1.IH" show ?thesis by simp
  qed
qed

lemma nat_text_leading: "hd (nat_text n) = CHR ''0'' \<Longrightarrow> nat_text n = ''0''"
proof (induction n rule: nat_text.induct)
  case (1 n)
  show ?case
  proof (cases "n < 10")
    case True
    then show ?thesis using 1 by (auto simp: nat_text.simps [of n] digit_char_def)
  next
    case False
    then have e: "nat_text n = nat_text (n div 10) @ [digit_char (n mod 10)]"
      by (subst nat_text.simps) simp
    with 1 False have "nat_text (n div 10) = ''0''" by simp
    then have "digits_val (nat_text (n div 10)) = digits_val ([] @ ''0'')" by simp
    then have "n div 10 = 0"
      unfolding digits_val_nat_text digits_val_snoc by (simp add: digit_val_def)
    with False show ?thesis by simp
  qed
qed

lemma length_fixed_text [simp]: "length (fixed_text k n) = k"
  by (induction k arbitrary: n) auto

lemma fixed_text_digits: "list_all is_digit (fixed_text k n)"
  by (induction k arbitrary: n) auto

lemma digits_val_fixed_text: "digits_val (fixed_text k n) = n mod 10 ^ k"
proof (induction k arbitrary: n)
  case (Suc k)
  then show ?case
    by (simp add: mod_mult2_eq [of n 10 "10 ^ k"])
qed simp

section \<open>Integers\<close>

definition int_text :: "int \<Rightarrow> string" where
  "int_text i = (if i < 0 then CHR ''-'' # nat_text (nat (- i)) else nat_text (nat i))"

definition max_int64 :: int where "max_int64 = 9223372036854775807"
definition min_int64 :: int where "min_int64 = - 9223372036854775808"

definition in_int64 :: "int \<Rightarrow> bool" where
  "in_int64 i \<longleftrightarrow> min_int64 \<le> i \<and> i \<le> max_int64"

text \<open>Two's complement: the value a 64-bit register holds for \<open>i\<close>.\<close>

definition wrap_int64 :: "int \<Rightarrow> int" where
  "wrap_int64 i = (i + 2 ^ 63) mod 2 ^ 64 - 2 ^ 63"

lemma wrap_int64_in_range: "in_int64 (wrap_int64 i)"
  by (auto simp: wrap_int64_def in_int64_def min_int64_def max_int64_def)

lemma wrap_int64_id [simp]: "in_int64 i \<Longrightarrow> wrap_int64 i = i"
  by (simp add: wrap_int64_def in_int64_def min_int64_def max_int64_def)

text \<open>A struct field of type \<open>int64\<close>.\<close>

type_synonym int64 = "64 word"

lemma in_int64_sint [simp]: "in_int64 (sint (x :: int64))"
  using sint_ge [of x] sint_lt [of x] by (simp add: in_int64_def min_int64_def max_int64_def)

lemma sint_word_of_int64: "in_int64 i \<Longrightarrow> sint (word_of_int i :: int64) = i"
  by (simp add: in_int64_def min_int64_def max_int64_def int_word_sint)

text \<open>\<open>strconv.ParseInt(s, 10, 64)\<close>: an optional sign and digits, in range, or an error.\<close>

definition parse_int64 :: "string \<Rightarrow> int option" where
  "parse_int64 s =
     (let (neg, ds) = (case s of
          [] \<Rightarrow> (False, [])
        | c # r \<Rightarrow> if c = CHR ''-'' then (True, r) else if c = CHR ''+'' then (False, r) else (False, s));
        v = (if neg then - int (digits_val ds) else int (digits_val ds))
      in if ds \<noteq> [] \<and> list_all is_digit ds \<and> in_int64 v then Some v else None)"

lemma is_digit_not_sign: "is_digit c \<Longrightarrow> c \<noteq> CHR ''-'' \<and> c \<noteq> CHR ''+''"
  by (auto simp: is_digit_def)

lemma nat_text_head: "\<exists>c r. nat_text n = c # r \<and> is_digit c"
  using nat_text_digits [of n] by (cases "nat_text n") auto

lemma parse_int64_int_text [simp]: "in_int64 i \<Longrightarrow> parse_int64 (int_text i) = Some i"
proof (cases "i < 0")
  case True
  assume "in_int64 i"
  with True show ?thesis
    by (simp add: int_text_def parse_int64_def nat_text_digits)
next
  case False
  assume "in_int64 i"
  obtain c r where c: "nat_text (nat i) = c # r" "is_digit c"
    using nat_text_head by blast
  with False \<open>in_int64 i\<close> show ?thesis
    using is_digit_not_sign [OF c(2)] nat_text_digits [of "nat i"] digits_val_nat_text [of "nat i"]
    by (simp add: int_text_def parse_int64_def)
qed

lemma parse_int64_range: "parse_int64 s = Some i \<Longrightarrow> in_int64 i"
  by (auto simp: parse_int64_def Let_def split: prod.splits if_splits)

lemma nat_text_inject: "nat_text m = nat_text n \<longleftrightarrow> m = n"
  by (metis digits_val_nat_text)

lemma int_text_inject: "int_text i = int_text j \<longleftrightarrow> i = j"
proof
  assume e: "int_text i = int_text j"
  have neg: "nat_text n \<noteq> CHR ''-'' # s" for n s
    using nat_text_head [of n] is_digit_not_sign by fastforce
  show "i = j"
    using e neg [of "nat i"] neg [of "nat j"]
    by (auto simp: int_text_def nat_text_inject neg [symmetric] split: if_splits)
qed simp

end
