(* ===== verification/GoJson.thy ===== *)
theory GoJson
  imports GoNumbers
begin

text \<open>
  JSON documents, their text as \<open>encoding/json\<close> writes it (compact and indented by two spaces,
  with its escapes), and a parser of JSON text. Text is well-formed UTF-8, whose bytes above
  0x7F both directions pass through. \<open>JFrac\<close> is a number with a fraction or an exponent: the
  program never writes one, and no integer field accepts one.
\<close>

section \<open>Documents and their text\<close>

datatype json =
    JNull
  | JBool bool
  | JInt int
  | JFrac string
  | JStr string
  | JArr "json list"
  | JObj "(string \<times> json) list"

definition hex_char :: "nat \<Rightarrow> char" where
  "hex_char d = (if d < 10 then char_of (48 + d) else char_of (87 + d))"

definition backslash :: char where "backslash = CHR 0x5C"
definition dquote :: char where "dquote = CHR 0x22"

definition quote_char :: "char \<Rightarrow> string" where
  "quote_char c =
     (if c = dquote \<or> c = backslash then [backslash, c]
      else if c = CHR 0x08 then [backslash, CHR ''b'']
      else if c = CHR 0x0C then [backslash, CHR ''f'']
      else if c = CHR 0x0A then [backslash, CHR ''n'']
      else if c = CHR 0x0D then [backslash, CHR ''r'']
      else if c = CHR 0x09 then [backslash, CHR ''t'']
      else if (of_char c :: nat) < 32 \<or> c = CHR ''<'' \<or> c = CHR ''>'' \<or> c = CHR ''&''
      then [backslash, CHR ''u'', CHR ''0'', CHR ''0'',
            hex_char (of_char c div 16), hex_char (of_char c mod 16)]
      else [c])"

definition quote_string :: "string \<Rightarrow> string" where
  "quote_string s = dquote # concat (map quote_char s) @ [dquote]"

definition newline :: "bool \<Rightarrow> nat \<Rightarrow> string" where
  "newline ind n = (if ind then CHR 0x0A # replicate (2 * n) (CHR 0x20) else [])"

definition colon_pad :: "bool \<Rightarrow> string" where
  "colon_pad ind = (if ind then [CHR 0x20] else [])"

definition colon :: "bool \<Rightarrow> string" where
  "colon ind = CHR '':'' # colon_pad ind"

text \<open>\<open>json_text False\<close> is \<open>json.Marshal\<close>, \<open>json_text True\<close> is \<open>json.MarshalIndent(_, "", "  ")\<close>.\<close>

fun json_text_at :: "bool \<Rightarrow> nat \<Rightarrow> json \<Rightarrow> string" where
  "json_text_at ind n JNull = ''null''"
| "json_text_at ind n (JBool b) = (if b then ''true'' else ''false'')"
| "json_text_at ind n (JInt i) = int_text i"
| "json_text_at ind n (JFrac s) = s"
| "json_text_at ind n (JStr s) = quote_string s"
| "json_text_at ind n (JArr xs) =
     (if xs = [] then ''[]''
      else ''['' @ newline ind (n + 1) @
           join_with ('','' @ newline ind (n + 1)) (map (json_text_at ind (n + 1)) xs) @
           newline ind n @ '']'')"
| "json_text_at ind n (JObj ms) =
     (if ms = [] then ''{}''
      else ''{'' @ newline ind (n + 1) @
           join_with ('','' @ newline ind (n + 1))
             (map (\<lambda>(k, v). quote_string k @ colon ind @
                json_text_at ind (n + 1) v) ms) @
           newline ind n @ ''}'')"

definition json_text :: "bool \<Rightarrow> json \<Rightarrow> string" where
  "json_text ind j = json_text_at ind 0 j"

section \<open>Parsing\<close>

definition is_ws :: "char \<Rightarrow> bool" where
  "is_ws c \<longleftrightarrow> c = CHR 0x20 \<or> c = CHR 0x09 \<or> c = CHR 0x0A \<or> c = CHR 0x0D"

definition skip_ws :: "string \<Rightarrow> string" where
  "skip_ws s = dropWhile is_ws s"

definition hex_val :: "char \<Rightarrow> nat option" where
  "hex_val c =
     (let n = of_char c :: nat in
      if 48 \<le> n \<and> n \<le> 57 then Some (n - 48)
      else if 97 \<le> n \<and> n \<le> 102 then Some (n - 87)
      else if 65 \<le> n \<and> n \<le> 70 then Some (n - 55) else None)"

definition hex4 :: "char \<Rightarrow> char \<Rightarrow> char \<Rightarrow> char \<Rightarrow> nat option" where
  "hex4 a b c d =
     (case (hex_val a, hex_val b, hex_val c, hex_val d) of
        (Some w, Some x, Some y, Some z) \<Rightarrow> Some (((w * 16 + x) * 16 + y) * 16 + z)
      | _ \<Rightarrow> None)"

definition utf8 :: "nat \<Rightarrow> string" where
  "utf8 v =
     (if v < 128 then [char_of v]
      else if v < 2048 then [char_of (192 + v div 64), char_of (128 + v mod 64)]
      else if v < 65536
      then [char_of (224 + v div 4096), char_of (128 + v div 64 mod 64), char_of (128 + v mod 64)]
      else [char_of (240 + v div 262144), char_of (128 + v div 4096 mod 64),
            char_of (128 + v div 64 mod 64), char_of (128 + v mod 64)])"

definition utf8_unit :: "nat \<Rightarrow> string" where
  "utf8_unit v = utf8 (if 0xD800 \<le> v \<and> v < 0xE000 then 0xFFFD else v)"

definition simple_escape :: "char \<Rightarrow> char option" where
  "simple_escape c =
     (if c = dquote \<or> c = backslash \<or> c = CHR ''/'' then Some c
      else if c = CHR ''b'' then Some (CHR 0x08)
      else if c = CHR ''f'' then Some (CHR 0x0C)
      else if c = CHR ''n'' then Some (CHR 0x0A)
      else if c = CHR ''r'' then Some (CHR 0x0D)
      else if c = CHR ''t'' then Some (CHR 0x09) else None)"

text \<open>The body of a string after its opening quote, up to and with the closing one.\<close>

fun parse_str :: "string \<Rightarrow> (string \<times> string) option" where
  "parse_str [] = None"
| "parse_str (c # s) =
     (if c = dquote then Some ([], s)
      else if c = backslash then
        (case s of
           [] \<Rightarrow> None
         | e # r \<Rightarrow>
             if e = CHR ''u'' then
               (case r of
                  h1 # h2 # h3 # h4 # r' \<Rightarrow>
                    (case hex4 h1 h2 h3 h4 of
                       None \<Rightarrow> None
                     | Some v \<Rightarrow>
                         (case r' of
                            b # u # l1 # l2 # l3 # l4 # r'' \<Rightarrow>
                              (case hex4 l1 l2 l3 l4 of
                                 Some w \<Rightarrow>
                                   if b = backslash \<and> u = CHR ''u'' \<and> 0xD800 \<le> v \<and> v < 0xDC00
                                      \<and> 0xDC00 \<le> w \<and> w < 0xE000
                                   then map_option (apfst ((@) (utf8 (0x10000 + (v - 0xD800) * 1024 + (w - 0xDC00)))))
                                          (parse_str r'')
                                   else map_option (apfst ((@) (utf8_unit v))) (parse_str r')
                               | None \<Rightarrow> map_option (apfst ((@) (utf8_unit v))) (parse_str r'))
                          | _ \<Rightarrow> map_option (apfst ((@) (utf8_unit v))) (parse_str r')))
                | _ \<Rightarrow> None)
             else
               (case simple_escape e of
                  None \<Rightarrow> None
                | Some d \<Rightarrow> map_option (apfst (Cons d)) (parse_str r)))
      else if (of_char c :: nat) < 32 then None
      else map_option (apfst (Cons c)) (parse_str s))"

declare parse_str.simps(2) [simp del]

definition scan_sign :: "string \<Rightarrow> bool \<times> string" where
  "scan_sign s = (case s of [] \<Rightarrow> (False, s) | c # r \<Rightarrow> if c = CHR ''-'' then (True, r) else (False, s))"

definition scan_int :: "string \<Rightarrow> (string \<times> string) option" where
  "scan_int s =
     (case s of [] \<Rightarrow> None
      | c # r \<Rightarrow> if c = CHR ''0'' then Some ([c], r)
                 else if is_digit c then Some (c # takeWhile is_digit r, dropWhile is_digit r)
                 else None)"

definition scan_frac :: "string \<Rightarrow> (string \<times> string) option" where
  "scan_frac s =
     (case s of [] \<Rightarrow> Some ([], s)
      | c # r \<Rightarrow> if c \<noteq> CHR ''.'' then Some ([], s)
                 else if takeWhile is_digit r = [] then None
                 else Some (c # takeWhile is_digit r, dropWhile is_digit r))"

definition scan_exp :: "string \<Rightarrow> (string \<times> string) option" where
  "scan_exp s =
     (case s of [] \<Rightarrow> Some ([], s)
      | c # r \<Rightarrow>
          if c \<noteq> CHR ''e'' \<and> c \<noteq> CHR ''E'' then Some ([], s)
          else (let (sg, r') = (case r of [] \<Rightarrow> ([], r)
                  | x # r' \<Rightarrow> if x = CHR ''-'' \<or> x = CHR ''+'' then ([x], r') else ([], r))
                in if takeWhile is_digit r' = [] then None
                   else Some (c # sg @ takeWhile is_digit r', dropWhile is_digit r')))"

definition parse_num :: "string \<Rightarrow> (json \<times> string) option" where
  "parse_num s =
     (let (neg, s1) = scan_sign s in
      case scan_int s1 of None \<Rightarrow> None
      | Some (ds, s2) \<Rightarrow>
          (case scan_frac s2 of None \<Rightarrow> None
           | Some (fp, s3) \<Rightarrow>
               (case scan_exp s3 of None \<Rightarrow> None
                | Some (ep, s4) \<Rightarrow>
                    Some (if fp = [] \<and> ep = []
                          then JInt (if neg then - int (digits_val ds) else int (digits_val ds))
                          else JFrac ((if neg then ''-'' else []) @ ds @ fp @ ep), s4))))"

text \<open>
  Values, array elements after \<open>[\<close> and object members after \<open>{\<close>; every call but that of
  an element's value consumes a byte, so fuel above twice the length of the text is enough.
\<close>

fun parse_val :: "nat \<Rightarrow> string \<Rightarrow> (json \<times> string) option"
  and parse_elems :: "nat \<Rightarrow> string \<Rightarrow> (json list \<times> string) option"
  and parse_members :: "nat \<Rightarrow> string \<Rightarrow> ((string \<times> json) list \<times> string) option" where
  "parse_val 0 s = None"
| "parse_val (Suc f) s =
     (case skip_ws s of
        [] \<Rightarrow> None
      | c # r \<Rightarrow>
          if c = CHR ''['' then
            (if prefix '']'' (skip_ws r) then Some (JArr [], tl (skip_ws r))
             else map_option (apfst JArr) (parse_elems f r))
          else if c = CHR ''{'' then
            (if prefix ''}'' (skip_ws r) then Some (JObj [], tl (skip_ws r))
             else map_option (apfst JObj) (parse_members f r))
          else if c = dquote then map_option (apfst JStr) (parse_str r)
          else if prefix ''null'' (c # r) then Some (JNull, drop 3 r)
          else if prefix ''true'' (c # r) then Some (JBool True, drop 3 r)
          else if prefix ''false'' (c # r) then Some (JBool False, drop 4 r)
          else parse_num (c # r))"
| "parse_elems 0 s = None"
| "parse_elems (Suc f) s =
     (case parse_val f s of
        None \<Rightarrow> None
      | Some (j, r) \<Rightarrow>
          (case skip_ws r of
             [] \<Rightarrow> None
           | c # r' \<Rightarrow>
               if c = CHR '','' then map_option (apfst (Cons j)) (parse_elems f r')
               else if c = CHR '']'' then Some ([j], r') else None))"
| "parse_members 0 s = None"
| "parse_members (Suc f) s =
     (case skip_ws s of
        [] \<Rightarrow> None
      | q # r \<Rightarrow>
          if q \<noteq> dquote then None
          else
            (case parse_str r of
               None \<Rightarrow> None
             | Some (k, r1) \<Rightarrow>
                 (case skip_ws r1 of
                    [] \<Rightarrow> None
                  | c # r2 \<Rightarrow>
                      if c \<noteq> CHR '':'' then None
                      else
                        (case parse_val f r2 of
                           None \<Rightarrow> None
                         | Some (j, r3) \<Rightarrow>
                             (case skip_ws r3 of
                                [] \<Rightarrow> None
                              | d # r4 \<Rightarrow>
                                  if d = CHR '','' then map_option (apfst (Cons (k, j))) (parse_members f r4)
                                  else if d = CHR ''}'' then Some ([(k, j)], r4) else None)))))"

text \<open>\<open>json.Decoder.Decode\<close> of the first value, and \<open>json.Unmarshal\<close> of a whole text.\<close>

definition decode_first :: "string \<Rightarrow> (json \<times> string) option" where
  "decode_first s = parse_val (Suc (2 * length s)) s"

definition parse_json :: "string \<Rightarrow> json option" where
  "parse_json s =
     (case decode_first s of None \<Rightarrow> None
      | Some (j, r) \<Rightarrow> if skip_ws r = [] then Some j else None)"

section \<open>Fuel\<close>

text \<open>
  A successful parse consumes input, and the bytes it consumes are enough fuel for it: the
  fuel of \<open>decode_first\<close> never makes a difference.
\<close>

lemma map_option_apfst_Some:
  "map_option (apfst g) x = Some (a, r) \<longleftrightarrow> (\<exists>b. x = Some (b, r) \<and> a = g b)"
  by (cases x) auto

lemma skip_ws_length: "length (skip_ws s) \<le> length s"
  by (simp add: skip_ws_def length_dropWhile_le)

lemma skip_ws_Cons_length: "skip_ws s = c # r \<Longrightarrow> length r < length s"
  using skip_ws_length [of s] by simp

definition shrinks :: "string \<Rightarrow> ('a \<times> string) option \<Rightarrow> bool" where
  "shrinks s x \<longleftrightarrow> (\<forall>t r. x = Some (t, r) \<longrightarrow> length r < length s)"

lemma shrinksD: "shrinks s x \<Longrightarrow> x = Some (t, r) \<Longrightarrow> length r < length s"
  by (simp add: shrinks_def)

lemma shrinks_intros:
  "shrinks s None"
  "length r < length s \<Longrightarrow> shrinks s (Some (t, r))"
  "(b \<Longrightarrow> shrinks s x) \<Longrightarrow> (\<not> b \<Longrightarrow> shrinks s y) \<Longrightarrow> shrinks s (if b then x else y)"
  "(ys = [] \<Longrightarrow> shrinks s x) \<Longrightarrow> (\<And>a as. ys = a # as \<Longrightarrow> shrinks s (f a as)) \<Longrightarrow>
     shrinks s (case ys of [] \<Rightarrow> x | a # as \<Rightarrow> f a as)"
  "(ov = None \<Longrightarrow> shrinks s x) \<Longrightarrow> (\<And>v. ov = Some v \<Longrightarrow> shrinks s (g v)) \<Longrightarrow>
     shrinks s (case ov of None \<Rightarrow> x | Some v \<Rightarrow> g v)"
  "(\<And>u v. p = (u, v) \<Longrightarrow> shrinks s (k u v)) \<Longrightarrow> shrinks s (case p of (u, v) \<Rightarrow> k u v)"
  by (auto simp: shrinks_def split: list.split option.split prod.split)

lemma shrinks_map: "shrinks s' y \<Longrightarrow> length s' \<le> length s \<Longrightarrow> shrinks s (map_option (apfst h) y)"
  by (auto simp: shrinks_def map_option_apfst_Some)

lemma shrinks_parse_str: "shrinks s (parse_str s)"
proof (induction s rule: length_induct)
  case (1 s)
  then have rec: "length s' < length s \<Longrightarrow> shrinks (c # r) (map_option (apfst h) (parse_str s'))"
    if "s = c # r" for s' h c r
    using that by (blast intro: shrinks_map less_imp_le)
  show ?case
  proof (cases s)
    case (Cons c s')
    show ?thesis
      unfolding Cons parse_str.simps(2) by (intro shrinks_intros rec [OF Cons]; simp add: Cons)
  qed (simp add: shrinks_intros)
qed

lemma scan_int_shrink: "scan_int s = Some (ds, r) \<Longrightarrow> length r < length s"
  by (auto simp: scan_int_def less_Suc_eq_le length_dropWhile_le split: list.splits if_splits)

lemma scan_frac_length: "scan_frac s = Some (ds, r) \<Longrightarrow> length r \<le> length s"
  by (auto simp: scan_frac_def split: list.splits if_splits intro: le_SucI length_dropWhile_le)

lemma scan_exp_length: "scan_exp s = Some (ds, r) \<Longrightarrow> length r \<le> length s"
  by (auto simp: scan_exp_def split: list.splits if_splits prod.splits
      intro: le_SucI length_dropWhile_le)

lemma shrinks_parse_num: "shrinks s (parse_num s)"
  by (auto simp: shrinks_def parse_num_def scan_sign_def split: list.splits if_splits option.splits prod.splits
      dest!: scan_int_shrink scan_frac_length scan_exp_length)

lemma shrinks_le: "shrinks s' y \<Longrightarrow> length s' \<le> length s \<Longrightarrow> shrinks s y"
  by (auto simp: shrinks_def)

lemma skip_ws_bounds:
  "skip_ws s = c # r \<Longrightarrow> length r < length s"
  "prefix [c] (skip_ws s) \<Longrightarrow> length (tl (skip_ws s)) < length s"
  using skip_ws_length [of s] by (auto simp: prefix_def)

lemma parse_shrinks:
  "shrinks s (parse_val f s) \<and> shrinks s (parse_elems f s) \<and> shrinks s (parse_members f s)"
proof (induction f arbitrary: s)
  case (Suc f)
  then have IH: "shrinks s (parse_val f s)" "shrinks s (parse_elems f s)" "shrinks s (parse_members f s)"
    for s by auto
  note len = shrinksD [OF IH(1)] shrinksD [OF shrinks_parse_str] skip_ws_bounds
  have "shrinks s (parse_val (Suc f) s)"
    unfolding parse_val.simps
    by (intro shrinks_intros shrinks_map [OF IH(2)] shrinks_map [OF IH(3)]
        shrinks_map [OF shrinks_parse_str] shrinks_le [OF shrinks_parse_num];
        fastforce dest: len)
  moreover have "shrinks s (parse_elems (Suc f) s)"
    unfolding parse_elems.simps
    by (intro shrinks_intros shrinks_map [OF IH(2)]; fastforce dest: len)
  moreover have "shrinks s (parse_members (Suc f) s)"
    unfolding parse_members.simps
    by (intro shrinks_intros shrinks_map [OF IH(3)]; fastforce dest: len)
  ultimately show ?case by blast
qed (simp add: shrinks_intros)

lemma decode_first_shrink: "decode_first s = Some (j, r) \<Longrightarrow> length r < length s"
  unfolding decode_first_def by (rule shrinksD) (use parse_shrinks in blast)

text \<open>With enough fuel the parsers find whatever they find with any fuel.\<close>

definition flat_le :: "'a option \<Rightarrow> 'a option \<Rightarrow> bool" where
  "flat_le x y \<longleftrightarrow> (\<forall>a. x = Some a \<longrightarrow> y = Some a)"

lemma flat_le_intros:
  "(b \<Longrightarrow> flat_le x x') \<Longrightarrow> (\<not> b \<Longrightarrow> flat_le y y') \<Longrightarrow>
     flat_le (if b then x else y) (if b then x' else y')"
  "(ys = [] \<Longrightarrow> flat_le x x') \<Longrightarrow> (\<And>a as. ys = a # as \<Longrightarrow> flat_le (f a as) (f' a as)) \<Longrightarrow>
     flat_le (case ys of [] \<Rightarrow> x | a # as \<Rightarrow> f a as) (case ys of [] \<Rightarrow> x' | a # as \<Rightarrow> f' a as)"
  "flat_le ov ov' \<Longrightarrow> (\<And>u v. ov = Some (u, v) \<Longrightarrow> flat_le (k u v) (k' u v)) \<Longrightarrow>
     flat_le (case ov of None \<Rightarrow> None | Some (u, v) \<Rightarrow> k u v) (case ov' of None \<Rightarrow> None | Some (u, v) \<Rightarrow> k' u v)"
  "flat_le y y' \<Longrightarrow> flat_le (map_option h y) (map_option h y')"
  "flat_le z z"
  by (auto simp: flat_le_def split: list.split option.splits prod.split)

lemma parse_fuel_enough:
  "(2 * length s < g \<longrightarrow> flat_le (parse_val f s) (parse_val g s)) \<and>
   (2 * length s + 1 < g \<longrightarrow> flat_le (parse_elems f s) (parse_elems g s) \<and>
      flat_le (parse_members f s) (parse_members g s))"
proof (induction f arbitrary: s g)
  case (Suc f)
  note len = shrinksD [OF parse_shrinks [THEN conjunct1]] shrinksD [OF shrinks_parse_str] skip_ws_bounds
  show ?case
  proof (cases g)
    case (Suc g')
    have IH: "2 * length r < g' \<Longrightarrow> flat_le (parse_val f r) (parse_val g' r)"
      "2 * length r + 1 < g' \<Longrightarrow> flat_le (parse_elems f r) (parse_elems g' r)"
      "2 * length r + 1 < g' \<Longrightarrow> flat_le (parse_members f r) (parse_members g' r)" for r
      using Suc.IH by auto
    have "flat_le (parse_val (Suc f) s) (parse_val (Suc g') s)" if "2 * length s \<le> g'"
      unfolding parse_val.simps
      by (intro flat_le_intros IH; use that in \<open>fastforce dest: len\<close>)
    moreover have "flat_le (parse_elems (Suc f) s) (parse_elems (Suc g') s)" if "2 * length s < g'"
      unfolding parse_elems.simps
      by (intro flat_le_intros IH; use that in \<open>fastforce dest: len\<close>)
    moreover have "flat_le (parse_members (Suc f) s) (parse_members (Suc g') s)" if "2 * length s < g'"
      unfolding parse_members.simps
      by (intro flat_le_intros IH; use that in \<open>fastforce dest: len\<close>)
    ultimately show ?thesis using Suc by auto
  qed simp
qed (simp add: flat_le_def)

lemma decode_first_fuel: "parse_val f s = Some x \<Longrightarrow> decode_first s = Some x"
  using parse_fuel_enough [of s "Suc (2 * length s)" f] by (simp add: decode_first_def flat_le_def)

section \<open>Round trip\<close>

lemma hex_val_hex_char [simp]: "d < 16 \<Longrightarrow> hex_val (hex_char d) = Some d"
  by (auto simp: hex_val_def hex_char_def Let_def)

lemma hex4_byte:
  "n < 256 \<Longrightarrow> hex4 (CHR ''0'') (CHR ''0'') (hex_char (n div 16)) (hex_char (n mod 16)) = Some n"
proof -
  assume "n < 256"
  then have "n div 16 < 16" by (intro less_mult_imp_div_less) simp
  moreover have "hex_val (CHR ''0'') = Some 0" by (simp add: hex_val_def)
  ultimately show ?thesis by (simp add: hex4_def)
qed

lemma parse_str_unicode:
  assumes "hex4 h1 h2 h3 h4 = Some v" and "v < 128"
  shows "parse_str (backslash # CHR ''u'' # h1 # h2 # h3 # h4 # t) =
    map_option (apfst (Cons (char_of v))) (parse_str t)"
proof -
  have "utf8_unit v = [char_of v]" using assms(2) by (simp add: utf8_unit_def utf8_def)
  moreover have "backslash \<noteq> dquote" by (simp add: backslash_def dquote_def)
  ultimately show ?thesis
    using assms
    by (subst parse_str.simps(2)) (auto split: list.splits option.splits simp: apfst_def map_prod_def)
qed

lemma parse_str_quote_char:
  "parse_str (quote_char c @ t) = map_option (apfst (Cons c)) (parse_str t)"
proof -
  have bq: "backslash \<noteq> dquote" "backslash \<noteq> CHR ''u''" "dquote \<noteq> CHR ''u''"
    by (simp_all add: backslash_def dquote_def)
  consider (plain) "c \<noteq> dquote" "c \<noteq> backslash" "\<not> (of_char c :: nat) < 32" "quote_char c = [c]"
    | (short) e where "quote_char c = [backslash, e]" "e \<noteq> CHR ''u''" "simple_escape e = Some c"
    | (unicode) "quote_char c = [backslash, CHR ''u'', CHR ''0'', CHR ''0'',
        hex_char (of_char c div 16), hex_char (of_char c mod 16)]" "(of_char c :: nat) < 128"
  proof -
    let ?short = "{dquote, backslash, CHR 0x08, CHR 0x0C, CHR 0x0A, CHR 0x0D, CHR 0x09}"
    let ?special = "(of_char c :: nat) < 32 \<or> c = CHR ''<'' \<or> c = CHR ''>'' \<or> c = CHR ''&''"
    consider "c \<in> ?short" | "c \<notin> ?short" "?special" | "c \<notin> ?short" "\<not> ?special" by blast
    then show thesis
    proof cases
      case 1
      then show thesis
        by (elim insertE emptyE; intro short [of "hd (tl (quote_char c))"])
          (simp_all add: quote_char_def simple_escape_def backslash_def dquote_def)
    next
      case 2
      then have "(of_char c :: nat) < 128" by (elim disjE) simp_all
      then show thesis using 2 by (intro unicode) (simp only: quote_char_def insert_iff empty_iff de_Morgan_disj simp_thms if_True if_False)+
    next
      case 3
      then show thesis by (intro plain) (simp only: quote_char_def insert_iff empty_iff de_Morgan_disj simp_thms if_True if_False)+
    qed
  qed
  then show ?thesis
  proof cases
    case plain
    then show ?thesis by (simp add: parse_str.simps(2))
  next
    case short
    then show ?thesis using bq by (simp add: parse_str.simps(2))
  next
    case unicode
    then show ?thesis
      using parse_str_unicode [OF hex4_byte] by simp
  qed
qed

lemma parse_str_quote: "parse_str (concat (map quote_char s) @ dquote # rest) = Some (s, rest)"
  by (induction s) (simp_all add: parse_str_quote_char parse_str.simps(2))

text \<open>What may follow a number.\<close>

definition num_end :: "string \<Rightarrow> bool" where
  "num_end s \<longleftrightarrow>
     (case s of [] \<Rightarrow> True
      | c # _ \<Rightarrow> \<not> is_digit c \<and> c \<noteq> CHR ''.'' \<and> c \<noteq> CHR ''e'' \<and> c \<noteq> CHR ''E'')"

lemma scan_int_nat_text:
  assumes "num_end rest"
  shows "scan_int (nat_text n @ rest) = Some (nat_text n, rest)"
proof -
  obtain c r where c: "nat_text n = c # r" "is_digit c" using nat_text_head by blast
  have r: "list_all is_digit r" using nat_text_digits [of n] c(1) by simp
  have stop: "takeWhile is_digit rest = []" "dropWhile is_digit rest = rest"
    using assms by (auto simp: num_end_def split: list.splits)
  have tw: "takeWhile is_digit (r @ rest) = r" "dropWhile is_digit (r @ rest) = rest"
    using r stop by (simp_all add: list_all_iff takeWhile_append2 dropWhile_append2)
  show ?thesis
  proof (cases "c = CHR ''0''")
    case True
    then have "r = []" using nat_text_leading [of n] c(1) by simp
    with True c show ?thesis by (simp add: scan_int_def)
  next
    case False
    with c tw show ?thesis by (simp add: scan_int_def)
  qed
qed

lemma scan_tail: "num_end rest \<Longrightarrow> scan_frac rest = Some ([], rest) \<and> scan_exp rest = Some ([], rest)"
  by (auto simp: num_end_def scan_frac_def scan_exp_def split: list.splits)

lemma parse_num_int_text: "num_end rest \<Longrightarrow> parse_num (int_text i @ rest) = Some (JInt i, rest)"
proof -
  assume e: "num_end rest"
  obtain c r where c: "nat_text (nat i) = c # r" "is_digit c" using nat_text_head by blast
  have "scan_sign (nat_text (nat i) @ rest) = (False, nat_text (nat i) @ rest)"
    using c is_digit_not_sign [OF c(2)] by (simp add: scan_sign_def)
  moreover have "scan_sign (CHR ''-'' # s) = (True, s)" for s by (simp add: scan_sign_def)
  ultimately show ?thesis
    using scan_int_nat_text [OF e] scan_tail [OF e]
    by (simp add: parse_num_def int_text_def)
qed

text \<open>Documents the program writes have no fractional numbers.\<close>

fun writable :: "json \<Rightarrow> bool" where
  "writable (JFrac s) = False"
| "writable (JArr xs) = list_all writable xs"
| "writable (JObj ms) = list_all (\<lambda>(k, v). writable v) ms"
| "writable _ = True"

lemma skip_ws_newline [simp]: "skip_ws (newline ind n @ s) = skip_ws s"
proof -
  have "dropWhile is_ws (replicate m (CHR 0x20) @ s) = dropWhile is_ws s" for m
    by (induction m) (simp_all add: is_ws_def)
  then show ?thesis by (simp add: skip_ws_def newline_def is_ws_def)
qed

lemma skip_ws_start: "\<not> is_ws c \<Longrightarrow> skip_ws (c # s) = c # s"
  by (simp add: skip_ws_def)

text \<open>The first byte of a value's text.\<close>

definition val_start :: "char \<Rightarrow> bool" where
  "val_start c \<longleftrightarrow> \<not> is_ws c \<and> c \<noteq> CHR '']'' \<and> c \<noteq> CHR ''}''"

lemma int_text_start:
  "\<exists>c r. int_text i = c # r \<and> (is_digit c \<or> c = CHR ''-'')"
  using nat_text_head by (fastforce simp: int_text_def)

lemma json_text_start: "writable j \<Longrightarrow> \<exists>c r. json_text_at ind n j = c # r \<and> val_start c"
proof (cases j)
  case (JInt i)
  obtain c r where "int_text i = c # r" "is_digit c \<or> c = CHR ''-''"
    using int_text_start by blast
  moreover from this(2) have "val_start c"
    by (auto simp: val_start_def is_ws_def is_digit_def)
  ultimately show ?thesis using JInt by simp
qed (auto simp: val_start_def is_ws_def quote_string_def dquote_def)

lemma parse_val_newline [simp]: "parse_val f (newline ind n @ s) = parse_val f s"
  by (cases f) simp_all

lemma parse_elems_newline [simp]: "parse_elems f (newline ind n @ s) = parse_elems f s"
  by (cases f) simp_all

lemma parse_members_newline [simp]: "parse_members f (newline ind n @ s) = parse_members f s"
  by (cases f) simp_all

lemma parse_val_space [simp]: "parse_val f (CHR 0x20 # s) = parse_val f s"
  by (cases f) (simp_all add: skip_ws_def is_ws_def)

lemma parse_val_colon_pad [simp]: "parse_val f (colon_pad ind @ s) = parse_val f s"
  by (simp add: colon_pad_def)

lemma num_end_newline: "num_end s \<Longrightarrow> num_end (newline ind n @ s)"
  by (simp add: newline_def num_end_def is_digit_def)

lemma join_with_Cons:
  "join_with sep (x # xs) = x @ (if xs = [] then [] else sep @ join_with sep xs)"
  by (cases xs) auto

lemma skip_ws_json: "writable j \<Longrightarrow> skip_ws (json_text_at ind n j @ s) = json_text_at ind n j @ s"
  using json_text_start [of j ind n] by (auto simp: val_start_def skip_ws_start)

lemma skip_ws_close [simp]:
  "skip_ws (CHR '']'' # s) = CHR '']'' # s" "skip_ws (CHR ''}'' # s) = CHR ''}'' # s"
  "skip_ws (CHR '','' # s) = CHR '','' # s" "skip_ws (CHR '':'' # s) = CHR '':'' # s"
  "skip_ws (dquote # s) = dquote # s"
  by (simp_all add: skip_ws_start is_ws_def dquote_def)

definition parses :: "json \<Rightarrow> bool" where
  "parses j \<longleftrightarrow> (\<forall>ind n f rest. num_end rest \<longrightarrow> length (json_text_at ind n j) < f \<longrightarrow>
     parse_val f (json_text_at ind n j @ rest) = Some (j, rest))"

lemma parsesD:
  "parses j \<Longrightarrow> num_end rest \<Longrightarrow> length (json_text_at ind n j) < f \<Longrightarrow>
     parse_val f (json_text_at ind n j @ rest) = Some (j, rest)"
  by (simp add: parses_def)

lemma num_end_seps [simp]:
  "num_end (CHR '','' # s)" "num_end (newline ind n @ CHR '']'' # s)"
  "num_end (newline ind n @ CHR ''}'' # s)" "num_end []"
  by (intro num_end_newline | simp add: num_end_def is_digit_def)+

lemma parse_elems_text:
  assumes "xs \<noteq> []" "\<And>x. x \<in> set xs \<Longrightarrow> parses x"
    and "length (join_with ('','' @ newline ind m) (map (json_text_at ind k) xs)) + 1 < f"
  shows "parse_elems f (join_with ('','' @ newline ind m) (map (json_text_at ind k) xs) @
    newline ind n @ CHR '']'' # rest) = Some (xs, rest)"
  using assms
proof (induction xs arbitrary: f)
  case (Cons x xs)
  obtain f' where f: "f = Suc f'" using Cons.prems(3) by (cases f) auto
  have x: "parses x" using Cons.prems(2) by simp
  show ?case
  proof (cases "xs = []")
    case True
    then show ?thesis
      using f Cons.prems(3) parsesD [OF x, of "newline ind n @ CHR '']'' # rest"] by simp
  next
    case False
    have len: "length (json_text_at ind k x) < f'"
      "length (join_with ('','' @ newline ind m) (map (json_text_at ind k) xs)) + 1 < f'"
      using Cons.prems(3) f False by (simp_all add: join_with_Cons)
    have "parse_elems f' (join_with ('','' @ newline ind m) (map (json_text_at ind k) xs) @
        newline ind n @ CHR '']'' # rest) = Some (xs, rest)"
      using Cons.IH False Cons.prems(2) len(2) by simp
    then show ?thesis
      using f False parsesD [OF x _ len(1)] by (simp add: join_with_Cons)
  qed
qed simp

abbreviation member_text :: "bool \<Rightarrow> nat \<Rightarrow> string \<times> json \<Rightarrow> string" where
  "member_text ind k \<equiv>
     (\<lambda>(key, v). quote_string key @ colon ind @ json_text_at ind k v)"

lemma parse_members_text:
  assumes "ms \<noteq> []" "\<And>key v. (key, v) \<in> set ms \<Longrightarrow> parses v"
    and "length (join_with ('','' @ newline ind m) (map (member_text ind k) ms)) + 1 < f"
  shows "parse_members f (join_with ('','' @ newline ind m) (map (member_text ind k) ms) @
    newline ind n @ CHR ''}'' # rest) = Some (ms, rest)"
  using assms
proof (induction ms arbitrary: f)
  case (Cons a ms)
  obtain key v where a: "a = (key, v)" by (cases a)
  obtain f' where f: "f = Suc f'" using Cons.prems(3) by (cases f) auto
  have v: "parses v" using Cons.prems(2) a by auto
  have head: "quote_string key @ s = dquote # concat (map quote_char key) @ dquote # s" for s
    by (simp add: quote_string_def)
  show ?case
  proof (cases "ms = []")
    case True
    then show ?thesis
      using f a Cons.prems(3) parsesD [OF v, of "newline ind n @ CHR ''}'' # rest" ind k f']
      by (simp add: head parse_str_quote colon_def)
  next
    case False
    have len: "length (json_text_at ind k v) < f'"
      "length (join_with ('','' @ newline ind m) (map (member_text ind k) ms)) + 1 < f'"
      using Cons.prems(3) f False a by (simp_all add: join_with_Cons)
    have "parse_members f' (join_with ('','' @ newline ind m) (map (member_text ind k) ms) @
        newline ind n @ CHR ''}'' # rest) = Some (ms, rest)"
      using Cons.IH [OF False _ len(2)] Cons.prems(2) by (meson list.set_intros(2))
    then show ?thesis
      using f a False parsesD [OF v _ len(1)] by (simp add: join_with_Cons head parse_str_quote colon_def)
  qed
qed simp

lemma parses_writable: "writable j \<Longrightarrow> parses j"
proof (induction j)
  case (JInt i)
  show ?case unfolding parses_def
  proof (intro allI impI)
    fix ind n f rest
    assume r: "num_end rest" "length (json_text_at ind n (JInt i)) < f"
    then obtain f' where f: "f = Suc f'" by (cases f) auto
    obtain c s where c: "int_text i = c # s" "is_digit c \<or> c = CHR ''-''"
      using int_text_start by blast
    then have "\<not> is_ws c" "c \<noteq> CHR ''[''" "c \<noteq> CHR ''{''" "c \<noteq> dquote" "c \<noteq> CHR ''n''"
      "c \<noteq> CHR ''t''" "c \<noteq> CHR ''f''"
      by (auto simp: is_ws_def is_digit_def dquote_def)
    then show "parse_val f (json_text_at ind n (JInt i) @ rest) = Some (JInt i, rest)"
      using parse_num_int_text [OF r(1), of i] f c by (simp add: skip_ws_start)
  qed
next
  case (JStr s)
  show ?case unfolding parses_def
  proof (intro allI impI)
    fix ind n f rest
    assume "num_end rest" "length (json_text_at ind n (JStr s)) < f"
    then obtain f' where f: "f = Suc f'" by (cases f) auto
    then show "parse_val f (json_text_at ind n (JStr s) @ rest) = Some (JStr s, rest)"
      by (simp add: quote_string_def parse_str_quote) (simp add: dquote_def)
  qed
next
  case (JArr xs)
  then have xs: "\<And>x. x \<in> set xs \<Longrightarrow> parses x \<and> writable x" by (auto simp: list_all_iff)
  show ?case unfolding parses_def
  proof (intro allI impI)
    fix ind n f rest
    assume r: "num_end rest" "length (json_text_at ind n (JArr xs)) < f"
    then obtain f' where f: "f = Suc f'" by (cases f) auto
    show "parse_val f (json_text_at ind n (JArr xs) @ rest) = Some (JArr xs, rest)"
    proof (cases xs)
      case Nil
      then show ?thesis using f by (simp add: skip_ws_start is_ws_def)
    next
      case (Cons y ys)
      let ?body = "join_with ('','' @ newline ind (n + 1)) (map (json_text_at ind (n + 1)) xs)"
      have "length ?body + 1 < f'" using r(2) f Cons by simp
      then have body: "parse_elems f' (?body @ newline ind n @ CHR '']'' # rest) = Some (xs, rest)"
        using Cons xs by (intro parse_elems_text) auto
      have "writable y" using xs Cons by simp
      then obtain c s where c: "json_text_at ind (n + 1) y = c # s" "val_start c"
        using json_text_start by blast
      then have "\<not> prefix '']'' (skip_ws (?body @ newline ind n @ CHR '']'' # rest))"
        using Cons by (auto simp: join_with_Cons val_start_def skip_ws_start)
      with body show ?thesis using f Cons by (simp add: skip_ws_start is_ws_def)
    qed
  qed
next
  case (JObj ms)
  then have ms: "\<And>key v. (key, v) \<in> set ms \<Longrightarrow> parses v" by (fastforce simp: list_all_iff)
  show ?case unfolding parses_def
  proof (intro allI impI)
    fix ind n f rest
    assume r: "num_end rest" "length (json_text_at ind n (JObj ms)) < f"
    then obtain f' where f: "f = Suc f'" by (cases f) auto
    show "parse_val f (json_text_at ind n (JObj ms) @ rest) = Some (JObj ms, rest)"
    proof (cases ms)
      case Nil
      then show ?thesis using f by (simp add: skip_ws_start is_ws_def)
    next
      case (Cons a as)
      let ?body = "join_with ('','' @ newline ind (n + 1)) (map (member_text ind (n + 1)) ms)"
      have "length ?body + 1 < f'" using r(2) f Cons by simp
      then have body: "parse_members f' (?body @ newline ind n @ CHR ''}'' # rest) = Some (ms, rest)"
        using Cons ms by (intro parse_members_text) auto
      have "\<not> prefix ''}'' (skip_ws (?body @ newline ind n @ CHR ''}'' # rest))"
        using Cons by (cases a) (simp add: join_with_Cons quote_string_def, simp add: dquote_def)
      with body show ?thesis using f Cons by (simp add: skip_ws_start is_ws_def)
    qed
  qed
qed (auto simp: parses_def skip_ws_start is_ws_def dquote_def gr0_conv_Suc neq0_conv
    dest!: less_imp_Suc_add)

text \<open>
  Reading back a text the program wrote, indented or not, also when whitespace (the newline
  that ends the state file) follows.
\<close>

lemma parse_json_text:
  assumes "writable j" and "list_all is_ws ws"
  shows "parse_json (json_text ind j @ ws) = Some j"
proof -
  have "num_end ws"
    using assms(2) by (auto simp: num_end_def is_ws_def is_digit_def split: list.splits)
  moreover have "skip_ws ws = []"
    using assms(2) by (simp add: skip_ws_def list_all_iff)
  ultimately show ?thesis
    using parsesD [OF parses_writable [OF assms(1)], of ws ind 0 "Suc (2 * length (json_text ind j @ ws))"]
    by (simp add: parse_json_def decode_first_def json_text_def)
qed

end
