(* ===== verification/GoTime.thy ===== *)
theory GoTime
  imports GoNumbers "HOL-Library.Monad_Syntax"
begin

text \<open>
  Instants as RFC 3339 text in UTC (\<open>time.RFC3339\<close>, \<open>time.RFC3339Nano\<close>), which the state file,
  the tokens' neighbours in the API and the history cache keys are written in, and the parser
  of that text. The calendar is the proleptic Gregorian one from year 0.
\<close>

section \<open>Calendar\<close>

definition leap_year :: "nat \<Rightarrow> bool" where
  "leap_year y \<longleftrightarrow> y mod 4 = 0 \<and> (y mod 100 \<noteq> 0 \<or> y mod 400 = 0)"

definition year_len :: "nat \<Rightarrow> nat" where
  "year_len y = (if leap_year y then 366 else 365)"

definition month_lens :: "nat \<Rightarrow> nat list" where
  "month_lens y = [31, if leap_year y then 29 else 28, 31, 30, 31, 30, 31, 31, 30, 31, 30, 31]"

definition cycle_lens :: "nat list" where
  "cycle_lens = map year_len [0..<400]"

text \<open>Which of a row of consecutive spans a day falls in, and the day within it.\<close>

fun split_by :: "nat list \<Rightarrow> nat \<Rightarrow> nat \<times> nat" where
  "split_by [] d = (0, d)"
| "split_by (l # ls) d =
     (if d < l then (0, d) else (let (i, r) = split_by ls (d - l) in (Suc i, r)))"

definition civil_of_day :: "nat \<Rightarrow> nat \<times> nat \<times> nat" where
  "civil_of_day day =
     (let (j, doy) = split_by cycle_lens (day mod 146097);
          y = 400 * (day div 146097) + j;
          (m, dom) = split_by (month_lens y) doy
      in (y, m + 1, dom + 1))"

definition day_of_civil :: "nat \<Rightarrow> nat \<Rightarrow> nat \<Rightarrow> nat" where
  "day_of_civil y m d =
     146097 * (y div 400) + sum_list (take (y mod 400) cycle_lens) +
     sum_list (take (m - 1) (month_lens y)) + (d - 1)"

lemma split_by_spec:
  "d < sum_list ls \<Longrightarrow> split_by ls d = (i, r) \<Longrightarrow>
     i < length ls \<and> r < ls ! i \<and> d = sum_list (take i ls) + r"
proof (induction ls d arbitrary: i r rule: split_by.induct)
  case (2 l ls d)
  show ?case
  proof (cases "d < l")
    case True
    with "2.prems" show ?thesis by simp
  next
    case False
    obtain j q where j: "split_by ls (d - l) = (j, q)" by fastforce
    with False "2.prems"(2) have "i = Suc j" "r = q" by simp_all
    moreover have "j < length ls \<and> q < ls ! j \<and> d - l = sum_list (take j ls) + q"
      using "2.IH" [OF False _ j] False "2.prems"(1) by simp
    ultimately show ?thesis using False by auto
  qed
qed simp

lemma length_cycle_lens [simp]: "length cycle_lens = 400"
  unfolding cycle_lens_def length_map length_upt by simp

lemma nth_cycle_lens: "j < 400 \<Longrightarrow> cycle_lens ! j = year_len j"
  unfolding cycle_lens_def by (subst nth_map_upt) simp_all

lemma step_div:
  "0 < k \<Longrightarrow> (Suc n + (k - 1)) div k = (n + (k - 1)) div k + (if n mod k = 0 then 1 else 0)"
  for k n :: nat
  using div_Suc [of "n + (k - 1)" k] by simp

text \<open>The Gregorian count of leap years, from which a cycle of 400 years has 146097 days.\<close>

lemma sum_year_lens:
  "sum_list (map year_len [0..<n]) + (n + 99) div 100 = 365 * n + (n + 3) div 4 + (n + 399) div 400"
proof (induction n)
  case (Suc n)
  have 4: "(Suc n + 3) div 4 = (n + 3) div 4 + (if n mod 4 = 0 then 1 else 0)"
    and 100: "(Suc n + 99) div 100 = (n + 99) div 100 + (if n mod 100 = 0 then 1 else 0)"
    and 400: "(Suc n + 399) div 400 = (n + 399) div 400 + (if n mod 400 = 0 then 1 else 0)"
    using step_div [of 4 n] step_div [of 100 n] step_div [of 400 n] by (simp_all del: add_Suc)
  have "n mod 400 = 0 \<Longrightarrow> n mod 100 = 0" "n mod 100 = 0 \<Longrightarrow> n mod 4 = 0"
    using mod_mod_cancel [of 100 400 n] mod_mod_cancel [of 4 100 n] by simp_all
  then have y: "year_len n + (if n mod 100 = 0 then 1 else 0) =
      365 + (if n mod 4 = 0 then 1 else 0) + (if n mod 400 = 0 then 1 else 0)"
    by (simp add: year_len_def leap_year_def)
  have s: "sum_list (map year_len [0..<Suc n]) = sum_list (map year_len [0..<n]) + year_len n"
    by simp
  have "(a + l) + (b + k1) = 365 * Suc n + (c + k2) + (d + k3)"
    if "a + b = 365 * n + c + d" "l + k1 = 365 + k2 + k3" for a b c d l k1 k2 k3 :: nat
    using that by simp
  from this [OF Suc y] show ?case
    unfolding s 4 100 400 .
qed simp

lemma sum_cycle_lens: "sum_list cycle_lens = 146097"
proof -
  have "s + (400 + 99) div 100 = 365 * 400 + (400 + 3) div 4 + (400 + 399) div 400 \<Longrightarrow> s = 146097"
    for s :: nat by simp
  then show ?thesis
    unfolding cycle_lens_def by this (rule sum_year_lens)
qed

lemma leap_year_cycle: "leap_year (400 * c + j) = leap_year j"
proof -
  have "(400 * c + j) mod 4 = j mod 4" "(400 * c + j) mod 100 = j mod 100"
    "(400 * c + j) mod 400 = j mod 400"
    using mod_mult_self4 [of 4 "100 * c" j] mod_mult_self4 [of 100 "4 * c" j] by simp_all
  then show ?thesis by (simp add: leap_year_def)
qed

lemma sum_month_lens: "sum_list (month_lens y) = year_len y"
  by (simp add: month_lens_def year_len_def)

lemma civil_of_day_spec:
  assumes "civil_of_day day = (y, m, d)"
  shows "day_of_civil y m d = day" "1 \<le> m" "m \<le> 12" "1 \<le> d"
    "d \<le> month_lens y ! (m - 1)" "y = 400 * (day div 146097) + y mod 400"
proof -
  obtain j doy where j: "split_by cycle_lens (day mod 146097) = (j, doy)"
    by fastforce
  have js: "j < 400" "doy < cycle_lens ! j" "day mod 146097 = sum_list (take j cycle_lens) + doy"
    using split_by_spec [OF _ j] by (simp_all add: sum_cycle_lens)
  let ?y = "400 * (day div 146097) + j"
  obtain m0 d0 where m0: "split_by (month_lens ?y) doy = (m0, d0)"
    by fastforce
  have "doy < sum_list (month_lens ?y)"
    using js(1,2) by (simp add: sum_month_lens year_len_def leap_year_cycle nth_cycle_lens)
  note ms = split_by_spec [OF this m0]
  have y: "y = ?y" "m = m0 + 1" "d = d0 + 1"
    using assms j m0 by (simp_all add: civil_of_day_def Let_def)
  have len: "length (month_lens ?y) = 12"
    by (simp add: month_lens_def)
  have yd: "?y div 400 = day div 146097" "?y mod 400 = j"
    using js(1) by simp_all
  show "day_of_civil y m d = day"
    using ms js y yd div_mult_mod_eq [of day 146097] by (simp add: day_of_civil_def)
  show "1 \<le> m" "m \<le> 12" "1 \<le> d" "d \<le> month_lens y ! (m - 1)" "y = 400 * (day div 146097) + y mod 400"
    using ms y yd len by auto
qed

lemma civil_of_day_year:
  assumes "civil_of_day day = (y, m, d)" and "day < 3652425"
  shows "y < 10000"
proof -
  have "day div 146097 \<le> 24" using assms(2) by simp
  moreover have "y mod 400 < 400" by simp
  ultimately show ?thesis
    using civil_of_day_spec(6) [OF assms(1)] by linarith
qed

section \<open>Formatting\<close>

text \<open>Days from 0000-01-01 to 1970-01-01, and the instants of the years 0 to 9999.\<close>

definition epoch_day :: int where "epoch_day = 719528"

definition day_ns :: int where "day_ns = 86400000000000"

definition time_in_range :: "go_time \<Rightarrow> bool" where
  "time_in_range t \<longleftrightarrow> 0 \<le> t + epoch_day * day_ns \<and> t + epoch_day * day_ns < 3652425 * day_ns"

definition strip_zeros :: "string \<Rightarrow> string" where
  "strip_zeros s = rev (dropWhile (\<lambda>c. c = CHR ''0'') (rev s))"

definition fmt_frac :: "nat \<Rightarrow> string" where
  "fmt_frac ns = (if ns = 0 then [] else CHR ''.'' # strip_zeros (fixed_text 9 ns))"

definition fmt_seconds :: "nat \<Rightarrow> string" where
  "fmt_seconds s =
     fixed_text 2 (s div 3600) @ '':'' @ fixed_text 2 (s div 60 mod 60) @ '':'' @ fixed_text 2 (s mod 60)"

definition fmt_date :: "nat \<Rightarrow> string" where
  "fmt_date day =
     (let (y, m, d) = civil_of_day day
      in fixed_text 4 y @ ''-'' @ fixed_text 2 m @ ''-'' @ fixed_text 2 d)"

text \<open>The reading of a clock face, without the zone.\<close>

definition fmt_face :: "go_time \<Rightarrow> string" where
  "fmt_face t =
     (let u = nat (t + epoch_day * day_ns);
          n = u mod nat day_ns
      in fmt_date (u div nat day_ns) @ ''T'' @ fmt_seconds (n div 1000000000) @
         fmt_frac (n mod 1000000000))"

text \<open>\<open>t.UTC().Format(time.RFC3339Nano)\<close> and \<open>Format(time.RFC3339)\<close>.\<close>

definition fmt_rfc3339nano :: "go_time \<Rightarrow> string" where
  "fmt_rfc3339nano t = fmt_face t @ ''Z''"

definition fmt_rfc3339 :: "go_time \<Rightarrow> string" where
  "fmt_rfc3339 t = fmt_rfc3339nano (unix_of t * second)"

section \<open>Parsing\<close>

definition num_field :: "nat \<Rightarrow> string \<Rightarrow> (nat \<times> string) option" where
  "num_field k s =
     (if length (take k s) = k \<and> list_all is_digit (take k s)
      then Some (digits_val (take k s), drop k s) else None)"

fun expect :: "char \<Rightarrow> string \<Rightarrow> string option" where
  "expect c [] = None"
| "expect c (x # s) = (if x = c then Some s else None)"

definition parse_frac :: "string \<Rightarrow> nat \<times> string" where
  "parse_frac s =
     (case s of
        [] \<Rightarrow> (0, s)
      | c # r \<Rightarrow>
          (let ds = takeWhile is_digit r in
           if c = CHR ''.'' \<and> ds \<noteq> []
           then (digits_val (take 9 (ds @ replicate 9 (CHR ''0''))), dropWhile is_digit r)
           else (0, s)))"

definition parse_zone :: "string \<Rightarrow> int option" where
  "parse_zone s =
     (if s = ''Z'' then Some 0
      else do {
        (sgn, r) \<leftarrow> (case s of [] \<Rightarrow> None
           | c # r \<Rightarrow> if c = CHR ''+'' then Some (1::int, r)
                      else if c = CHR ''-'' then Some (-1, r) else None);
        (h, r) \<leftarrow> num_field 2 r;
        r \<leftarrow> expect (CHR '':'') r;
        (mi, r) \<leftarrow> num_field 2 r;
        (if h < 24 \<and> mi < 60 \<and> r = [] then Some (sgn * (int h * 3600 + int mi * 60)) else None)
      })"

text \<open>
  A strict RFC 3339 time, as \<open>time.Time\<close>'s \<open>UnmarshalJSON\<close> reads it: two-digit fields in
  range, a fraction, \<open>Z\<close> or an offset.
\<close>

definition parse_rfc3339 :: "string \<Rightarrow> go_time option" where
  "parse_rfc3339 s = do {
     (y, s) \<leftarrow> num_field 4 s;
     s \<leftarrow> expect (CHR ''-'') s;
     (m, s) \<leftarrow> num_field 2 s;
     s \<leftarrow> expect (CHR ''-'') s;
     (d, s) \<leftarrow> num_field 2 s;
     s \<leftarrow> expect (CHR ''T'') s;
     (h, s) \<leftarrow> num_field 2 s;
     s \<leftarrow> expect (CHR '':'') s;
     (mi, s) \<leftarrow> num_field 2 s;
     s \<leftarrow> expect (CHR '':'') s;
     (se, s) \<leftarrow> num_field 2 s;
     let (ns, s) = parse_frac s;
     off \<leftarrow> parse_zone s;
     (if 1 \<le> m \<and> m \<le> 12 \<and> 1 \<le> d \<and> d \<le> month_lens y ! (m - 1) \<and> h < 24 \<and> mi < 60 \<and> se < 60
      then Some ((int (day_of_civil y m d) - epoch_day) * day_ns +
             (int (h * 3600 + mi * 60 + se) - off) * second + int ns)
      else None)
   }"

lemma num_field_fixed [simp]: "num_field k (fixed_text k n @ s) = Some (n mod 10 ^ k, s)"
  by (simp add: num_field_def fixed_text_digits digits_val_fixed_text)

lemma strip_zeros_pad:
  assumes "length s = k"
  shows "take k (strip_zeros s @ replicate k (CHR ''0'')) = s"
proof -
  let ?z = "takeWhile (\<lambda>c. c = CHR ''0'') (rev s)"
  have "rev s = ?z @ dropWhile (\<lambda>c. c = CHR ''0'') (rev s)" by simp
  then have s: "s = strip_zeros s @ rev ?z"
    unfolding strip_zeros_def by (metis rev_append rev_rev_ident)
  have "?z = replicate (length ?z) (CHR ''0'')"
    by (rule replicate_length_same [symmetric]) (auto dest: set_takeWhileD)
  then have "s = strip_zeros s @ replicate (length ?z) (CHR ''0'')"
    using s by (metis rev_replicate)
  moreover from this have "length (strip_zeros s) + length ?z = k"
    using assms by (metis length_append length_replicate)
  ultimately have "s = strip_zeros s @ replicate (k - length (strip_zeros s)) (CHR ''0'')"
    and "length (strip_zeros s) \<le> k"
    by (metis add_diff_cancel_left', metis le_add1)
  then show ?thesis
    by (simp add: min_def)
qed

lemma strip_zeros_set: "set (strip_zeros s) \<subseteq> set s"
  unfolding strip_zeros_def by (auto dest: set_dropWhileD)

lemma strip_zeros_not_Nil:
  "length s = k \<Longrightarrow> digits_val s \<noteq> 0 \<Longrightarrow> strip_zeros s \<noteq> []"
proof
  assume "length s = k" "digits_val s \<noteq> 0" "strip_zeros s = []"
  then have "s = replicate k (CHR ''0'')"
    using strip_zeros_pad [of s k] by simp
  moreover have "digits_val (replicate k (CHR ''0'')) = 0"
    by (induction k) (simp_all add: replicate_append_same [symmetric] digit_val_def
        del: replicate_Suc add: replicate_Suc [folded replicate_append_same])
  ultimately show False using \<open>digits_val s \<noteq> 0\<close> by simp
qed

section \<open>Round trip\<close>

lemma parse_frac_fmt:
  assumes "ns < 1000000000"
    and "\<not> is_digit c" and "c \<noteq> CHR ''.''"
  shows "parse_frac (fmt_frac ns @ c # z) = (ns, c # z)"
proof (cases "ns = 0")
  case True
  then show ?thesis using assms(3) by (simp add: fmt_frac_def parse_frac_def)
next
  case False
  let ?ds = "strip_zeros (fixed_text 9 ns)"
  have digits: "list_all is_digit ?ds"
    using strip_zeros_set [of "fixed_text 9 ns"] fixed_text_digits [of 9 ns]
    by (auto simp: list_all_iff)
  have tw: "takeWhile is_digit (?ds @ c # z) = ?ds" "dropWhile is_digit (?ds @ c # z) = c # z"
    using digits assms(2) by (auto simp: list_all_iff takeWhile_append2 dropWhile_append2)
  have "digits_val (fixed_text 9 ns) = ns"
    using assms(1) by (simp add: digits_val_fixed_text)
  with False have "?ds \<noteq> []"
    using strip_zeros_not_Nil [of "fixed_text 9 ns" 9] by simp
  with False tw strip_zeros_pad [of "fixed_text 9 ns" 9] \<open>digits_val (fixed_text 9 ns) = ns\<close>
  show ?thesis by (simp add: fmt_frac_def parse_frac_def)
qed

lemma parse_zone_Z [simp]: "parse_zone ''Z'' = Some 0"
  by (simp add: parse_zone_def)

lemma month_len_bound: "m < 12 \<Longrightarrow> month_lens y ! m \<le> 31"
  by (auto simp: month_lens_def nth_Cons' split: if_splits)

text \<open>
  Formatting an instant of the years 0 to 9999 and reading the text back gives the instant,
  whatever the zone.
\<close>

lemma parse_fmt_face:
  assumes "time_in_range t"
    and z: "parse_zone (c # z) = Some off" "\<not> is_digit c" "c \<noteq> CHR ''.''"
  shows "parse_rfc3339 (fmt_face t @ c # z) = Some (t - off * second)"
proof -
  define u where "u = nat (t + epoch_day * day_ns)"
  define day where "day = u div nat day_ns"
  define n where "n = u mod nat day_ns"
  define sec where "sec = n div 1000000000"
  define ns where "ns = n mod 1000000000"
  have n: "n < 86400000000000" "n = sec * 1000000000 + ns"
    by (simp_all add: n_def sec_def ns_def day_ns_def)
  have sec: "sec < 86400"
    using n(1) by (simp add: sec_def)
  have u: "t + epoch_day * day_ns = int u" "u = day * 86400000000000 + n"
    using assms(1) by (simp_all add: u_def day_def n_def time_in_range_def day_ns_def)
  have day: "day < 3652425"
  proof -
    have "int u < 3652425 * 86400000000000"
      using assms(1) u(1) by (simp add: time_in_range_def day_ns_def)
    moreover have "int day * 86400000000000 \<le> int u"
      using u(2) by simp
    ultimately have "int day < 3652425" by linarith
    then show ?thesis by linarith
  qed
  obtain y m d where c: "civil_of_day day = (y, m, d)" by (metis prod_cases3)
  note cs = civil_of_day_spec [OF c]
  have y: "y < 10000" using civil_of_day_year [OF c day] .
  have "m - 1 < 12" using cs(2,3) by linarith
  then have d: "d < 100"
    using cs(5) month_len_bound [of "m - 1" y] by linarith
  have tod: "sec div 3600 < 24"
    by (rule less_mult_imp_div_less) (use sec in simp)
  have "sec div 60 mod 60 < 60" "sec mod 60 < 60" by simp_all
  then have tod2: "sec div 3600 mod 100 = sec div 3600"
    "sec div 60 mod 60 mod 100 = sec div 60 mod 60" "sec mod 60 mod 100 = sec mod 60"
    using tod by (auto intro!: mod_less elim: less_trans)
  have split: "sec div 3600 * 3600 + sec div 60 mod 60 * 60 + sec mod 60 = sec"
  proof -
    have "sec div 60 div 60 = sec div 3600" by (simp add: div_mult2_eq [symmetric])
    then show ?thesis
      using div_mult_mod_eq [of sec 60] div_mult_mod_eq [of "sec div 60" 60] by linarith
  qed
  have shape: "fmt_face t @ c # z = fixed_text 4 y @ CHR ''-'' # fixed_text 2 m @ CHR ''-'' #
      fixed_text 2 d @ CHR ''T'' # fixed_text 2 (sec div 3600) @ CHR '':'' #
      fixed_text 2 (sec div 60 mod 60) @ CHR '':'' # fixed_text 2 (sec mod 60) @ (fmt_frac ns @ c # z)"
    by (simp add: fmt_face_def fmt_date_def fmt_seconds_def Let_def c
        u_def [symmetric] day_def [symmetric] n_def [symmetric] sec_def [symmetric] ns_def [symmetric])
  have ns: "ns < 1000000000" by (simp add: ns_def)
  have total: "(int day - epoch_day) * day_ns + (int sec - off) * second + int ns = t - off * second"
    using u n(2) by (simp add: day_ns_def epoch_day_def)
  show ?thesis
    unfolding shape parse_rfc3339_def
    using parse_frac_fmt [OF ns z(2,3)] z(1) cs y d tod tod2 split total
    by (simp add: Let_def)
qed

lemma parse_fmt_rfc3339nano: "time_in_range t \<Longrightarrow> parse_rfc3339 (fmt_rfc3339nano t) = Some t"
  using parse_fmt_face [of t "CHR ''Z''" "[]" 0] by (simp add: fmt_rfc3339nano_def is_digit_def)

section \<open>Times with a zone\<close>

text \<open>
  A time as read from a document keeps the offset it was written with, in seconds, and is
  written with it again.
\<close>

type_synonym zoned = "go_time \<times> int"

definition zone_text :: "int \<Rightarrow> string" where
  "zone_text off =
     (if off = 0 then ''Z''
      else (if off < 0 then CHR ''-'' else CHR ''+'') #
        fixed_text 2 (nat \<bar>off\<bar> div 3600) @ '':'' @ fixed_text 2 (nat \<bar>off\<bar> div 60 mod 60))"

definition fmt_zoned :: "zoned \<Rightarrow> string" where
  "fmt_zoned z = fmt_face (fst z + snd z * second) @ zone_text (snd z)"

text \<open>The zone follows the 19 bytes of date and time and the fraction.\<close>

definition parse_zoned :: "string \<Rightarrow> zoned option" where
  "parse_zoned s = do {
     t \<leftarrow> parse_rfc3339 s;
     off \<leftarrow> parse_zone (snd (parse_frac (drop 19 s)));
     Some (t, off)
   }"

definition zoned_ok :: "zoned \<Rightarrow> bool" where
  "zoned_ok z \<longleftrightarrow> time_in_range (fst z + snd z * second) \<and> snd z mod 60 = 0 \<and> \<bar>snd z\<bar> < 86400"

lemma zone_text_parse:
  assumes "off mod 60 = 0" and "\<bar>off\<bar> < 86400"
  shows "parse_zone (zone_text off) = Some off"
    and "\<exists>c z. zone_text off = c # z \<and> \<not> is_digit c \<and> c \<noteq> CHR ''.''"
proof -
  define n where "n = nat \<bar>off\<bar>"
  have n: "n < 86400" "n mod 60 = 0" "\<bar>off\<bar> = int n"
    using assms by (auto simp: n_def nat_mod_distrib)
  show "\<exists>c z. zone_text off = c # z \<and> \<not> is_digit c \<and> c \<noteq> CHR ''.''"
    by (auto simp: zone_text_def is_digit_def)
  have h: "n div 3600 < 24" using n(1) by (simp add: less_mult_imp_div_less)
  have split: "int (n div 3600) * 3600 + int (n div 60 mod 60) * 60 = int n"
  proof -
    have "n div 60 div 60 = n div 3600" by (simp add: div_mult2_eq [symmetric])
    then have "n div 3600 * 3600 + n div 60 mod 60 * 60 = n"
      using div_mult_mod_eq [of n 60] div_mult_mod_eq [of "n div 60" 60] n(2) by linarith
    then show ?thesis by linarith
  qed
  have m: "num_field 2 (fixed_text 2 (n div 60 mod 60)) = Some (n div 60 mod 60, [])"
    using num_field_fixed [of 2 "n div 60 mod 60" "[]"]
    by (simp del: num_field_fixed add: mod_less less_trans [OF mod_less_divisor])
  show "parse_zone (zone_text off) = Some off"
    using h split n(3) by (auto simp: parse_zone_def zone_text_def n_def [symmetric] m)
qed

lemma fmt_face_split: "\<exists>d ns. fmt_face t = d @ fmt_frac ns \<and> length d = 19 \<and> ns < 1000000000"
proof -
  let ?u = "nat (t + epoch_day * day_ns)"
  let ?n = "?u mod nat day_ns"
  have "length (fmt_date day) = 10" for day
    by (simp add: fmt_date_def split: prod.split)
  then show ?thesis
    by (intro exI [of _ "fmt_date (?u div nat day_ns) @ ''T'' @ fmt_seconds (?n div 1000000000)"]
        exI [of _ "?n mod 1000000000"]) (simp add: fmt_face_def Let_def fmt_seconds_def)
qed

lemma parse_zoned_fmt:
  assumes "zoned_ok z"
  shows "parse_zoned (fmt_zoned z) = Some z"
proof -
  have z: "time_in_range (fst z + snd z * second)" "parse_zone (zone_text (snd z)) = Some (snd z)"
    using assms zone_text_parse(1) by (simp_all add: zoned_ok_def)
  obtain c r where c: "zone_text (snd z) = c # r" "\<not> is_digit c" "c \<noteq> CHR ''.''"
    using assms zone_text_parse(2) [of "snd z"] by (auto simp: zoned_ok_def)
  obtain d ns where f: "fmt_face (fst z + snd z * second) = d @ fmt_frac ns" "length d = 19"
    "ns < 1000000000" using fmt_face_split by blast
  have "parse_rfc3339 (fmt_zoned z) = Some (fst z)"
    using parse_fmt_face [OF z(1) z(2) [unfolded c(1)] c(2,3)] by (simp add: fmt_zoned_def c(1))
  moreover have "snd (parse_frac (drop 19 (fmt_zoned z))) = zone_text (snd z)"
    using parse_frac_fmt [OF f(3) c(2,3)] f by (simp add: fmt_zoned_def c(1))
  ultimately show ?thesis using z(2) by (simp add: parse_zoned_def)
qed

end
