(* ===== verification/GoBase64.thy ===== *)
theory GoBase64
  imports GoStrings
begin

text \<open>
  \<open>base64.RawURLEncoding\<close>: the URL alphabet without padding, in which random ids, tokens and
  attachment ids are written. As in Go the decoder skips line breaks and ignores unused
  trailing bits.
\<close>

definition b64_char :: "nat \<Rightarrow> char" where
  "b64_char n =
     (if n < 26 then char_of (65 + n)
      else if n < 52 then char_of (71 + n)
      else if n < 62 then char_of (n - 4)
      else if n = 62 then CHR ''-'' else CHR ''_'')"

definition b64_val :: "char \<Rightarrow> nat option" where
  "b64_val c =
     (let n = of_char c :: nat in
      if 65 \<le> n \<and> n \<le> 90 then Some (n - 65)
      else if 97 \<le> n \<and> n \<le> 122 then Some (n - 71)
      else if 48 \<le> n \<and> n \<le> 57 then Some (n + 4)
      else if c = CHR ''-'' then Some 62
      else if c = CHR ''_'' then Some 63 else None)"

fun b64_groups :: "nat list \<Rightarrow> nat list" where
  "b64_groups [] = []"
| "b64_groups [a] = [a div 4, a mod 4 * 16]"
| "b64_groups [a, b] = [a div 4, a mod 4 * 16 + b div 16, b mod 16 * 4]"
| "b64_groups (a # b # c # r) =
     [a div 4, a mod 4 * 16 + b div 16, b mod 16 * 4 + c div 64, c mod 64] @ b64_groups r"

fun b64_ungroup :: "nat list \<Rightarrow> nat list option" where
  "b64_ungroup [] = Some []"
| "b64_ungroup [w] = None"
| "b64_ungroup [w, x] = Some [w * 4 + x div 16]"
| "b64_ungroup [w, x, y] = Some [w * 4 + x div 16, x mod 16 * 16 + y div 4]"
| "b64_ungroup (w # x # y # z # r) =
     map_option ((@) [w * 4 + x div 16, x mod 16 * 16 + y div 4, y mod 4 * 64 + z]) (b64_ungroup r)"

definition b64_encode :: "string \<Rightarrow> string" where
  "b64_encode s = map b64_char (b64_groups (map of_char s))"

text \<open>All the values of a list of options, or \<open>None\<close>.\<close>

fun all_some :: "'a option list \<Rightarrow> 'a list option" where
  "all_some [] = Some []"
| "all_some (x # xs) = (case x of None \<Rightarrow> None | Some a \<Rightarrow> map_option (Cons a) (all_some xs))"

definition b64_decode :: "string \<Rightarrow> string option" where
  "b64_decode s =
     (case all_some (map b64_val (filter (\<lambda>c. c \<noteq> CHR 0x0A \<and> c \<noteq> CHR 0x0D) s)) of
        None \<Rightarrow> None
      | Some vs \<Rightarrow> map_option (map char_of) (b64_ungroup vs))"

text \<open>The alphabet has no separator, whitespace or quote.\<close>

definition b64_alphabet :: "char \<Rightarrow> bool" where
  "b64_alphabet c \<longleftrightarrow> b64_val c \<noteq> None"

lemma b64_val_char [simp]: "n < 64 \<Longrightarrow> b64_val (b64_char n) = Some n"
  by (auto simp: b64_val_def b64_char_def Let_def)

lemma b64_groups_bound: "\<forall>a \<in> set s. a < 256 \<Longrightarrow> \<forall>n \<in> set (b64_groups s). n < 64"
proof (induction s rule: b64_groups.induct)
  case (4 a b c r)
  have "x div 4 < 64" "x div 16 < 16" "x div 64 < 4" if "x < 256" for x :: nat
    using that by (simp_all add: less_mult_imp_div_less)
  moreover have "x mod 4 < 4" "x mod 16 < 16" for x :: nat by simp_all
  ultimately have "a div 4 < 64" "b div 16 < 16" "c div 64 < 4" "a mod 4 < 4" "b mod 16 < 16"
    using 4 by simp_all
  with 4 show ?case by auto
next
  case (2 a)
  have "a mod 4 < 4" by simp
  moreover have "a div 4 < 64" using 2 by (simp add: less_mult_imp_div_less)
  ultimately show ?case by auto
next
  case (3 a b)
  have "a mod 4 < 4" "b mod 16 < 16" by simp_all
  moreover have "a div 4 < 64" "b div 16 < 16" using 3 by (simp_all add: less_mult_imp_div_less)
  ultimately show ?case by auto
qed simp

lemma b64_ungroup_groups: "\<forall>a \<in> set s. a < 256 \<Longrightarrow> b64_ungroup (b64_groups s) = Some s"
proof (induction s rule: b64_groups.induct)
  case (4 a b c r)
  have "b div 16 < 16" "c div 64 < 4"
    using 4 by (simp_all add: less_mult_imp_div_less)
  with 4 show ?case by simp
next
  case (3 a b)
  have "b div 16 < 16" using 3 by (simp add: less_mult_imp_div_less)
  then show ?case by simp
qed simp_all

lemma all_some_Some [simp]: "all_some (map Some xs) = Some xs"
  by (induction xs) auto

lemma b64_alphabet_graphic: "b64_alphabet c \<Longrightarrow> graphic c \<and> c \<noteq> CHR ''.''"
  by (auto simp: b64_alphabet_def b64_val_def graphic_def Let_def split: if_splits)

lemma b64_encode_alphabet: "list_all b64_alphabet (b64_encode s)"
proof -
  have "\<forall>n \<in> set (b64_groups (map of_char s)). n < 64"
    by (rule b64_groups_bound) auto
  then show ?thesis by (auto simp: b64_encode_def list_all_iff b64_alphabet_def)
qed

lemma b64_decode_encode [simp]: "b64_decode (b64_encode s) = Some s"
proof -
  have 64: "\<forall>n \<in> set (b64_groups (map of_char s)). n < 64"
    by (rule b64_groups_bound) auto
  have "filter (\<lambda>c. c \<noteq> CHR 0x0A \<and> c \<noteq> CHR 0x0D) (b64_encode s) = b64_encode s"
    using b64_encode_alphabet [of s]
    by (auto simp: list_all_iff b64_alphabet_def b64_val_def Let_def intro!: filter_True)
  moreover have "map b64_val (b64_encode s) = map Some (b64_groups (map of_char s))"
    using 64 by (auto simp: b64_encode_def)
  moreover have "b64_ungroup (b64_groups (map of_char s)) = Some (map of_char s)"
    by (rule b64_ungroup_groups) auto
  ultimately show ?thesis
    by (simp add: b64_decode_def o_def map_idI)
qed

lemma b64_encode_graphic: "list_all graphic (b64_encode s)"
  using b64_encode_alphabet [of s] b64_alphabet_graphic by (auto simp: list_all_iff)

lemma b64_encode_no_dot: "CHR ''.'' \<notin> set (b64_encode s)"
  using b64_encode_alphabet [of s] b64_alphabet_graphic by (auto simp: list_all_iff)

lemma b64_groups_Nil_iff [simp]: "b64_groups s = [] \<longleftrightarrow> s = []"
  by (cases s rule: b64_groups.cases) auto

lemma b64_encode_Nil_iff [simp]: "b64_encode s = [] \<longleftrightarrow> s = []"
  by (simp add: b64_encode_def)

lemma b64_encode_inject: "b64_encode s = b64_encode t \<longleftrightarrow> s = t"
  by (metis b64_decode_encode option.inject)

end
