(* ===== verification/GoUnmarshal.thy ===== *)
theory GoUnmarshal
  imports GoJson GoTime GoBase64
begin

text \<open>
  How \<open>json.Unmarshal\<close> fills a struct: members in the order of the document, each assigned to
  the field whose tag it matches (exactly, else ignoring case), unknown members skipped,
  \<open>null\<close> leaving a scalar unchanged and clearing a slice, a value of the wrong type an error.
  A struct type is the list of its fields' tags with their setters.
\<close>

section \<open>Structs\<close>

type_synonym 'r field = "string \<times> (json \<Rightarrow> 'r \<Rightarrow> 'r option)"

definition find_field :: "'r field list \<Rightarrow> string \<Rightarrow> (json \<Rightarrow> 'r \<Rightarrow> 'r option) option" where
  "find_field flds key =
     (case map_of flds key of
        Some setter \<Rightarrow> Some setter
      | None \<Rightarrow> map_option snd (find (\<lambda>(tag, _). equal_fold key tag) flds))"

fun set_members :: "'r field list \<Rightarrow> (string \<times> json) list \<Rightarrow> 'r \<Rightarrow> 'r option" where
  "set_members flds [] r = Some r"
| "set_members flds ((key, v) # ms) r =
     (case find_field flds key of
        None \<Rightarrow> set_members flds ms r
      | Some setter \<Rightarrow> Option.bind (setter v r) (set_members flds ms))"

definition unmarshal_struct :: "'r field list \<Rightarrow> json \<Rightarrow> 'r \<Rightarrow> 'r option" where
  "unmarshal_struct flds j r =
     (case j of JNull \<Rightarrow> Some r | JObj ms \<Rightarrow> set_members flds ms r | _ \<Rightarrow> None)"

section \<open>Setters by field type\<close>

definition string_field :: "((string \<Rightarrow> string) \<Rightarrow> 'r \<Rightarrow> 'r) \<Rightarrow> json \<Rightarrow> 'r \<Rightarrow> 'r option" where
  "string_field upd j r =
     (case j of JNull \<Rightarrow> Some r | JStr s \<Rightarrow> Some (upd (\<lambda>_. s) r) | _ \<Rightarrow> None)"

definition bool_field :: "((bool \<Rightarrow> bool) \<Rightarrow> 'r \<Rightarrow> 'r) \<Rightarrow> json \<Rightarrow> 'r \<Rightarrow> 'r option" where
  "bool_field upd j r =
     (case j of JNull \<Rightarrow> Some r | JBool b \<Rightarrow> Some (upd (\<lambda>_. b) r) | _ \<Rightarrow> None)"

definition int64_field :: "((int64 \<Rightarrow> int64) \<Rightarrow> 'r \<Rightarrow> 'r) \<Rightarrow> json \<Rightarrow> 'r \<Rightarrow> 'r option" where
  "int64_field upd j r =
     (case j of JNull \<Rightarrow> Some r
      | JInt i \<Rightarrow> if in_int64 i then Some (upd (\<lambda>_. word_of_int i) r) else None
      | _ \<Rightarrow> None)"

definition time_field :: "((go_time \<Rightarrow> go_time) \<Rightarrow> 'r \<Rightarrow> 'r) \<Rightarrow> json \<Rightarrow> 'r \<Rightarrow> 'r option" where
  "time_field upd j r =
     (case j of JNull \<Rightarrow> Some r
      | JStr s \<Rightarrow> map_option (\<lambda>t. upd (\<lambda>_. t) r) (parse_rfc3339 s)
      | _ \<Rightarrow> None)"

definition slice_field ::
  "(json \<Rightarrow> 'a option) \<Rightarrow> (('a list \<Rightarrow> 'a list) \<Rightarrow> 'r \<Rightarrow> 'r) \<Rightarrow> json \<Rightarrow> 'r \<Rightarrow> 'r option" where
  "slice_field elem upd j r =
     (case j of JNull \<Rightarrow> Some (upd (\<lambda>_. []) r)
      | JArr xs \<Rightarrow> map_option (\<lambda>ys. upd (\<lambda>_. ys) r) (all_some (map elem xs))
      | _ \<Rightarrow> None)"

definition string_elem :: "json \<Rightarrow> string option" where
  "string_elem j = (case j of JNull \<Rightarrow> Some [] | JStr s \<Rightarrow> Some s | _ \<Rightarrow> None)"

lemmas field_defs =
  string_field_def bool_field_def int64_field_def time_field_def slice_field_def string_elem_def

section \<open>What Marshal writes for the field types\<close>

text \<open>
  A nil slice is \<open>null\<close>. The model does not tell a nil slice from an empty one, which read
  back the same.
\<close>

definition slice_json :: "('a \<Rightarrow> json) \<Rightarrow> 'a list \<Rightarrow> json" where
  "slice_json elem xs = (if xs = [] then JNull else JArr (map elem xs))"

definition time_json :: "go_time \<Rightarrow> json" where
  "time_json t = JStr (fmt_rfc3339nano t)"

definition int64_json :: "int64 \<Rightarrow> json" where
  "int64_json x = JInt (sint x)"

text \<open>A member under \<open>omitempty\<close>.\<close>

definition omit_empty :: "bool \<Rightarrow> string \<Rightarrow> json \<Rightarrow> (string \<times> json) list" where
  "omit_empty is_empty key v = (if is_empty then [] else [(key, v)])"

section \<open>Facts\<close>

named_theorems unmarshal_simps \<open>reading back what was written, member by member\<close>

lemma find_field_exact: "map_of flds key = Some setter \<Longrightarrow> find_field flds key = Some setter"
  by (simp add: find_field_def)

lemma unmarshal_struct_JObj [unmarshal_simps]:
  "unmarshal_struct flds (JObj ms) r = set_members flds ms r"
  by (simp add: unmarshal_struct_def)

lemma set_members_append [unmarshal_simps]:
  "set_members flds (ms @ ms') r = Option.bind (set_members flds ms r) (set_members flds ms')"
proof (induction ms arbitrary: r)
  case (Cons m ms)
  obtain key v where m: "m = (key, v)" by (cases m)
  show ?case
  proof (cases "find_field flds key")
    case (Some setter)
    then show ?thesis using Cons m by (cases "setter v r") simp_all
  qed (use Cons m in simp)
qed simp

lemma set_members_omit [unmarshal_simps]:
  "set_members flds (omit_empty is_empty key v) r =
     (if is_empty then Some r else set_members flds [(key, v)] r)"
  by (simp add: omit_empty_def)

lemma string_field_JStr [unmarshal_simps]: "string_field upd (JStr s) r = Some (upd (\<lambda>_. s) r)"
  by (simp add: string_field_def)

lemma bool_field_JBool [unmarshal_simps]: "bool_field upd (JBool b) r = Some (upd (\<lambda>_. b) r)"
  by (simp add: bool_field_def)

lemma int64_field_json [unmarshal_simps]: "int64_field upd (int64_json x) r = Some (upd (\<lambda>_. x) r)"
  by (simp add: int64_field_def int64_json_def)

lemma time_field_json [unmarshal_simps]:
  "time_in_range t \<Longrightarrow> time_field upd (time_json t) r = Some (upd (\<lambda>_. t) r)"
  by (simp add: time_field_def time_json_def parse_fmt_rfc3339nano)

lemma all_some_map: "(\<And>x. x \<in> set xs \<Longrightarrow> f (g x) = Some x) \<Longrightarrow> all_some (map f (map g xs)) = Some xs"
  by (induction xs) auto

lemma slice_field_json [unmarshal_simps]:
  "(\<And>x. x \<in> set xs \<Longrightarrow> dec (enc x) = Some x) \<Longrightarrow>
     slice_field dec upd (slice_json enc xs) r = Some (upd (\<lambda>_. xs) r)"
  using all_some_map [of xs dec enc] by (auto simp: slice_field_def slice_json_def)

lemma string_elem_JStr [unmarshal_simps]: "string_elem (JStr s) = Some s"
  by (simp add: string_elem_def)

lemma writable_slice_json [simp]:
  "(\<And>x. x \<in> set xs \<Longrightarrow> writable (enc x)) \<Longrightarrow> writable (slice_json enc xs)"
  by (auto simp: slice_json_def list_all_iff)

lemma writable_leaves [simp]: "writable (time_json t)" "writable (int64_json x)"
  by (simp_all add: time_json_def int64_json_def)

lemma list_all_omit_empty [simp]:
  "list_all P (omit_empty is_empty key v) \<longleftrightarrow> (\<not> is_empty \<longrightarrow> P (key, v))"
  by (simp add: omit_empty_def)

end
