(* ===== verification/GoPath.thy ===== *)
theory GoPath
  imports GoStrings
begin

text \<open>
  The functions of \<open>path/filepath\<close> on slash-separated paths and \<open>strings.Fields\<close>.
\<close>

section \<open>Paths\<close>

definition slash :: char where "slash = CHR ''/''"

definition strip_trailing_slashes :: "string \<Rightarrow> string" where
  "strip_trailing_slashes p = rev (dropWhile (\<lambda>c. c = slash) (rev p))"

text \<open>\<open>filepath.Base\<close>: the last element, \<open>.\<close> of the empty path, \<open>/\<close> of the root.\<close>

definition base_name :: "string \<Rightarrow> string" where
  "base_name p =
     (if p = [] then ''.''
      else
        let q = strip_trailing_slashes p;
            b = rev (takeWhile (\<lambda>c. c \<noteq> slash) (rev q))
        in if b = [] then [slash] else b)"

text \<open>\<open>filepath.Ext\<close>: from the last dot of the last element on.\<close>

definition path_ext :: "string \<Rightarrow> string" where
  "path_ext p =
     (let r = rev (takeWhile (\<lambda>c. c \<noteq> slash) (rev p)) in
      if CHR ''.'' \<in> set r then CHR ''.'' # rev (takeWhile (\<lambda>c. c \<noteq> CHR ''.'') (rev r)) else [])"

text \<open>The elements of a path between its slashes.\<close>

fun split_slash :: "string \<Rightarrow> string \<Rightarrow> string list" where
  "split_slash word [] = [word]"
| "split_slash word (c # s) = (if c = slash then word # split_slash [] s else split_slash (word @ [c]) s)"

text \<open>
  \<open>filepath.Clean\<close>, one element after the other onto a stack (its top first): \<open>..\<close> takes an
  element back, at the root it is dropped and before any other element it stays.
\<close>

definition clean_push :: "bool \<Rightarrow> string list \<Rightarrow> string \<Rightarrow> string list" where
  "clean_push rooted stack x =
     (if x = [] \<or> x = ''.'' then stack
      else if x = ''..'' then
        (case stack of
           [] \<Rightarrow> if rooted then [] else [x]
         | y # ys \<Rightarrow> if y = ''..'' then x # stack else ys)
      else x # stack)"

definition clean_path :: "string \<Rightarrow> string" where
  "clean_path p =
     (let rooted = prefix [slash] p;
          body = join_with [slash] (rev (foldl (clean_push rooted) [] (split_slash [] p)))
      in if rooted then slash # body else if body = [] then ''.'' else body)"

text \<open>\<open>filepath.Join\<close> and \<open>filepath.Dir\<close>.\<close>

definition path_join :: "string list \<Rightarrow> string" where
  "path_join xs =
     (case filter (\<lambda>x. x \<noteq> []) xs of [] \<Rightarrow> [] | y # ys \<Rightarrow> clean_path (join_with [slash] (y # ys)))"

definition dir_name :: "string \<Rightarrow> string" where
  "dir_name p = clean_path (rev (dropWhile (\<lambda>c. c \<noteq> slash) (rev p)))"

lemma base_name_no_slash: "base_name p = [slash] \<or> slash \<notin> set (base_name p)"
  by (auto simp: base_name_def Let_def dest: set_takeWhileD)

lemma base_name_not_Nil [simp]: "base_name p \<noteq> []"
  by (simp add: base_name_def Let_def)

lemma takeWhile_all: "x \<notin> set s \<Longrightarrow> takeWhile (\<lambda>c. c \<noteq> x) s = s"
  by (induction s) auto

lemma dropWhile_none: "x \<notin> set s \<Longrightarrow> dropWhile (\<lambda>c. c = x) s = s"
  by (cases s) auto

lemma base_name_plain: "p \<noteq> [] \<Longrightarrow> slash \<notin> set p \<Longrightarrow> base_name p = p"
  by (simp add: base_name_def strip_trailing_slashes_def dropWhile_none takeWhile_all)

lemma base_name_idem [simp]: "base_name (base_name p) = base_name p"
proof (cases "base_name p = [slash]")
  case True
  then show ?thesis by (simp add: base_name_def strip_trailing_slashes_def)
next
  case False
  then show ?thesis using base_name_no_slash [of p] by (intro base_name_plain) auto
qed

section \<open>Fields\<close>

text \<open>\<open>strings.Fields\<close>: the maximal runs without whitespace; \<open>word\<close> is the run being read.\<close>

fun fields_loop :: "string \<Rightarrow> string \<Rightarrow> string list" where
  "fields_loop word [] = (if word = [] then [] else [word])"
| "fields_loop word (c # s) =
     (case find (\<lambda>r. r \<noteq> [] \<and> prefix r (c # s)) space_runes of
        None \<Rightarrow> fields_loop (word @ [c]) s
      | Some r \<Rightarrow>
          (if word = [] then [] else [word]) @ fields_loop [] (drop (length r - 1) s))"

definition split_fields :: "string \<Rightarrow> string list" where
  "split_fields s = fields_loop [] s"

lemma fields_not_Nil: "w \<in> set (fields_loop word s) \<Longrightarrow> w \<noteq> []"
  by (induction word s rule: fields_loop.induct) (auto split: option.splits if_splits)

end
