(* ===== verification/Imsg.thy ===== *)
theory Imsg
  imports GoUnmarshal GoPath
begin

text \<open>
  The \<open>imsg\<close> command line tool as the daemon drives it (\<open>internal/imsg/types.go\<close> and
  \<open>runner.go\<close>): the records it prints, their JSON form in both directions, the choice of the
  binary, the argument lists of the calls, and the reading of its output. Running a process is
  a parameter: a function from the binary and its arguments to the outcome. A time keeps the
  zone offset it was read with.
\<close>

section \<open>Records\<close>

record chat =
  ch_id :: int64
  ch_name :: string
  ch_identifier :: string
  ch_service :: string
  ch_last_message_at :: "zoned option"

record attachment =
  at_id :: string
  at_filename :: string
  at_mime_type :: string
  at_size_bytes :: int64
  at_path :: string

record reaction =
  re_id :: int64
  re_sender :: string
  re_type :: string
  re_emoji :: string
  re_is_from_me :: bool
  re_created_at :: "zoned option"

record message =
  ms_id :: int64
  ms_chat_id :: int64
  ms_guid :: string
  ms_sender :: string
  ms_text :: string
  ms_is_from_me :: bool
  ms_created_at :: "zoned option"
  ms_attachments :: "attachment list"
  ms_reactions :: "reaction list"
  ms_reply_to_guid :: string
  ms_destination_caller_id :: string

record list_messages_options =
  lo_limit :: int
  lo_before :: "zoned option"
  lo_after :: "zoned option"
  lo_attachments :: bool

record send_message_request =
  smr_to :: string
  smr_text :: string
  smr_service :: string

record send_attachment_request =
  sar_to :: string
  sar_text :: string
  sar_file_path :: string
  sar_service :: string

record send_message_result =
  smx_status :: string
  smx_to :: string
  smx_service :: string

record send_attachment_result =
  sax_status :: string
  sax_to :: string
  sax_service :: string
  sax_attachment :: attachment

definition zero_chat :: chat where
  "zero_chat = \<lparr>ch_id = 0, ch_name = [], ch_identifier = [], ch_service = [], ch_last_message_at = None\<rparr>"

definition zero_attachment :: attachment where
  "zero_attachment = \<lparr>at_id = [], at_filename = [], at_mime_type = [], at_size_bytes = 0, at_path = []\<rparr>"

definition zero_reaction :: reaction where
  "zero_reaction = \<lparr>re_id = 0, re_sender = [], re_type = [], re_emoji = [], re_is_from_me = False,
     re_created_at = None\<rparr>"

definition zero_message :: message where
  "zero_message = \<lparr>ms_id = 0, ms_chat_id = 0, ms_guid = [], ms_sender = [], ms_text = [],
     ms_is_from_me = False, ms_created_at = None, ms_attachments = [], ms_reactions = [],
     ms_reply_to_guid = [], ms_destination_caller_id = []\<rparr>"

definition zero_message_result :: send_message_result where
  "zero_message_result = \<lparr>smx_status = [], smx_to = [], smx_service = []\<rparr>"

definition zero_attachment_result :: send_attachment_result where
  "zero_attachment_result = \<lparr>sax_status = [], sax_to = [], sax_service = [], sax_attachment = zero_attachment\<rparr>"

section \<open>Reading them\<close>

text \<open>A \<open>*time.Time\<close> field.\<close>

definition zoned_field :: "((zoned option \<Rightarrow> zoned option) \<Rightarrow> 'r \<Rightarrow> 'r) \<Rightarrow> json \<Rightarrow> 'r \<Rightarrow> 'r option" where
  "zoned_field upd j r =
     (case j of JNull \<Rightarrow> Some (upd (\<lambda>_. None) r)
      | JStr s \<Rightarrow> map_option (\<lambda>z. upd (\<lambda>_. Some z) r) (parse_zoned s)
      | _ \<Rightarrow> None)"

definition chat_fields :: "chat field list" where
  "chat_fields =
     [(''id'', int64_field ch_id_update), (''name'', string_field ch_name_update),
      (''identifier'', string_field ch_identifier_update), (''service'', string_field ch_service_update),
      (''last_message_at'', zoned_field ch_last_message_at_update)]"

text \<open>The members an attachment is read from under other names, keyed exactly.\<close>

type_synonym members = "string \<Rightarrow> json option"

fun first_attachment_string :: "members \<Rightarrow> string list \<Rightarrow> string" where
  "first_attachment_string extra [] = []"
| "first_attachment_string extra (key # keys) =
     (case Option.bind (extra key) string_elem of
        None \<Rightarrow> first_attachment_string extra keys
      | Some v \<Rightarrow>
          if trim_space v \<noteq> [] then trim_space v else first_attachment_string extra keys)"

text \<open>One member as a positive integer: a number, else a text that is one.\<close>

definition positive_int64 :: "json \<Rightarrow> int option" where
  "positive_int64 j =
     (case j of
        JInt i \<Rightarrow> if in_int64 i \<and> i > 0 then Some i else None
      | JStr s \<Rightarrow>
          (case parse_int64 (trim_space s) of
             Some i \<Rightarrow> if i > 0 then Some i else None
           | None \<Rightarrow> None)
      | _ \<Rightarrow> None)"

fun first_attachment_int64 :: "members \<Rightarrow> string list \<Rightarrow> int64" where
  "first_attachment_int64 extra [] = 0"
| "first_attachment_int64 extra (key # keys) =
     (case Option.bind (extra key) positive_int64 of
        None \<Rightarrow> first_attachment_int64 extra keys
      | Some i \<Rightarrow> word_of_int i)"

definition attachment_body_fields :: "attachment field list" where
  "attachment_body_fields =
     [(''id'', string_field at_id_update), (''filename'', string_field at_filename_update),
      (''mime_type'', string_field at_mime_type_update),
      (''size_bytes'', int64_field at_size_bytes_update)]"

definition members_of :: "json \<Rightarrow> members" where
  "members_of j = (case j of JObj ms \<Rightarrow> map_of (rev ms) | _ \<Rightarrow> Map.empty)"

text \<open>
  \<open>Attachment.UnmarshalJSON\<close>, which also \<open>null\<close> is handed to: the trimmed fields, then one
  fallback after the other.
\<close>

definition trimmed_attachment :: "members \<Rightarrow> attachment \<Rightarrow> attachment" where
  "trimmed_attachment extra body =
     \<lparr>at_id = trim_space (at_id body), at_filename = trim_space (at_filename body),
      at_mime_type = trim_space (at_mime_type body), at_size_bytes = at_size_bytes body,
      at_path = first_attachment_string extra [''path'', ''file'', ''file_path'', ''filePath'']\<rparr>"

definition fill_filename :: "members \<Rightarrow> attachment \<Rightarrow> attachment" where
  "fill_filename extra a =
     (if at_filename a = []
      then a\<lparr>at_filename := first_attachment_string extra [''transfer_name'', ''transferName'', ''name'']\<rparr>
      else a)"

definition fill_mime_type :: "members \<Rightarrow> attachment \<Rightarrow> attachment" where
  "fill_mime_type extra a =
     (if at_mime_type a = [] then a\<lparr>at_mime_type := first_attachment_string extra [''mimeType'']\<rparr> else a)"

definition fill_size_bytes :: "members \<Rightarrow> attachment \<Rightarrow> attachment" where
  "fill_size_bytes extra a =
     (if at_size_bytes a = 0
      then a\<lparr>at_size_bytes := first_attachment_int64 extra [''sizeBytes'', ''bytes'']\<rparr> else a)"

definition path_from_filename :: "attachment \<Rightarrow> attachment" where
  "path_from_filename a =
     (if at_path a = [] \<and> slash \<in> set (at_filename a)
      then a\<lparr>at_path := at_filename a, at_filename := base_name (at_filename a)\<rparr> else a)"

definition filename_from_path :: "attachment \<Rightarrow> attachment" where
  "filename_from_path a =
     (if at_filename a = [] \<and> at_path a \<noteq> [] then a\<lparr>at_filename := base_name (at_path a)\<rparr> else a)"

definition unmarshal_attachment :: "json \<Rightarrow> attachment option" where
  "unmarshal_attachment j =
     (case unmarshal_struct attachment_body_fields j zero_attachment of
        None \<Rightarrow> None
      | Some body \<Rightarrow>
          let extra = members_of j in
          Some (filename_from_path (path_from_filename (fill_size_bytes extra (fill_mime_type extra
            (fill_filename extra (trimmed_attachment extra body)))))))"

lemmas attachment_steps = trimmed_attachment_def fill_filename_def fill_mime_type_def
  fill_size_bytes_def path_from_filename_def filename_from_path_def

definition reaction_fields :: "reaction field list" where
  "reaction_fields =
     [(''id'', int64_field re_id_update), (''sender'', string_field re_sender_update),
      (''type'', string_field re_type_update), (''emoji'', string_field re_emoji_update),
      (''is_from_me'', bool_field re_is_from_me_update),
      (''created_at'', zoned_field re_created_at_update)]"

definition message_fields :: "message field list" where
  "message_fields =
     [(''id'', int64_field ms_id_update), (''chat_id'', int64_field ms_chat_id_update),
      (''guid'', string_field ms_guid_update), (''sender'', string_field ms_sender_update),
      (''text'', string_field ms_text_update), (''is_from_me'', bool_field ms_is_from_me_update),
      (''created_at'', zoned_field ms_created_at_update),
      (''attachments'', slice_field unmarshal_attachment ms_attachments_update),
      (''reactions'',
        slice_field (\<lambda>j. unmarshal_struct reaction_fields j zero_reaction) ms_reactions_update),
      (''reply_to_guid'', string_field ms_reply_to_guid_update),
      (''destination_caller_id'', string_field ms_destination_caller_id_update)]"

definition message_result_fields :: "send_message_result field list" where
  "message_result_fields =
     [(''status'', string_field smx_status_update), (''to'', string_field smx_to_update),
      (''service'', string_field smx_service_update)]"

definition attachment_result_fields :: "send_attachment_result field list" where
  "attachment_result_fields =
     [(''status'', string_field sax_status_update), (''to'', string_field sax_to_update),
      (''service'', string_field sax_service_update),
      (''attachment'', \<lambda>j r. map_option (\<lambda>a. r\<lparr>sax_attachment := a\<rparr>) (unmarshal_attachment j))]"

section \<open>Writing them\<close>

definition zoned_json :: "string \<Rightarrow> zoned option \<Rightarrow> (string \<times> json) list" where
  "zoned_json key z = (case z of None \<Rightarrow> [] | Some t \<Rightarrow> [(key, JStr (fmt_zoned t))])"

abbreviation omit_string :: "string \<Rightarrow> string \<Rightarrow> (string \<times> json) list" where
  "omit_string key s \<equiv> omit_empty (s = []) key (JStr s)"

definition chat_json :: "chat \<Rightarrow> json" where
  "chat_json c = JObj
     ([(''id'', int64_json (ch_id c))] @ omit_string ''name'' (ch_name c) @
      omit_string ''identifier'' (ch_identifier c) @ omit_string ''service'' (ch_service c) @
      zoned_json ''last_message_at'' (ch_last_message_at c))"

definition attachment_json :: "attachment \<Rightarrow> json" where
  "attachment_json a = JObj
     (omit_string ''id'' (at_id a) @ omit_string ''filename'' (at_filename a) @
      omit_string ''mime_type'' (at_mime_type a) @
      omit_empty (at_size_bytes a = 0) ''size_bytes'' (int64_json (at_size_bytes a)))"

definition reaction_json :: "reaction \<Rightarrow> json" where
  "reaction_json r = JObj
     ([(''id'', int64_json (re_id r))] @ omit_string ''sender'' (re_sender r) @
      omit_string ''type'' (re_type r) @ omit_string ''emoji'' (re_emoji r) @
      [(''is_from_me'', JBool (re_is_from_me r))] @ zoned_json ''created_at'' (re_created_at r))"

definition message_members :: "message \<Rightarrow> (string \<times> json) list" where
  "message_members m =
     [(''id'', int64_json (ms_id m)), (''chat_id'', int64_json (ms_chat_id m))] @
     omit_string ''guid'' (ms_guid m) @ omit_string ''sender'' (ms_sender m) @
     omit_string ''text'' (ms_text m) @ [(''is_from_me'', JBool (ms_is_from_me m))] @
     zoned_json ''created_at'' (ms_created_at m) @
     omit_empty (ms_attachments m = []) ''attachments'' (slice_json attachment_json (ms_attachments m)) @
     omit_empty (ms_reactions m = []) ''reactions'' (slice_json reaction_json (ms_reactions m)) @
     omit_string ''reply_to_guid'' (ms_reply_to_guid m) @
     omit_string ''destination_caller_id'' (ms_destination_caller_id m)"

definition message_json :: "message \<Rightarrow> json" where
  "message_json m = JObj (message_members m)"

definition message_result_json :: "send_message_result \<Rightarrow> json" where
  "message_result_json x = JObj
     [(''status'', JStr (smx_status x)), (''to'', JStr (smx_to x)), (''service'', JStr (smx_service x))]"

definition attachment_result_json :: "send_attachment_result \<Rightarrow> json" where
  "attachment_result_json x = JObj
     [(''status'', JStr (sax_status x)), (''to'', JStr (sax_to x)), (''service'', JStr (sax_service x)),
      (''attachment'', attachment_json (sax_attachment x))]"

section \<open>The binary\<close>

text \<open>
  What the process reads of its surroundings: the environment (a variable that is not set is
  empty), the working directory, its own path, and \<open>os.Stat\<close> as directory flag and mode.
\<close>

record proc_env =
  pe_getenv :: "string \<Rightarrow> string"
  pe_getwd :: "string option"
  pe_executable :: "string option"
  pe_stat :: "string \<Rightarrow> (bool \<times> 32 word) option"

definition default_binary_candidates :: "proc_env \<Rightarrow> string list" where
  "default_binary_candidates pe =
     (case pe_getwd pe of None \<Rightarrow> []
      | Some cwd \<Rightarrow> [path_join [cwd, ''..'', ''imsg'', ''bin'', ''imsg'']]) @
     (case pe_executable pe of None \<Rightarrow> []
      | Some exe \<Rightarrow>
          [path_join [dir_name exe, ''..'', ''imsg'', ''bin'', ''imsg''],
           path_join [dir_name exe, ''..'', ''..'', ''imsg'', ''bin'', ''imsg'']])"

definition is_executable_file :: "proc_env \<Rightarrow> string \<Rightarrow> bool" where
  "is_executable_file pe path =
     (case pe_stat pe path of None \<Rightarrow> False
      | Some (is_dir, mode) \<Rightarrow> \<not> is_dir \<and> and mode 0x49 \<noteq> 0)"

definition resolve_binary :: "proc_env \<Rightarrow> string \<Rightarrow> string" where
  "resolve_binary pe binary =
     (if trim_space binary \<noteq> [] then trim_space binary
      else if trim_space (pe_getenv pe ''CHATBUBBLES_IMSG_BIN'') \<noteq> []
      then trim_space (pe_getenv pe ''CHATBUBBLES_IMSG_BIN'')
      else
        (case find (is_executable_file pe) (default_binary_candidates pe) of
           Some candidate \<Rightarrow> candidate
         | None \<Rightarrow> ''imsg''))"

record runner =
  rn_binary :: string

definition new_runner :: "proc_env \<Rightarrow> string \<Rightarrow> runner" where
  "new_runner pe binary = \<lparr>rn_binary = resolve_binary pe binary\<rparr>"

section \<open>Running it\<close>

text \<open>
  The end of a process: its standard output, or standard error and the error, which is
  \<open>exec.ErrNotFound\<close> or another.
\<close>

datatype exec_outcome =
    ExecOk string
  | ExecNotFound string string
  | ExecFailed string string

type_synonym exec = "string \<Rightarrow> string list \<Rightarrow> exec_outcome"

definition failure_message :: "string \<Rightarrow> string \<Rightarrow> string" where
  "failure_message stderr err = (if trim_space stderr = [] then err else trim_space stderr)"

definition run :: "exec \<Rightarrow> runner \<Rightarrow> string list \<Rightarrow> string res" where
  "run exec r args =
     (case exec (rn_binary r) args of
        ExecOk out \<Rightarrow> Inr out
      | ExecNotFound stderr err \<Rightarrow> Inl (ErrUnavailable (failure_message stderr err))
      | ExecFailed stderr err \<Rightarrow>
          Inl (ErrMsg (''imsg '' @ join_with '' '' args @ '' failed: '' @ failure_message stderr err)))"

text \<open>\<open>decodeLines\<close>: one document after the other until nothing but whitespace is left.\<close>

function decode_lines :: "(json \<Rightarrow> 'a option) \<Rightarrow> string \<Rightarrow> 'a list \<Rightarrow> 'a list res" where
  "decode_lines item raw dst =
     (if skip_ws raw = [] then Inr dst
      else
        (case decode_first raw of
           None \<Rightarrow> Inl (ErrMsg ''invalid json'')
         | Some (j, rest) \<Rightarrow>
             (case item j of
                None \<Rightarrow> Inl (ErrMsg ''invalid json'')
              | Some x \<Rightarrow> decode_lines item rest (dst @ [x]))))"
  by pat_completeness auto
termination
  by (relation "measure (\<lambda>(item, raw, dst). length raw)") (auto dest: decode_first_shrink)

declare decode_lines.simps [simp del]

definition version :: "exec \<Rightarrow> runner \<Rightarrow> string res" where
  "version exec r =
     (case run exec r [''--help''] of
        Inl e \<Rightarrow> Inl e
      | Inr out \<Rightarrow>
          let line = (case cut_at (CHR 0x0A) (trim_space out) of
                        None \<Rightarrow> trim_space out | Some (before, after) \<Rightarrow> before) in
          (case split_fields line of
             _ # v # _ \<Rightarrow> Inr v
           | _ \<Rightarrow> Inl (ErrMsg (''unexpected imsg version output: '' @ quote_string line))))"

definition list_chats :: "exec \<Rightarrow> runner \<Rightarrow> int \<Rightarrow> chat list res" where
  "list_chats exec r limit =
     (case run exec r [''chats'', ''--limit'', int_text limit, ''--json''] of
        Inl e \<Rightarrow> Inl e
      | Inr out \<Rightarrow> decode_lines (\<lambda>j. unmarshal_struct chat_fields j zero_chat) out [])"

definition history_args :: "int64 \<Rightarrow> list_messages_options \<Rightarrow> string list" where
  "history_args chat_id opts =
     [''history'', ''--chat-id'', int_text (sint chat_id), ''--limit'', int_text (lo_limit opts), ''--json''] @
     (if lo_attachments opts then [''--attachments''] else []) @
     (case lo_after opts of None \<Rightarrow> [] | Some z \<Rightarrow> [''--start'', fmt_rfc3339 (fst z)]) @
     (case lo_before opts of None \<Rightarrow> [] | Some z \<Rightarrow> [''--end'', fmt_rfc3339 (fst z)])"

definition list_messages :: "exec \<Rightarrow> runner \<Rightarrow> int64 \<Rightarrow> list_messages_options \<Rightarrow> message list res" where
  "list_messages exec r chat_id opts =
     (case run exec r (history_args chat_id opts) of
        Inl e \<Rightarrow> Inl e
      | Inr out \<Rightarrow> decode_lines (\<lambda>j. unmarshal_struct message_fields j zero_message) out [])"

text \<open>The fallback of a field of the printed result.\<close>

definition non_empty_or :: "string \<Rightarrow> string \<Rightarrow> string" where
  "non_empty_or s d = (if s \<noteq> [] then s else d)"

definition text_args :: "string \<Rightarrow> string list" where
  "text_args text = (if trim_space text \<noteq> [] then [''--text'', text] else [])"

definition send_message :: "exec \<Rightarrow> runner \<Rightarrow> send_message_request \<Rightarrow> send_message_result res" where
  "send_message exec r req =
     (case run exec r ([''send'', ''--to'', smr_to req, ''--service'', smr_service req, ''--json''] @
             text_args (smr_text req)) of
        Inl e \<Rightarrow> Inl e
      | Inr out \<Rightarrow>
          let result = \<lparr>smx_status = ''sent'', smx_to = smr_to req, smx_service = smr_service req\<rparr> in
          (case Option.bind (parse_json (trim_space out))
                  (\<lambda>j. unmarshal_struct message_result_fields j zero_message_result) of
             None \<Rightarrow> Inr result
           | Some parsed \<Rightarrow>
               Inr \<lparr>smx_status = non_empty_or (smx_status parsed) (smx_status result),
                    smx_to = non_empty_or (smx_to parsed) (smx_to result),
                    smx_service = non_empty_or (smx_service parsed) (smx_service result)\<rparr>))"

definition send_attachment :: "exec \<Rightarrow> runner \<Rightarrow> send_attachment_request \<Rightarrow> send_attachment_result res" where
  "send_attachment exec r req =
     (case run exec r ([''send'', ''--to'', sar_to req, ''--file'', sar_file_path req, ''--service'',
             sar_service req, ''--json''] @ text_args (sar_text req)) of
        Inl e \<Rightarrow> Inl e
      | Inr out \<Rightarrow>
          let result = \<lparr>sax_status = ''sent'', sax_to = sar_to req, sax_service = sar_service req,
                sax_attachment = zero_attachment\<rparr> in
          (case Option.bind (parse_json (trim_space out))
                  (\<lambda>j. unmarshal_struct attachment_result_fields j zero_attachment_result) of
             None \<Rightarrow> Inr result
           | Some parsed \<Rightarrow>
               Inr \<lparr>sax_status = non_empty_or (sax_status parsed) (sax_status result),
                    sax_to = non_empty_or (sax_to parsed) (sax_to result),
                    sax_service = non_empty_or (sax_service parsed) (sax_service result),
                    sax_attachment =
                      (if at_filename (sax_attachment parsed) \<noteq> [] \<or> at_id (sax_attachment parsed) \<noteq> []
                       then sax_attachment parsed else sax_attachment result)\<rparr>))"

section \<open>Reading back\<close>

lemma decode_first_text:
  assumes "writable j" and "num_end rest"
  shows "decode_first (json_text ind j @ rest) = Some (j, rest)"
  by (rule decode_first_fuel) (unfold json_text_def, rule parsesD [OF parses_writable [OF assms(1)] assms(2) lessI])

lemma decode_first_ws: "is_ws c \<Longrightarrow> decode_first (c # s) = decode_first s"
proof -
  assume "is_ws c"
  then have e: "parse_val f (c # s) = parse_val f s" for f by (cases f) (simp_all add: skip_ws_def)
  show ?thesis
  proof (cases "decode_first (c # s)")
    case (Some x)
    then show ?thesis using decode_first_fuel e by (metis decode_first_def)
  next
    case None
    then show ?thesis using decode_first_fuel [of _ "c # s"] e by (metis decode_first_def option.exhaust)
  qed
qed

lemma decode_lines_ws: "is_ws c \<Longrightarrow> decode_lines item (c # s) dst = decode_lines item s dst"
  by (subst (1 2) decode_lines.simps) (simp add: decode_first_ws skip_ws_def)

lemma skip_ws_json_not_Nil: "writable j \<Longrightarrow> skip_ws (json_text ind j @ rest) \<noteq> []"
  using skip_ws_json [of j ind 0 rest] json_text_start [of j ind 0] by (auto simp: json_text_def)

definition doc_line :: "json \<Rightarrow> string" where
  "doc_line j = json_text False j @ [CHR 0x0A]"

lemma decode_lines_docs:
  assumes "\<And>x. x \<in> set xs \<Longrightarrow> writable (enc x) \<and> item (enc x) = Some x"
  shows "decode_lines item (concat (map (\<lambda>x. doc_line (enc x)) xs)) dst = Inr (dst @ xs)"
  using assms
proof (induction xs arbitrary: dst)
  case (Cons x xs)
  let ?tl = "CHR 0x0A # concat (map (\<lambda>x. doc_line (enc x)) xs)"
  have x: "writable (enc x)" "item (enc x) = Some x" using Cons.prems by auto
  have "decode_first (json_text False (enc x) @ ?tl) = Some (enc x, ?tl)"
    by (rule decode_first_text [OF x(1)]) (simp add: num_end_def is_digit_def)
  then have "decode_lines item (json_text False (enc x) @ ?tl) dst = decode_lines item ?tl (dst @ [x])"
    using x(2) skip_ws_json_not_Nil [OF x(1)] by (subst decode_lines.simps) simp
  then show ?case
    using Cons by (simp add: doc_line_def decode_lines_ws is_ws_def)
qed (simp add: decode_lines.simps skip_ws_def)

text \<open>Records whose texts read back as themselves: what the daemon itself writes.\<close>

abbreviation zoned_opt_ok :: "zoned option \<Rightarrow> bool" where
  "zoned_opt_ok z \<equiv> (case z of None \<Rightarrow> True | Some t \<Rightarrow> zoned_ok t)"

definition plain_attachment :: "attachment \<Rightarrow> bool" where
  "plain_attachment a \<longleftrightarrow> trim_space (at_id a) = at_id a \<and> trim_space (at_filename a) = at_filename a \<and>
     trim_space (at_mime_type a) = at_mime_type a \<and> at_path a = [] \<and> slash \<notin> set (at_filename a)"

definition plain_message :: "message \<Rightarrow> bool" where
  "plain_message m \<longleftrightarrow> zoned_opt_ok (ms_created_at m) \<and> list_all plain_attachment (ms_attachments m) \<and>
     list_all (\<lambda>r. zoned_opt_ok (re_created_at r)) (ms_reactions m)"

text \<open>An omitted member and a present one both leave the field with its value.\<close>

lemma set_members_omit_string:
  "find_field flds key = Some (string_field upd) \<Longrightarrow> (s = [] \<longrightarrow> upd (\<lambda>_. s) r = r) \<Longrightarrow>
     set_members flds (omit_string key s) r = Some (upd (\<lambda>_. s) r)"
  by (auto simp: omit_empty_def string_field_def)

lemma set_members_omit_slice:
  "find_field flds key = Some (slice_field dec upd) \<Longrightarrow> (xs = [] \<longrightarrow> upd (\<lambda>_. xs) r = r) \<Longrightarrow>
     (\<And>x. x \<in> set xs \<Longrightarrow> dec (enc x) = Some x) \<Longrightarrow>
     set_members flds (omit_empty (xs = []) key (slice_json enc xs)) r = Some (upd (\<lambda>_. xs) r)"
  by (auto simp: omit_empty_def slice_field_json)

lemma set_members_zoned:
  "find_field flds key = Some (zoned_field upd) \<Longrightarrow> zoned_opt_ok z \<Longrightarrow> (z = None \<longrightarrow> upd (\<lambda>_. z) r = r) \<Longrightarrow>
     set_members flds (zoned_json key z) r = Some (upd (\<lambda>_. z) r)"
  by (auto simp: zoned_json_def zoned_field_def parse_zoned_fmt split: option.splits)

lemmas set_members_present = set_members_omit_string set_members_omit_slice set_members_zoned

lemma unmarshal_attachment_json [unmarshal_simps]:
  assumes "plain_attachment a"
  shows "unmarshal_attachment (attachment_json a) = Some a"
proof (cases a)
  case (fields i f m z p)
  have body: "unmarshal_struct attachment_body_fields (attachment_json a) zero_attachment = Some a"
    using assms by (simp add: fields attachment_json_def attachment_body_fields_def find_field_def
        unmarshal_simps zero_attachment_def plain_attachment_def)
  have keys: "members_of (attachment_json a) key = None"
    if "key \<notin> {''id'', ''filename'', ''mime_type'', ''size_bytes''}" for key
    using that by (auto simp: members_of_def attachment_json_def omit_empty_def)
  define extra where "extra = members_of (attachment_json a)"
  have none: "first_attachment_string extra [''path'', ''file'', ''file_path'', ''filePath''] = []"
    "first_attachment_string extra [''transfer_name'', ''transferName'', ''name''] = []"
    "first_attachment_string extra [''mimeType''] = []"
    "first_attachment_int64 extra [''sizeBytes'', ''bytes''] = 0"
    by (simp_all add: extra_def keys)
  have "trimmed_attachment extra a = a"
    using assms none(1) by (simp add: trimmed_attachment_def plain_attachment_def)
  moreover have "fill_filename extra a = a" "fill_mime_type extra a = a" "fill_size_bytes extra a = a"
    by (simp_all only: fill_filename_def fill_mime_type_def fill_size_bytes_def none) (simp_all split: if_split)
  moreover have "path_from_filename a = a" "filename_from_path a = a"
    using assms by (simp_all add: path_from_filename_def filename_from_path_def plain_attachment_def)
  ultimately show ?thesis
    by (simp add: unmarshal_attachment_def body extra_def [symmetric])
qed

lemma unmarshal_reaction [unmarshal_simps]:
  assumes "zoned_opt_ok (re_created_at r)"
  shows "unmarshal_struct reaction_fields (reaction_json r) zero_reaction = Some r"
  using assms
  by (cases r) (simp add: reaction_json_def reaction_fields_def find_field_def unmarshal_struct_JObj
      set_members_append set_members_present int64_field_json bool_field_JBool zero_reaction_def)

lemma message_setters:
  "map_of message_fields ''id'' = Some (int64_field ms_id_update)"
  "map_of message_fields ''chat_id'' = Some (int64_field ms_chat_id_update)"
  "map_of message_fields ''guid'' = Some (string_field ms_guid_update)"
  "map_of message_fields ''sender'' = Some (string_field ms_sender_update)"
  "map_of message_fields ''text'' = Some (string_field ms_text_update)"
  "map_of message_fields ''is_from_me'' = Some (bool_field ms_is_from_me_update)"
  "map_of message_fields ''created_at'' = Some (zoned_field ms_created_at_update)"
  "map_of message_fields ''attachments'' = Some (slice_field unmarshal_attachment ms_attachments_update)"
  "map_of message_fields ''reactions'' = Some (slice_field (\<lambda>j. unmarshal_struct reaction_fields j zero_reaction) ms_reactions_update)"
  "map_of message_fields ''reply_to_guid'' = Some (string_field ms_reply_to_guid_update)"
  "map_of message_fields ''destination_caller_id'' = Some (string_field ms_destination_caller_id_update)"
  unfolding message_fields_def by (simp_all add: map_of_Cons_code del: map_of.simps)

lemmas message_lookup = message_setters [THEN find_field_exact]

lemma unmarshal_message:
  assumes "plain_message m"
  shows "unmarshal_struct message_fields (message_json m) zero_message = Some m"
proof -
  have "\<And>a. a \<in> set (ms_attachments m) \<Longrightarrow> unmarshal_attachment (attachment_json a) = Some a"
    "\<And>r. r \<in> set (ms_reactions m) \<Longrightarrow> unmarshal_struct reaction_fields (reaction_json r) zero_reaction = Some r"
    using assms unmarshal_attachment_json unmarshal_reaction by (auto simp: plain_message_def list_all_iff)
  moreover have "zoned_opt_ok (ms_created_at m)" using assms by (simp add: plain_message_def)
  ultimately show ?thesis
    unfolding message_json_def message_members_def unmarshal_struct_JObj set_members_append
    by (cases m) (simp add: message_lookup set_members_present int64_field_json bool_field_JBool zero_message_def)
qed

lemma writable_zoned [simp]: "list_all (\<lambda>(k, v). writable v) (zoned_json key z)"
  by (simp add: zoned_json_def split: option.split)

lemma writable_attachment [simp]: "writable (attachment_json a)"
  by (simp add: attachment_json_def)

lemma writable_reaction [simp]: "writable (reaction_json r)"
  by (simp add: reaction_json_def)

lemma writable_message [simp]: "writable (message_json m)"
  by (simp add: message_json_def message_members_def)

lemma first_string_trimmed: "trim_space (first_attachment_string extra keys) = first_attachment_string extra keys"
  by (induction keys) (auto split: option.split)

lemma filled_trimmed:
  defines "fill extra body \<equiv>
    fill_size_bytes extra (fill_mime_type extra (fill_filename extra (trimmed_attachment extra body)))"
  shows "trim_space (at_id (fill extra body)) = at_id (fill extra body)"
    "trim_space (at_filename (fill extra body)) = at_filename (fill extra body)"
    "trim_space (at_mime_type (fill extra body)) = at_mime_type (fill extra body)"
    "trim_space (at_path (fill extra body)) = at_path (fill extra body)"
proof -
  have "trim_space (at_id (fill_filename extra (trimmed_attachment extra body))) = at_id (fill_filename extra (trimmed_attachment extra body))"
    "trim_space (at_filename (fill_filename extra (trimmed_attachment extra body))) = at_filename (fill_filename extra (trimmed_attachment extra body))"
    "trim_space (at_mime_type (fill_filename extra (trimmed_attachment extra body))) = at_mime_type (fill_filename extra (trimmed_attachment extra body))"
    "trim_space (at_path (fill_filename extra (trimmed_attachment extra body))) = at_path (fill_filename extra (trimmed_attachment extra body))"
    by (simp_all add: trimmed_attachment_def fill_filename_def first_string_trimmed
        del: first_attachment_string.simps)
  then show "trim_space (at_id (fill extra body)) = at_id (fill extra body)"
    "trim_space (at_filename (fill extra body)) = at_filename (fill extra body)"
    "trim_space (at_mime_type (fill extra body)) = at_mime_type (fill extra body)"
    "trim_space (at_path (fill extra body)) = at_path (fill extra body)"
    by (simp_all add: fill_def fill_size_bytes_def fill_mime_type_def first_string_trimmed
        del: first_attachment_string.simps first_attachment_int64.simps)
qed

lemma path_steps:
  assumes "trim_space (at_filename a) = at_filename a" and "trim_space (at_path a) = at_path a"
    and "b = filename_from_path (path_from_filename a)"
  shows "at_path b \<noteq> [] \<longrightarrow> at_filename b \<noteq> []" "slash \<in> set (at_filename b) \<longrightarrow> at_path b \<noteq> []"
    "trim_space (at_path b) = at_path b" "at_id b = at_id a" "at_mime_type b = at_mime_type a"
  using assms(1,2) by (auto simp: assms(3) path_from_filename_def filename_from_path_def)

section \<open>Properties\<close>


definition demo_message :: message where
  "demo_message = zero_message\<lparr>ms_id := 7, ms_text := ''hi'', ms_created_at := Some (0, 7200),
     ms_attachments := [zero_attachment\<lparr>at_filename := ''cat.png'', at_size_bytes := 42\<rparr>]\<rparr>"



definition cat_document :: json where
  "cat_document = JObj [(''name'', JStr ''/tmp/cat.png''), (''bytes'', JStr ''42'')]"


end
