(* ===== verification/Watcher.thy ===== *)
theory Watcher
  imports Imsg
begin

text \<open>
  The watcher (\<open>internal/imsg/watcher.go\<close>): it keeps a process \<open>imsg watch\<close> running, decodes
  the lines it prints, hands each event to a callback, and starts it again after a pause from the
  last row seen. What a process does is a parameter, one outcome for each start; the callback
  is a function on a state of its own.
\<close>

section \<open>Events\<close>

record watch_event =
  we_message :: message
  we_event_type :: string

definition zero_watch_event :: watch_event where
  "zero_watch_event = \<lparr>we_message = zero_message, we_event_type = []\<rparr>"

text \<open>The fields of the embedded message come first, then the event's own.\<close>

definition watch_event_fields :: "watch_event field list" where
  "watch_event_fields =
     map (\<lambda>(tag, setter). (tag, \<lambda>j e. map_option (\<lambda>m. e\<lparr>we_message := m\<rparr>) (setter j (we_message e)))) message_fields @
     [(''type'', string_field we_event_type_update)]"

definition decode_event :: "string \<Rightarrow> watch_event option" where
  "decode_event line =
     Option.bind (parse_json line) (\<lambda>j. unmarshal_struct watch_event_fields j zero_watch_event)"

definition event_name :: "watch_event \<Rightarrow> string" where
  "event_name e =
     (let t = to_lower (trim_space (we_event_type e)) in
      if t \<in> {''message_updated'', ''update'', ''reaction'', ''reaction_added'', ''reaction_removed''}
      then ''message_updated''
      else if t \<in> {''new_message'', ''message'', ''incoming_message''} then ''new_message''
      else if length (ms_reactions (we_message e)) > 0 \<and> ms_text (we_message e) = [] \<and>
              length (ms_attachments (we_message e)) = 0
      then ''message_updated''
      else ''new_message'')"

definition row_id :: "watch_event \<Rightarrow> int64" where
  "row_id e = ms_id (we_message e)"

section \<open>The output of a process\<close>

text \<open>
  \<open>bufio.Scanner\<close> with \<open>ScanLines\<close> and a buffer of 4 MiB: the lines, without their end, and
  whether a line was too long for the buffer, which ends the scan.
\<close>

definition max_line :: nat where
  "max_line = 4 * 1024 * 1024"

definition drop_cr :: "string \<Rightarrow> string" where
  "drop_cr line = (if line \<noteq> [] \<and> last line = CHR 0x0D then butlast line else line)"

lemma cut_at_length: "cut_at sep s = Some (a, b) \<Longrightarrow> length s = Suc (length a + length b)"
  by (induction s arbitrary: a) (auto split: if_splits)

function scan_lines :: "string \<Rightarrow> string list \<times> bool" where
  "scan_lines raw =
     (if raw = [] then ([], False)
      else
        (case cut_at (CHR 0x0A) raw of
           None \<Rightarrow> if length raw \<ge> max_line then ([], True) else ([drop_cr raw], False)
         | Some (line, rest) \<Rightarrow>
             if length line \<ge> max_line then ([], True)
             else (case scan_lines rest of (ls, long) \<Rightarrow> (drop_cr line # ls, long))))"
  by pat_completeness auto

termination
  by (relation "measure length") (auto dest: cut_at_length)

declare scan_lines.simps [simp del]

section \<open>One process\<close>

text \<open>
  How a process goes: the pipe or the start fails, or the context has ended before the start, or
  it prints and ends, where reading the output may fail and the end is its exit: standard error
  and the error, or none.
\<close>

datatype watch_outcome =
    PipeFailed string
  | StartNotFound string
  | StartFailed string
  | StartCanceled
  | Started (wo_out: string) (wo_read: "string option") (wo_exit: "(string \<times> string) option")

datatype watch_error = Canceled | Broke go_error

text \<open>\<open>Duration.String\<close> of a fraction of a second in whole milliseconds, as the debounce is.\<close>

definition millis_text :: "int \<Rightarrow> string" where
  "millis_text d = int_text (d div millisecond) @ ''ms''"

definition watch_args :: "int64 \<Rightarrow> int \<Rightarrow> string list" where
  "watch_args since debounce =
     [''watch'', ''--json'', ''--attachments'', ''--reactions'', ''--debounce'', millis_text debounce] @
     (if sint since > 0 then [''--since-rowid'', int_text (sint since)] else [])"

fun watch_loop :: "(watch_event \<Rightarrow> 's \<Rightarrow> 's) \<Rightarrow> string list \<Rightarrow> 's \<Rightarrow> bool \<times> 's" where
  "watch_loop fn [] s = (True, s)"
| "watch_loop fn (line # ls) s =
     (case decode_event line of
        None \<Rightarrow> (False, s)
      | Some event \<Rightarrow> watch_loop fn ls (fn event s))"

text \<open>The context is asked once, after the process was waited for.\<close>

definition watch ::
  "(string \<Rightarrow> string list \<Rightarrow> watch_outcome) \<Rightarrow> bool \<Rightarrow> runner \<Rightarrow> int64 \<Rightarrow> (watch_event \<Rightarrow> 's \<Rightarrow> 's) \<Rightarrow> int \<Rightarrow> 's \<Rightarrow>
   watch_error \<times> 's" where
  "watch exec ctx_ended r since fn debounce s =
     (case exec (rn_binary r) (watch_args since debounce) of
        PipeFailed err \<Rightarrow> (Broke (ErrMsg (''watch stdout: '' @ err)), s)
      | StartNotFound err \<Rightarrow> (Broke (ErrUnavailable err), s)
      | StartFailed err \<Rightarrow> (Broke (ErrMsg (''start imsg watch: '' @ err)), s)
      | StartCanceled \<Rightarrow> (Canceled, s)
      | Started out read_err exit \<Rightarrow>
          (case scan_lines out of (ls, long) \<Rightarrow>
             (case watch_loop fn ls s of
                (False, s) \<Rightarrow> (Broke (ErrMsg ''decode watch event''), s)
              | (True, s) \<Rightarrow>
                  if long then (Broke (ErrMsg ''scan watch output: bufio.Scanner: token too long''), s)
                  else
                    (case read_err of
                       Some err \<Rightarrow> (Broke (ErrMsg (''scan watch output: '' @ err)), s)
                     | None \<Rightarrow>
                         (case exit of
                            Some (stderr, err) \<Rightarrow>
                              (Broke (ErrMsg (''imsg watch failed: '' @ failure_message stderr err)), s)
                          | None \<Rightarrow>
                              if ctx_ended then (Canceled, s)
                              else (Broke (ErrMsg ''imsg watch exited unexpectedly''), s))))))"

section \<open>The watcher\<close>

record watcher =
  wt_runner :: runner
  wt_since_row_id :: int64
  wt_debounce :: int
  wt_max_backoff :: int
  wt_start_backoff :: int

definition new_watcher :: "runner \<Rightarrow> int64 \<Rightarrow> watcher" where
  "new_watcher r since = \<lparr>wt_runner = r, wt_since_row_id = since, wt_debounce = 250 * millisecond,
     wt_max_backoff = 30 * second, wt_start_backoff = second\<rparr>"

text \<open>
  One turn of the loop of \<open>Run\<close>: what processes do, whether the context has ended when it is
  asked after the process, and whether it ends the pause.
\<close>

record turn =
  tu_exec :: "string \<Rightarrow> string list \<Rightarrow> watch_outcome"
  tu_ctx_ended :: bool
  tu_stopped :: bool

text \<open>\<open>StillRunning\<close>: the turns given are over and the next has not begun.\<close>

datatype run_end = Returned "watch_error option" | StillRunning

text \<open>The callback of \<open>Run\<close> around the caller's.\<close>

definition note_row :: "(watch_event \<Rightarrow> 's \<Rightarrow> 's) \<Rightarrow> watch_event \<Rightarrow> int64 \<times> 's \<Rightarrow> int64 \<times> 's" where
  "note_row fn event x =
     (case x of (since, s) \<Rightarrow> (if sint (row_id event) > sint since then row_id event else since, fn event s))"

text \<open>Besides the end, the pauses made, the last row and the caller's state.\<close>

fun watch_turns ::
  "watcher \<Rightarrow> (watch_event \<Rightarrow> 's \<Rightarrow> 's) \<Rightarrow> turn list \<Rightarrow> int \<Rightarrow> int64 \<Rightarrow> 's \<Rightarrow> run_end \<times> int list \<times> int64 \<times> 's" where
  "watch_turns w fn [] backoff since s = (StillRunning, [], since, s)"
| "watch_turns w fn (t # ts) backoff since s =
     (case watch (tu_exec t) (tu_ctx_ended t) (wt_runner w) since (note_row fn) (wt_debounce w) (since, s) of
        (Canceled, since, s) \<Rightarrow> (Returned None, [], since, s)
      | (Broke err, since, s) \<Rightarrow>
          if tu_stopped t then (Returned (Some Canceled), [backoff], since, s)
          else
            (let next = backoff * 2;
                 next = (if next > wt_max_backoff w then wt_max_backoff w else next) in
             case watch_turns w fn ts next since s of (r, pauses, since, s) \<Rightarrow>
               (r, backoff # pauses, since, s)))"

definition watch_run :: "watcher \<Rightarrow> (watch_event \<Rightarrow> 's \<Rightarrow> 's) \<Rightarrow> turn list \<Rightarrow> 's \<Rightarrow> run_end \<times> int list \<times> int64 \<times> 's" where
  "watch_run w fn ts s = watch_turns w fn ts (wt_start_backoff w) (wt_since_row_id w) s"

section \<open>The rows imsg keeps\<close>

text \<open>
  The lines imsg has for its rows, oldest first and with the event each is read as: row ids
  ascend, and a line fits the buffer.
\<close>

type_synonym row_log = "(string \<times> watch_event) list"

definition line_feed :: char where
  "line_feed = CHR 0x0A"

definition row_log_ok :: "row_log \<Rightarrow> bool" where
  "row_log_ok db \<longleftrightarrow> sorted_wrt (\<lambda>x y. sint (row_id (snd x)) < sint (row_id (snd y))) db \<and>
     (\<forall>(line, e) \<in> set db. decode_event line = Some e \<and> line_feed \<notin> set line \<and>
        length line < max_line \<and> drop_cr line = line)"

definition rows_after :: "int64 \<Rightarrow> row_log \<Rightarrow> row_log" where
  "rows_after since db = filter (\<lambda>(line, e). sint since < sint (row_id e)) db"

definition printed :: "row_log \<Rightarrow> string" where
  "printed rows = concat (map (\<lambda>(line, e). line @ [line_feed]) rows)"

text \<open>
  What \<open>--since-rowid\<close> is documented to do: the process prints rows after the given one in
  order, and may end at any point, in the middle of a line too, which is then no document.
\<close>

definition resumes :: "row_log \<Rightarrow> turn \<Rightarrow> bool" where
  "resumes db t \<longleftrightarrow> (\<forall>bin since debounce out rd ex. 0 < sint since \<longrightarrow>
     tu_exec t bin (watch_args since debounce) = Started out rd ex \<longrightarrow>
     (\<exists>n torn. out = printed (take n (rows_after since db)) @ torn \<and>
        line_feed \<notin> set torn \<and> decode_event (drop_cr torn) = None))"

lemma cut_at_line: "line_feed \<notin> set line \<Longrightarrow> cut_at (CHR 0x0A) (line @ line_feed # rest) = Some (line, rest)"
  "line_feed \<notin> set line \<Longrightarrow> cut_at (CHR 0x0A) line = None"
  by (induction line) (auto simp: line_feed_def)

lemma scan_printed:
  assumes "\<forall>(line, e) \<in> set rows. line_feed \<notin> set line \<and> length line < max_line \<and> drop_cr line = line"
    and "line_feed \<notin> set torn"
  shows "\<exists>rest long. scan_lines (printed rows @ torn) = (map fst rows @ rest, long) \<and> rest \<in> {[], [drop_cr torn]}"
  using assms(1)
proof (induction rows)
  case Nil
  then show ?case
    by (subst scan_lines.simps) (auto simp: printed_def cut_at_line(2) [OF assms(2)])
next
  case (Cons row rows)
  obtain line e where row: "row = (line, e)" by (cases row)
  obtain rest long where IH: "scan_lines (printed rows @ torn) = (map fst rows @ rest, long)" "rest \<in> {[], [drop_cr torn]}"
    using Cons by auto
  have "printed (row # rows) @ torn = line @ line_feed # printed rows @ torn" by (simp add: printed_def row)
  moreover have "line @ line_feed # printed rows @ torn \<noteq> []" by simp
  ultimately have "scan_lines (printed (row # rows) @ torn) = (line # map fst rows @ rest, long)"
    using Cons.prems IH(1) by (subst scan_lines.simps) (simp add: row cut_at_line)
  then show ?case using IH(2) by (auto simp: row)
qed

lemma watch_loop_rows:
  assumes "\<forall>(line, e) \<in> set rows. decode_event line = Some e" and "rest \<in> {[], [torn]}" and "decode_event torn = None"
  shows "snd (watch_loop fn (map fst rows @ rest) s) = fold fn (map snd rows) s"
  using assms(1)
proof (induction rows arbitrary: s)
  case Nil
  then show ?case using assms(2,3) by auto
next
  case (Cons row rows)
  then show ?case by (cases row) simp
qed

lemma watch_state:
  "snd (watch exec ctx_ended r since fn debounce s) =
     (case exec (rn_binary r) (watch_args since debounce) of
        Started out rd ex \<Rightarrow> snd (watch_loop fn (fst (scan_lines out)) s)
      | _ \<Rightarrow> s)"
  by (auto simp: watch_def split: watch_outcome.split prod.split option.split bool.split)

lemma note_rows:
  assumes "sorted_wrt (\<lambda>x y. sint (row_id (snd x)) < sint (row_id (snd y))) rows"
    and "\<forall>x \<in> set rows. sint since < sint (row_id (snd x))"
  shows "fold (note_row fn) (map snd rows) (since, s) =
    (if rows = [] then since else row_id (snd (last rows)), fold fn (map snd rows) s)"
  using assms
proof (induction rows arbitrary: since s)
  case (Cons row rows)
  then show ?case by (auto simp: note_row_def)
qed simp

lemma sorted_rows_after:
  assumes "row_log_ok db"
  shows "sorted_wrt (\<lambda>x y. sint (row_id (snd x)) < sint (row_id (snd y))) (rows_after since db)"
  using assms by (simp add: row_log_ok_def rows_after_def sorted_wrt_filter)

lemma filter_after_take:
  assumes "sorted_wrt (\<lambda>x y. (f x :: int) < f y) xs" and "0 < n" and "n \<le> length xs"
  shows "filter (\<lambda>x. f (last (take n xs)) < f x) xs = drop n xs"
  using assms
proof (induction n arbitrary: xs)
  case (Suc n)
  obtain x ys where xs: "xs = x # ys" using Suc.prems(3) by (cases xs) auto
  show ?case
  proof (cases "n = 0")
    case True
    then show ?thesis using Suc.prems(1) by (simp add: xs filter_id_conv)
  next
    case False
    have n: "n \<le> length ys" using Suc.prems(3) by (simp add: xs)
    have "take n ys \<noteq> []" using False n by (cases ys) auto
    then have l: "last (take (Suc n) xs) = last (take n ys)" "last (take n ys) \<in> set ys"
      by (auto simp: xs dest: in_set_takeD intro: last_in_set [THEN in_set_takeD])
    then have "f x < f (last (take n ys))" using Suc.prems(1) by (auto simp: xs)
    moreover have "filter (\<lambda>x. f (last (take n ys)) < f x) ys = drop n ys"
      using Suc.IH [of ys] Suc.prems(1) False n by (simp add: xs)
    ultimately show ?thesis by (simp only: l(1)) (simp add: xs)
  qed
qed simp

lemma rows_after_later:
  "sint a \<le> sint b \<Longrightarrow> rows_after b db = filter (\<lambda>x. sint b < sint (row_id (snd x))) (rows_after a db)"
  unfolding rows_after_def filter_filter by (intro filter_cong) auto

lemma rows_after_last:
  assumes "row_log_ok db" and "0 < n" and "n \<le> length (rows_after since db)"
  shows "rows_after (row_id (snd (last (take n (rows_after since db))))) db = drop n (rows_after since db)"
proof -
  let ?rows = "rows_after since db" and ?f = "\<lambda>x. sint (row_id (snd x))"
  let ?last = "last (take n ?rows)"
  have "take n ?rows \<noteq> []" using assms(2,3) by auto
  then have "?last \<in> set ?rows" using in_set_takeD last_in_set by metis
  then have after: "sint since < ?f ?last" by (auto simp: rows_after_def)
  have "rows_after (row_id (snd ?last)) db = filter (\<lambda>x. ?f ?last < ?f x) ?rows"
    using after by (intro rows_after_later) simp
  with filter_after_take [OF sorted_rows_after [OF assms(1)] assms(2,3)] show ?thesis by simp
qed

text \<open>What one turn hands over, and that the next resumes behind it.\<close>

lemma watch_resumes:
  assumes "row_log_ok db" and "resumes db t" and "0 < sint since"
    and "watch (tu_exec t) ctx_ended r since (note_row fn) debounce (since, s) = (err, since', s')"
  shows "\<exists>n. s' = fold fn (map snd (take n (rows_after since db))) s \<and>
    rows_after since' db = drop n (rows_after since db) \<and> 0 < sint since'"
proof -
  have st: "(since', s') = snd (watch (tu_exec t) ctx_ended r since (note_row fn) debounce (since, s))"
    using assms(4) by simp
  show ?thesis
  proof (cases "\<exists>out rd ex. tu_exec t (rn_binary r) (watch_args since debounce) = Started out rd ex")
    case False
    then have "(since', s') = (since, s)"
      using st unfolding watch_state by (auto split: watch_outcome.splits)
    then show ?thesis using assms(3) by (intro exI [of _ 0]) auto
  next
    case True
    then obtain out rd ex where o: "tu_exec t (rn_binary r) (watch_args since debounce) = Started out rd ex" by blast
    obtain n torn where p: "out = printed (take n (rows_after since db)) @ torn" "line_feed \<notin> set torn"
      "decode_event (drop_cr torn) = None"
      using assms(2) [unfolded resumes_def, rule_format, OF assms(3) o] by blast
    define m where "m = min n (length (rows_after since db))"
    define rows where "rows = take m (rows_after since db)"
    have rows: "rows = take n (rows_after since db)" by (simp add: rows_def m_def min_def)
    have sub: "set rows \<subseteq> set db" "\<forall>x \<in> set rows. sint since < sint (row_id (snd x))"
      unfolding rows by (auto simp: rows_after_def dest: in_set_takeD)
    have ok: "\<forall>(line, e) \<in> set rows. line_feed \<notin> set line \<and> length line < max_line \<and> drop_cr line = line"
      "\<forall>(line, e) \<in> set rows. decode_event line = Some e"
      using assms(1) sub(1) by (auto simp: row_log_ok_def)
    obtain rest long where sc: "scan_lines out = (map fst rows @ rest, long)" "rest \<in> {[], [drop_cr torn]}"
      using scan_printed [OF ok(1) p(2)] p(1) by (auto simp: rows)
    have "(since', s') = fold (note_row fn) (map snd rows) (since, s)"
      using st watch_loop_rows [OF ok(2) sc(2) p(3)] by (simp add: watch_state o sc(1))
    also have "\<dots> = (if rows = [] then since else row_id (snd (last rows)), fold fn (map snd rows) s)"
      unfolding rows by (rule note_rows [OF sorted_wrt_take [OF sorted_rows_after [OF assms(1)]] sub(2) [unfolded rows]])
    finally have e: "since' = (if rows = [] then since else row_id (snd (last rows)))" "s' = fold fn (map snd rows) s"
      by simp_all
    have "rows_after since' db = drop m (rows_after since db) \<and> 0 < sint since'"
    proof (cases "rows = []")
      case True
      then show ?thesis using e(1) assms(3) by (auto simp: rows_def)
    next
      case False
      have m: "0 < m" "m \<le> length (rows_after since db)" using False by (auto simp: rows_def m_def)
      have "sint since < sint (row_id (snd (last rows)))" using sub(2) False by simp
      then show ?thesis
        using rows_after_last [OF assms(1) m] e(1) False assms(3) by (simp add: rows_def [symmetric])
    qed
    then show ?thesis using e(2) by (intro exI [of _ m]) (simp add: rows_def)
  qed
qed

lemma watch_turns_resume:
  assumes "row_log_ok db" and "\<forall>t \<in> set ts. resumes db t" and "0 < sint since"
    and "watch_turns w fn ts backoff since s = (r, pauses, since', s')"
  shows "\<exists>n. s' = fold fn (map snd (take n (rows_after since db))) s \<and>
    rows_after since' db = drop n (rows_after since db) \<and> 0 < sint since'"
  using assms(2-)
proof (induction ts arbitrary: backoff since s pauses)
  case Nil
  then show ?case by (intro exI [of _ 0]) simp
next
  case (Cons t ts)
  obtain err since1 s1 where w: "watch (tu_exec t) (tu_ctx_ended t) (wt_runner w) since (note_row fn)
      (wt_debounce w) (since, s) = (err, since1, s1)" by (metis prod.collapse)
  obtain n where n: "s1 = fold fn (map snd (take n (rows_after since db))) s"
    "rows_after since1 db = drop n (rows_after since db)" "0 < sint since1"
    using watch_resumes [OF assms(1) _ Cons.prems(2) w] Cons.prems(1) by auto
  show ?case
  proof (cases "err = Canceled \<or> tu_stopped t")
    case True
    then have "s' = s1" "since' = since1" using Cons.prems(3) w by (auto split: watch_error.splits)
    with n show ?thesis by blast
  next
    case False
    then obtain backoff1 pauses1 where "watch_turns w fn ts backoff1 since1 s1 = (r, pauses1, since', s')"
      using Cons.prems(3) w by (auto simp: Let_def split: watch_error.splits prod.splits)
    from Cons.IH [OF _ n(3) this] Cons.prems(1) obtain m where m:
      "s' = fold fn (map snd (take m (rows_after since1 db))) s1"
      "rows_after since' db = drop m (rows_after since1 db)" "0 < sint since'" by auto
    have "take (n + m) (rows_after since db) = take n (rows_after since db) @ take m (rows_after since1 db)"
      by (simp add: n(2) take_add)
    with n m show ?thesis by (intro exI [of _ "n + m"]) (simp add: add.commute)
  qed
qed

lemma watch_turns_pauses:
  assumes "watch_turns w fn ts (min (2 ^ k * second) (30 * second)) since s = (r, pauses, since', s')"
    and "wt_max_backoff w = 30 * second" and "i < length pauses"
  shows "pauses ! i = min (2 ^ (k + i) * second) (30 * second)"
  using assms(1,3)
proof (induction ts arbitrary: k since s pauses i)
  case (Cons t ts)
  obtain err since1 s1 where w: "watch (tu_exec t) (tu_ctx_ended t) (wt_runner w) since (note_row fn)
      (wt_debounce w) (since, s) = (err, since1, s1)" by (metis prod.collapse)
  let ?b = "min (2 ^ k * second) (30 * second)"
  have next_pause: "(if ?b * 2 > wt_max_backoff w then wt_max_backoff w else ?b * 2) = min (2 ^ Suc k * second) (30 * second)"
    by (simp add: assms(2) min_def)
  show ?case
  proof (cases "err = Canceled \<or> tu_stopped t")
    case True
    then have "pauses = [] \<or> pauses = [?b]" using Cons.prems(1) w by (auto split: watch_error.splits)
    then show ?thesis using Cons.prems(2) by auto
  next
    case False
    then obtain pauses1 where p: "watch_turns w fn ts (min (2 ^ Suc k * second) (30 * second)) since1 s1 = (r, pauses1, since', s')"
      "pauses = ?b # pauses1"
      using Cons.prems(1) w unfolding watch_turns.simps Let_def next_pause
      by (auto split: watch_error.splits prod.splits)
    show ?thesis
    proof (cases i)
      case (Suc j)
      then show ?thesis using Cons.IH [OF p(1), of j] Cons.prems(2) p(2) by simp
    qed (simp add: p(2))
  qed
qed simp

text \<open>The context ends during a turn: in the pause, when it is asked after the process, or at the start.\<close>

definition ends_in :: "turn \<Rightarrow> bool" where
  "ends_in t \<longleftrightarrow> tu_stopped t \<or> tu_ctx_ended t \<or> (\<exists>bin args. tu_exec t bin args = StartCanceled)"

lemma watch_canceled:
  "watch (tu_exec t) (tu_ctx_ended t) r since fn debounce s = (Canceled, s') \<Longrightarrow> ends_in t"
  by (auto simp: watch_def ends_in_def split: watch_outcome.splits prod.splits bool.splits if_splits option.splits)

lemma watch_turns_end:
  assumes "watch_turns w fn ts backoff since s = (r, pauses, since', s')"
  shows "(\<forall>t \<in> set ts. \<not> ends_in t) \<longrightarrow> r = StillRunning" "r = StillRunning \<longrightarrow> length pauses = length ts"
    "(\<exists>t \<in> set ts. tu_stopped t) \<longrightarrow> r \<noteq> StillRunning" "length pauses \<le> length ts"
  using assms
proof (atomize (full), induction ts arbitrary: backoff since s pauses)
  case (Cons t ts)
  obtain err since1 s1 where w: "watch (tu_exec t) (tu_ctx_ended t) (wt_runner w) since (note_row fn)
      (wt_debounce w) (since, s) = (err, since1, s1)" by (metis prod.collapse)
  show ?case
  proof (cases err)
    case Canceled
    then show ?thesis using Cons.prems w watch_canceled [OF w [unfolded Canceled]] by auto
  next
    case (Broke err')
    show ?thesis
    proof (cases "tu_stopped t")
      case True
      then show ?thesis using Cons.prems w Broke by (auto simp: ends_in_def)
    next
      case False
      obtain pauses1 where "watch_turns w fn ts (if backoff * 2 > wt_max_backoff w then wt_max_backoff w else backoff * 2)
          since1 s1 = (r, pauses1, since', s')" "pauses = backoff # pauses1"
        using Cons.prems w Broke False by (auto simp: Let_def split: prod.splits)
      then show ?thesis using Cons.IH False by auto
    qed
  qed
qed auto

section \<open>Properties\<close>

text \<open>
  C26. The watcher ends with its context and with nothing else: whatever \<open>imsg\<close> does - it is
  missing, cannot start, crashes, prints nonsense or stops - the loop starts it again after pauses of
  1, 2, 4, 8, 16 and then always 30 seconds; once the context ends in a pause, the loop is over.
\<close>

theorem watcher_ends_with_context:
  assumes "watch_run (new_watcher r since) fn ts s = (result, pauses, since', s')"
  shows "((\<forall>t \<in> set ts. \<not> ends_in t) \<longrightarrow>
      result = StillRunning \<and> pauses = map (\<lambda>i. min (2 ^ i * second) (30 * second)) [0 ..< length ts]) \<and>
    ((\<exists>t \<in> set ts. tu_stopped t) \<longrightarrow> result \<noteq> StillRunning)"
proof -
  have run: "watch_turns (new_watcher r since) fn ts (min (2 ^ 0 * second) (30 * second)) since s = (result, pauses, since', s')"
    using assms by (simp add: watch_run_def new_watcher_def)
  note ends = watch_turns_end [OF run]
  have "pauses ! i = min (2 ^ i * second) (30 * second)" if "i < length pauses" for i
    using watch_turns_pauses [OF run _ that] by (simp add: new_watcher_def)
  with ends show ?thesis by (auto intro!: nth_equalityI)
qed

definition gone_turn :: "bool \<Rightarrow> turn" where
  "gone_turn stop = \<lparr>tu_exec = (\<lambda>bin args. StartNotFound ''imsg''), tu_ctx_ended = False, tu_stopped = stop\<rparr>"

theorem watcher_ends_with_context_witness:
  "\<exists>since' s'. watch_run (new_watcher \<lparr>rn_binary = ''imsg''\<rparr> 7) (\<lambda>e n. n + 1) (replicate 6 (gone_turn False)) (0::nat) =
     (StillRunning, [second, 2 * second, 4 * second, 8 * second, 16 * second, 30 * second], since', s')"
proof -
  obtain result pauses since' s' where run: "watch_run (new_watcher \<lparr>rn_binary = ''imsg''\<rparr> 7) (\<lambda>e n. n + 1)
      (replicate 6 (gone_turn False)) (0::nat) = (result, pauses, since', s')" by (metis prod_cases4)
  have "\<forall>t \<in> set (replicate 6 (gone_turn False)). \<not> ends_in t" by (simp add: ends_in_def gone_turn_def)
  then have "result = StillRunning \<and> pauses = map (\<lambda>i. min (2 ^ i * second) (30 * second)) [0 ..< 6]"
    using watcher_ends_with_context [OF run] by simp
  with run show ?thesis by (simp add: upt_rec)
qed

end
