(* ===== verification/EventHub.thy ===== *)
theory EventHub
  imports GoPrelude
begin

text \<open>
  The event hub (\<open>internal/events/hub.go\<close>). Channels live in a heap and are named by their
  reference, since the hub and the subscriber hold the same channel: the hub sends and
  closes, the subscriber receives. Every hub operation runs under the hub's mutex, so it is
  one step. A send on a closed channel and a second \<open>close\<close> panic, which is \<open>None\<close>.
\<close>

section \<open>Channels\<close>

record 'e chan =
  ch_buf :: "'e list"
  ch_cap :: nat
  ch_closed :: bool

text \<open>\<open>select { case ch <- event: default: }\<close>: send if there is room, else drop.\<close>

definition try_send :: "'e chan \<Rightarrow> 'e \<Rightarrow> 'e chan option" where
  "try_send ch event =
     (if ch_closed ch then None
      else if length (ch_buf ch) < ch_cap ch then Some (ch\<lparr>ch_buf := ch_buf ch @ [event]\<rparr>)
      else Some ch)"

definition close_chan :: "'e chan \<Rightarrow> 'e chan option" where
  "close_chan ch = (if ch_closed ch then None else Some (ch\<lparr>ch_closed := True\<rparr>))"

section \<open>The hub\<close>

text \<open>An \<open>Event\<close>: its type and its data, which the hub never looks at.\<close>

record 'd event =
  ev_type :: string
  ev_data :: 'd

record 'e hub =
  subscribers :: "int \<rightharpoonup> nat"
  next_id :: int
  heap :: "'e chan list"

definition new_hub :: "'e hub" where
  "new_hub = \<lparr>subscribers = Map.empty, next_id = 0, heap = []\<rparr>"

text \<open>
  \<open>Subscribe\<close> returns the channel and, for the closure that unsubscribes, the id it captures.
\<close>

definition hub_subscribe :: "int \<Rightarrow> 'e hub \<Rightarrow> nat \<times> int \<times> 'e hub" where
  "hub_subscribe buffer h =
     (let buffer = (if buffer < 1 then 1 else buffer);
          i = next_id h;
          ch = length (heap h)
      in (ch, i,
          h\<lparr>next_id := next_id h + 1,
            heap := heap h @ [\<lparr>ch_buf = [], ch_cap = nat buffer, ch_closed = False\<rparr>],
            subscribers := (subscribers h)(i \<mapsto> ch)\<rparr>))"

definition hub_unsubscribe :: "int \<Rightarrow> 'e hub \<Rightarrow> 'e hub option" where
  "hub_unsubscribe i h =
     (case subscribers h i of
        None \<Rightarrow> Some h
      | Some sub \<Rightarrow>
          (case close_chan (heap h ! sub) of
             None \<Rightarrow> None
           | Some ch \<Rightarrow> Some (h\<lparr>subscribers := (subscribers h)(i := None),
                                 heap := (heap h)[sub := ch]\<rparr>)))"

text \<open>
  \<open>Publish\<close> ranges over the map of subscribers; \<open>order\<close> is the order the runtime visits the
  keys in, which the language leaves open.
\<close>

fun publish_loop :: "int list \<Rightarrow> 'e \<Rightarrow> 'e hub \<Rightarrow> 'e hub option" where
  "publish_loop [] event h = Some h"
| "publish_loop (i # is) event h =
     (case subscribers h i of
        None \<Rightarrow> publish_loop is event h
      | Some sub \<Rightarrow>
          (case try_send (heap h ! sub) event of
             None \<Rightarrow> None
           | Some ch \<Rightarrow> publish_loop is event (h\<lparr>heap := (heap h)[sub := ch]\<rparr>)))"

definition range_order :: "('k \<rightharpoonup> 'v) \<Rightarrow> 'k list \<Rightarrow> bool" where
  "range_order m order \<longleftrightarrow> distinct order \<and> set order = dom m"

text \<open>The subscriber's receive: the oldest buffered event, also after the channel is closed.\<close>

definition chan_recv :: "nat \<Rightarrow> 'e hub \<Rightarrow> ('e \<times> 'e hub) option" where
  "chan_recv r h =
     (if r < length (heap h) then
        (case ch_buf (heap h ! r) of
           [] \<Rightarrow> None
         | e # rest \<Rightarrow> Some (e, h\<lparr>heap := (heap h)[r := (heap h ! r)\<lparr>ch_buf := rest\<rparr>]\<rparr>))
      else None)"

section \<open>Runs\<close>

datatype 'e hub_label =
    Subscribed int nat int
  | Unsubscribed int
  | Published 'e
  | Received nat 'e

inductive hub_step :: "'e hub \<Rightarrow> 'e hub_label \<Rightarrow> 'e hub \<Rightarrow> bool" where
  subscribe: "hub_subscribe buffer h = (r, i, h') \<Longrightarrow> hub_step h (Subscribed buffer r i) h'"
| unsubscribe: "hub_unsubscribe i h = Some h' \<Longrightarrow> hub_step h (Unsubscribed i) h'"
| publish: "range_order (subscribers h) order \<Longrightarrow> publish_loop order e h = Some h'
    \<Longrightarrow> hub_step h (Published e) h'"
| receive: "chan_recv r h = Some (e, h') \<Longrightarrow> hub_step h (Received r e) h'"

inductive_cases hub_stepE: "hub_step h l h'"

inductive hub_run :: "'e hub \<Rightarrow> 'e hub_label list \<Rightarrow> 'e hub \<Rightarrow> bool" where
  hub_run_Nil: "hub_run h [] h"
| hub_run_Cons: "hub_step h l h1 \<Longrightarrow> hub_run h1 ls h2 \<Longrightarrow> hub_run h (l # ls) h2"

inductive_cases hub_run_ConsE: "hub_run h (l # ls) h'"
inductive_simps hub_run_Nil_iff [simp]: "hub_run h [] h'"

text \<open>The events a run publishes, and those it hands to one subscriber.\<close>

fun published :: "'e hub_label list \<Rightarrow> 'e list" where
  "published [] = []"
| "published (Published e # ls) = e # published ls"
| "published (_ # ls) = published ls"

fun received :: "nat \<Rightarrow> 'e hub_label list \<Rightarrow> 'e list" where
  "received r [] = []"
| "received r (Received r' e # ls) = (if r' = r then e # received r ls else received r ls)"
| "received r (_ # ls) = received r ls"

section \<open>The invariant\<close>

text \<open>
  Every subscriber's channel exists, is open and belongs to it alone; no channel holds more
  than its capacity, which is at least one; ids in use are below the next id.
\<close>

definition hub_inv :: "'e hub \<Rightarrow> bool" where
  "hub_inv h \<longleftrightarrow>
     finite (dom (subscribers h)) \<and>
     (\<forall>i j r. subscribers h i = Some r \<longrightarrow> subscribers h j = Some r \<longrightarrow> i = j) \<and>
     (\<forall>i r. subscribers h i = Some r \<longrightarrow>
        i < next_id h \<and> r < length (heap h) \<and> \<not> ch_closed (heap h ! r)) \<and>
     (\<forall>ch \<in> set (heap h). 1 \<le> ch_cap ch \<and> length (ch_buf ch) \<le> ch_cap ch)"

lemma hub_inv_new: "hub_inv new_hub"
  by (simp add: hub_inv_def new_hub_def)

lemma hub_invD:
  assumes "hub_inv h" and "subscribers h i = Some r"
  shows "i < next_id h" "r < length (heap h)" "\<not> ch_closed (heap h ! r)"
  using assms by (auto simp: hub_inv_def)

lemma hub_inv_inj:
  "hub_inv h \<Longrightarrow> subscribers h i = Some r \<Longrightarrow> subscribers h j = Some r \<Longrightarrow> i = j"
  by (simp add: hub_inv_def)

lemma hub_invI:
  assumes "finite (dom (subscribers h))"
    and "\<And>i j r. subscribers h i = Some r \<Longrightarrow> subscribers h j = Some r \<Longrightarrow> i = j"
    and "\<And>i r. subscribers h i = Some r \<Longrightarrow>
      i < next_id h \<and> r < length (heap h) \<and> \<not> ch_closed (heap h ! r)"
    and "\<And>ch. ch \<in> set (heap h) \<Longrightarrow> 1 \<le> ch_cap ch \<and> length (ch_buf ch) \<le> ch_cap ch"
  shows "hub_inv h"
  unfolding hub_inv_def using assms by blast

lemma hub_inv_chan:
  "hub_inv h \<Longrightarrow> r < length (heap h) \<Longrightarrow>
     1 \<le> ch_cap (heap h ! r) \<and> length (ch_buf (heap h ! r)) \<le> ch_cap (heap h ! r)"
  by (auto simp: hub_inv_def)

text \<open>Replacing a channel by one in good order, not closing a subscribed one, keeps the invariant.\<close>

lemma hub_inv_heap_update:
  assumes "hub_inv h" and "r < length (heap h)"
    and "1 \<le> ch_cap ch" "length (ch_buf ch) \<le> ch_cap ch"
    and "ch_closed ch = ch_closed (heap h ! r)"
  shows "hub_inv (h\<lparr>heap := (heap h)[r := ch]\<rparr>)"
  using assms unfolding hub_inv_def
  by (auto simp: nth_list_update dest!: set_update_subset_insert [THEN subsetD])

lemma hub_inv_subscribe:
  assumes "hub_inv h" and "hub_subscribe buffer h = (r, i, h')"
  shows "hub_inv h'"
proof (rule hub_invI)
  show "finite (dom (subscribers h'))"
    using assms by (auto simp: hub_inv_def hub_subscribe_def Let_def)
  have new: "r' \<noteq> length (heap h)" if "subscribers h j = Some r'" for j r'
    using hub_invD(2) [OF assms(1) that] by simp
  show "a = b" if "subscribers h' a = Some q" "subscribers h' b = Some q" for a b q
    using that assms(2) new hub_inv_inj [OF assms(1), of a q b]
    by (force simp: hub_subscribe_def Let_def split: if_splits)
  show "j < next_id h' \<and> r' < length (heap h') \<and> \<not> ch_closed (heap h' ! r')"
    if "subscribers h' j = Some r'" for j r'
    using that assms(2) hub_invD [OF assms(1), of j r']
    by (auto simp: hub_subscribe_def Let_def nth_append split: if_splits)
  show "1 \<le> ch_cap ch \<and> length (ch_buf ch) \<le> ch_cap ch" if "ch \<in> set (heap h')" for ch
    using that assms by (auto simp: hub_inv_def hub_subscribe_def Let_def Suc_le_eq)
qed

lemma hub_unsubscribe_ok:
  assumes "hub_inv h"
  shows "\<exists>h'. hub_unsubscribe i h = Some h' \<and> hub_inv h' \<and>
    subscribers h' = (subscribers h)(i := None) \<and>
    (\<forall>r < length (heap h). ch_buf (heap h' ! r) = ch_buf (heap h ! r) \<and>
       ch_cap (heap h' ! r) = ch_cap (heap h ! r)) \<and> length (heap h') = length (heap h)"
proof (cases "subscribers h i")
  case None
  then show ?thesis
    using assms by (auto simp: hub_unsubscribe_def fun_upd_idem_iff)
next
  case (Some r)
  note r = hub_invD [OF assms Some]
  have other: "r' \<noteq> r" if "subscribers h j = Some r'" "j \<noteq> i" for j r'
    using that hub_inv_inj [OF assms Some] by blast
  let ?h' = "h\<lparr>subscribers := (subscribers h)(i := None),
               heap := (heap h)[r := (heap h ! r)\<lparr>ch_closed := True\<rparr>]\<rparr>"
  have "hub_inv ?h'"
  proof (rule hub_invI)
    show "finite (dom (subscribers ?h'))"
      using assms by (simp add: hub_inv_def)
    show "a = b" if "subscribers ?h' a = Some q" "subscribers ?h' b = Some q" for a b q
      using that hub_inv_inj [OF assms, of a q b] by (auto split: if_splits)
    show "j < next_id ?h' \<and> q < length (heap ?h') \<and> \<not> ch_closed (heap ?h' ! q)"
      if "subscribers ?h' j = Some q" for j q
      using that hub_invD [OF assms, of j q] other [of j q] by (auto split: if_splits)
    show "1 \<le> ch_cap ch \<and> length (ch_buf ch) \<le> ch_cap ch" if "ch \<in> set (heap ?h')" for ch
      using that hub_inv_chan [OF assms r(2)] assms
      by (auto simp: hub_inv_def dest!: set_update_subset_insert [THEN subsetD])
  qed
  then show ?thesis
    using Some r by (auto simp: hub_unsubscribe_def close_chan_def nth_list_update)
qed

definition offer :: "'e \<Rightarrow> 'e chan \<Rightarrow> 'e chan" where
  "offer e ch = (if length (ch_buf ch) < ch_cap ch then ch\<lparr>ch_buf := ch_buf ch @ [e]\<rparr> else ch)"

lemma publish_loop_effect:
  assumes "hub_inv h" and "distinct order"
  shows "\<exists>h'. publish_loop order e h = Some h' \<and> hub_inv h' \<and>
    subscribers h' = subscribers h \<and> length (heap h') = length (heap h) \<and>
    next_id h' = next_id h \<and>
    (\<forall>r < length (heap h). heap h' ! r =
       (if \<exists>i \<in> set order. subscribers h i = Some r then offer e (heap h ! r) else heap h ! r))"
  using assms
proof (induction order arbitrary: h)
  case (Cons i "is")
  show ?case
  proof (cases "subscribers h i")
    case None
    from Cons.IH [of h] Cons.prems None show ?thesis by auto
  next
    case (Some r)
    note r = hub_invD [OF Cons.prems(1) Some]
    have other: "subscribers h j \<noteq> Some r" if "j \<in> set is" for j
      using that hub_inv_inj [OF Cons.prems(1) Some, of j] Cons.prems(2) by auto
    let ?h1 = "h\<lparr>heap := (heap h)[r := offer e (heap h ! r)]\<rparr>"
    have "hub_inv ?h1"
      by (rule hub_inv_heap_update)
        (use r hub_inv_chan [OF Cons.prems(1) r(2)] Cons.prems in \<open>auto simp: offer_def\<close>)
    with Cons.IH [of ?h1] Cons.prems obtain h' where
      "publish_loop is e ?h1 = Some h'" "hub_inv h'" "subscribers h' = subscribers h"
      "length (heap h') = length (heap h)" "next_id h' = next_id h"
      "\<forall>q < length (heap h). heap h' ! q =
         (if \<exists>j \<in> set is. subscribers h j = Some q then offer e (heap ?h1 ! q) else heap ?h1 ! q)"
      by auto
    moreover have "publish_loop (i # is) e h = publish_loop is e ?h1"
      using Some r by (simp add: try_send_def offer_def)
    ultimately show ?thesis
      using Some r other by (auto simp: nth_list_update)
  qed
qed simp

lemma chan_recv_inv: "hub_inv h \<Longrightarrow> chan_recv r h = Some (e, h') \<Longrightarrow> hub_inv h'"
  by (auto simp: chan_recv_def split: if_splits list.splits
      dest: hub_inv_chan [of h r] intro!: hub_inv_heap_update)

lemma hub_step_inv: "hub_step h l h' \<Longrightarrow> hub_inv h \<Longrightarrow> hub_inv h'"
proof (induction rule: hub_step.induct)
  case (unsubscribe i h h')
  then show ?case
    using hub_unsubscribe_ok [of h i] by auto
next
  case (publish h order e h')
  then show ?case
    using publish_loop_effect [of h order e] by (auto simp: range_order_def)
qed (auto intro: hub_inv_subscribe chan_recv_inv)

lemma hub_run_inv: "hub_run h ls h' \<Longrightarrow> hub_inv h \<Longrightarrow> hub_inv h'"
  by (induction rule: hub_run.induct) (auto dest: hub_step_inv)

section \<open>What a subscriber sees\<close>

lemma published_Cons: "published (l # ls) = published [l] @ published ls"
  by (cases l) auto

lemma received_Cons: "received r (l # ls) = received r [l] @ received r ls"
  by (cases l) auto

abbreviation buffered :: "'e hub \<Rightarrow> nat \<Rightarrow> 'e list" where
  "buffered h r \<equiv> ch_buf (heap h ! r)"

text \<open>One step: the channel stays, and nothing enters it that was not published.\<close>

lemma hub_step_buffer:
  assumes "hub_step h l h'" and "hub_inv h" and "r < length (heap h)"
  shows "r < length (heap h')"
    and "subseq (received r [l] @ buffered h' r) (buffered h r @ published [l])"
    and "ch_cap (heap h' ! r) = ch_cap (heap h ! r)"
  using assms
proof (atomize (full), induction rule: hub_step.induct)
  case (subscribe buffer h q i h')
  then show ?case by (auto simp: hub_subscribe_def Let_def nth_append)
next
  case (unsubscribe i h h')
  then show ?case using hub_unsubscribe_ok [of h i] by auto
next
  case (publish h order e h')
  then show ?case
    using publish_loop_effect [of h order e] by (auto simp: range_order_def offer_def)
next
  case (receive q h e h')
  then show ?case
    by (auto simp: chan_recv_def nth_list_update split: if_splits list.splits)
qed

lemma hub_run_buffer:
  assumes "hub_run h ls h'" and "hub_inv h" and "r < length (heap h)"
  shows "subseq (received r ls @ buffered h' r) (buffered h r @ published ls)"
  using assms
proof (induction rule: hub_run.induct)
  case (hub_run_Cons h l h1 ls h2)
  note s = hub_step_buffer [OF hub_run_Cons.hyps(1) hub_run_Cons.prems]
  have IH: "subseq (received r ls @ buffered h2 r) (buffered h1 r @ published ls)"
    using hub_run_Cons.IH hub_step_inv [OF hub_run_Cons.hyps(1) hub_run_Cons.prems(1)] s(1) by blast
  have "subseq (received r [l] @ received r ls @ buffered h2 r)
      ((received r [l] @ buffered h1 r) @ published ls)"
    using IH by (simp add: subseq_append')
  also have "subseq \<dots> ((buffered h r @ published [l]) @ published ls)"
    by (rule list_emb_append_mono [OF s(2)]) simp
  finally show ?case
    by (simp add: received_Cons [of r l ls] published_Cons [of l ls])
qed simp

text \<open>While a subscription lasts and the buffer has room, nothing is lost either.\<close>

lemma hub_step_lossless:
  assumes "hub_step h l h'" and "hub_inv h" and "subscribers h i = Some r"
    and "l \<noteq> Unsubscribed i" and "length (buffered h r @ published [l]) \<le> ch_cap (heap h ! r)"
  shows "subscribers h' i = Some r"
    and "received r [l] @ buffered h' r = buffered h r @ published [l]"
  using assms hub_invD [OF assms(2,3)]
proof (atomize (full), induction rule: hub_step.induct)
  case (subscribe buffer h q j h')
  then show ?case by (auto simp: hub_subscribe_def Let_def nth_append)
next
  case (unsubscribe j h h')
  then show ?case using hub_unsubscribe_ok [of h j] by auto
next
  case (publish h order e h')
  then have "i \<in> set order" by (auto simp: range_order_def)
  with publish show ?case
    using publish_loop_effect [of h order e] by (auto simp: range_order_def offer_def)
next
  case (receive q h e h')
  then show ?case
    by (auto simp: chan_recv_def nth_list_update split: if_splits list.splits)
qed

lemma hub_run_lossless:
  assumes "hub_run h ls h'" and "hub_inv h" and "subscribers h i = Some r"
    and "Unsubscribed i \<notin> set ls" and "length (buffered h r @ published ls) \<le> ch_cap (heap h ! r)"
  shows "received r ls @ buffered h' r = buffered h r @ published ls"
  using assms
proof (induction rule: hub_run.induct)
  case (hub_run_Cons h l h1 ls h2)
  note r = hub_invD [OF hub_run_Cons.prems(1,2)]
  have room: "length (buffered h r @ published [l]) \<le> ch_cap (heap h ! r)"
    using hub_run_Cons.prems(4) by (simp add: published_Cons [of l ls])
  have l: "l \<noteq> Unsubscribed i" using hub_run_Cons.prems(3) by auto
  note s = hub_step_lossless [OF hub_run_Cons.hyps(1) hub_run_Cons.prems(1,2) l room]
  note b = hub_step_buffer [OF hub_run_Cons.hyps(1) hub_run_Cons.prems(1) r(2)]
  have "length (buffered h1 r @ published ls) \<le> ch_cap (heap h1 ! r)"
    using hub_run_Cons.prems(4) b(3) arg_cong [OF s(2), of length]
    by (simp add: published_Cons [of l ls])
  then have "received r ls @ buffered h2 r = buffered h1 r @ published ls"
    using hub_run_Cons.IH hub_step_inv [OF hub_run_Cons.hyps(1) hub_run_Cons.prems(1)] s(1)
      hub_run_Cons.prems(3) by simp
  then show ?case
    using s(2) by (simp add: received_Cons [of r l ls] published_Cons [of l ls])
qed simp

section \<open>Properties\<close>

text \<open>
  C36. No run of the hub from its start can panic: whatever is subscribed, unsubscribed
  (twice, too), published and received, the next publish never sends on a closed channel,
  the next unsubscribe never closes one twice, and no channel exceeds its capacity.
\<close>

theorem hub_never_panics:
  assumes "hub_run new_hub ls h" and "range_order (subscribers h) order"
  shows "publish_loop order e h \<noteq> None \<and> hub_unsubscribe i h \<noteq> None \<and>
    (\<forall>r < length (heap h). length (buffered h r) \<le> ch_cap (heap h ! r))"
proof -
  have inv: "hub_inv h"
    using hub_run_inv [OF assms(1) hub_inv_new] .
  show ?thesis
    using publish_loop_effect [OF inv, of order e] hub_unsubscribe_ok [OF inv, of i]
      hub_inv_chan [OF inv] assms(2)
    by (auto simp: range_order_def)
qed

lemma hub_run_example:
  "hub_run new_hub [Subscribed 0 0 0, Published (7::nat), Unsubscribed 0, Unsubscribed 0]
     \<lparr>subscribers = Map.empty, next_id = 1,
      heap = [\<lparr>ch_buf = [7], ch_cap = 1, ch_closed = True\<rparr>]\<rparr>"
  by (rule hub_run_Cons hub_run_Nil hub_step.subscribe [where buffer = 0]
      hub_step.unsubscribe hub_step.publish [where order = "[0]"]
    | simp add: hub_subscribe_def new_hub_def range_order_def try_send_def
        hub_unsubscribe_def close_chan_def Let_def)+

theorem hub_never_panics_witness:
  "publish_loop [] (8::nat) \<lparr>subscribers = Map.empty, next_id = 1,
      heap = [\<lparr>ch_buf = [7], ch_cap = 1, ch_closed = True\<rparr>]\<rparr> \<noteq> None"
  using hub_never_panics [OF hub_run_example, of "[]" 8 0] by (simp add: range_order_def)

text \<open>
  Publishing is one effect on every subscriber, whatever order the runtime visits the
  map in: each open subscription gets the event if its buffer has room and misses it
  otherwise, every other channel and the subscriptions are untouched, so two visiting orders
  give the same hub.
\<close>

theorem publish_effect:
  assumes "hub_inv h" and "range_order (subscribers h) order" and "range_order (subscribers h) order'"
  shows "publish_loop order e h = publish_loop order' e h \<and>
    (\<exists>h'. publish_loop order e h = Some h' \<and> subscribers h' = subscribers h \<and>
      (\<forall>r < length (heap h). heap h' ! r =
         (if r \<in> ran (subscribers h) then offer e (heap h ! r) else heap h ! r)))"
proof -
  have reach: "(\<exists>i \<in> set os. subscribers h i = Some r) \<longleftrightarrow> r \<in> ran (subscribers h)"
    if "range_order (subscribers h) os" for os r
    using that by (auto simp: range_order_def ran_def)
  obtain h1 where h1: "publish_loop order e h = Some h1" "subscribers h1 = subscribers h"
    "next_id h1 = next_id h" "length (heap h1) = length (heap h)"
    "\<forall>r < length (heap h). heap h1 ! r =
       (if r \<in> ran (subscribers h) then offer e (heap h ! r) else heap h ! r)"
    using publish_loop_effect [OF assms(1), of order e] assms(2) reach [OF assms(2)]
    by (auto simp: range_order_def)
  obtain h2 where h2: "publish_loop order' e h = Some h2" "subscribers h2 = subscribers h"
    "next_id h2 = next_id h" "length (heap h2) = length (heap h)"
    "\<forall>r < length (heap h). heap h2 ! r =
       (if r \<in> ran (subscribers h) then offer e (heap h ! r) else heap h ! r)"
    using publish_loop_effect [OF assms(1), of order' e] assms(3) reach [OF assms(3)]
    by (auto simp: range_order_def)
  have "h1 = h2"
    using h1 h2 by (intro hub.equality nth_equalityI) auto
  then show ?thesis using h1 h2 by auto
qed

definition two_subscribers :: "nat hub" where
  "two_subscribers =
     \<lparr>subscribers = [0 \<mapsto> 0, 1 \<mapsto> 1], next_id = 2,
      heap = [\<lparr>ch_buf = [], ch_cap = 1, ch_closed = False\<rparr>,
              \<lparr>ch_buf = [3], ch_cap = 1, ch_closed = False\<rparr>]\<rparr>"

lemma two_subscribers_inv: "hub_inv two_subscribers"
  by (rule hub_invI) (auto simp: two_subscribers_def split: if_splits)

theorem publish_effect_witness:
  "publish_loop [0, 1] 9 two_subscribers = publish_loop [1, 0] 9 two_subscribers"
  using publish_effect [OF two_subscribers_inv, of "[0, 1]" "[1, 0]" 9]
  by (auto simp: range_order_def two_subscribers_def)

text \<open>
  C35. A subscriber sees the events in the order they were published: over any run, what it
  received followed by what is still buffered is a subsequence of what was buffered followed
  by what was published; and as long as its subscription lasts and the buffer is large enough
  for all of it, nothing is dropped.
\<close>

theorem hub_delivery:
  assumes "hub_run h ls h'" and "hub_inv h" and "subscribers h i = Some r"
  shows "subseq (received r ls @ buffered h' r) (buffered h r @ published ls) \<and>
    (Unsubscribed i \<notin> set ls \<and> length (buffered h r @ published ls) \<le> ch_cap (heap h ! r) \<longrightarrow>
       received r ls @ buffered h' r = buffered h r @ published ls)"
  using hub_run_buffer [OF assms(1,2) hub_invD(2) [OF assms(2,3)]]
    hub_run_lossless [OF assms] by auto

definition one_subscriber :: "nat list \<Rightarrow> nat hub" where
  "one_subscriber xs = \<lparr>subscribers = [0 \<mapsto> 0], next_id = 1,
     heap = [\<lparr>ch_buf = xs, ch_cap = 2, ch_closed = False\<rparr>]\<rparr>"

theorem hub_delivery_witness:
  "received 0 [Published 5, Received 0 5, Published (6::nat)] @ buffered (one_subscriber [6]) 0 = [5, 6]"
proof -
  have "hub_run (one_subscriber []) [Published 5, Received 0 5, Published 6] (one_subscriber [6])"
    by (rule hub_run_Cons hub_run_Nil hub_step.receive hub_step.publish [where order = "[0]"]
      | simp add: one_subscriber_def range_order_def try_send_def chan_recv_def)+
  moreover have "hub_inv (one_subscriber [])"
    by (rule hub_invI) (auto simp: one_subscriber_def split: if_splits)
  ultimately show ?thesis
    using hub_delivery [of "one_subscriber []" _ "one_subscriber [6]" 0 0]
    by (simp add: one_subscriber_def)
qed

end
