(* ===== verification/ConfigStore.thy ===== *)
theory ConfigStore
  imports GoUnmarshal
begin

text \<open>
  The state file (\<open>internal/store/store.go\<close>): the configuration record, its JSON form by the
  struct tags, and the store that loads it, saves it through a temporary file and a rename,
  and updates it under a mutex, so each operation is one step. System calls draw their
  outcome from a sequence of faults; a failed \<open>WriteFile\<close> leaves any contents in the
  temporary file.
\<close>

section \<open>The configuration\<close>

record client =
  cl_id :: string
  cl_name :: string
  cl_type :: string
  cl_scopes :: "string list"
  cl_token_jti :: string
  cl_created_at :: go_time
  cl_last_seen :: go_time
  cl_revoked :: bool

record pending_pair_code =
  pc_code :: string
  pc_scopes :: "string list"
  pc_expires_at :: go_time

record pending_session =
  ps_id :: string
  ps_code :: string
  ps_client_name :: string
  ps_client_type :: string
  ps_status :: string
  ps_token :: string
  ps_client_id :: string
  ps_scopes :: "string list"
  ps_expires_at :: go_time

record webhook =
  wh_id :: string
  wh_url :: string
  wh_events :: "string list"
  wh_created_at :: go_time

record config =
  cfg_server_name :: string
  cfg_clients :: "client list"
  cfg_webhooks :: "webhook list"
  cfg_pairing_codes :: "pending_pair_code list"
  cfg_sessions :: "pending_session list"
  cfg_last_watch_rowid :: int64

text \<open>Go's zero values; the zero time is the first instant of year 1.\<close>

definition zero_time :: go_time where
  "zero_time = - 62135596800000000000"

definition zero_client :: client where
  "zero_client = \<lparr>cl_id = [], cl_name = [], cl_type = [], cl_scopes = [], cl_token_jti = [],
     cl_created_at = zero_time, cl_last_seen = zero_time, cl_revoked = False\<rparr>"

definition zero_pair_code :: pending_pair_code where
  "zero_pair_code = \<lparr>pc_code = [], pc_scopes = [], pc_expires_at = zero_time\<rparr>"

definition zero_session :: pending_session where
  "zero_session = \<lparr>ps_id = [], ps_code = [], ps_client_name = [], ps_client_type = [], ps_status = [],
     ps_token = [], ps_client_id = [], ps_scopes = [], ps_expires_at = zero_time\<rparr>"

definition zero_webhook :: webhook where
  "zero_webhook = \<lparr>wh_id = [], wh_url = [], wh_events = [], wh_created_at = zero_time\<rparr>"

definition zero_config :: config where
  "zero_config = \<lparr>cfg_server_name = [], cfg_clients = [], cfg_webhooks = [], cfg_pairing_codes = [],
     cfg_sessions = [], cfg_last_watch_rowid = 0\<rparr>"

section \<open>Its JSON form\<close>

definition client_json :: "client \<Rightarrow> json" where
  "client_json c = JObj
     [(''id'', JStr (cl_id c)), (''name'', JStr (cl_name c)), (''type'', JStr (cl_type c)),
      (''scopes'', slice_json JStr (cl_scopes c)), (''token_jti'', JStr (cl_token_jti c)),
      (''created_at'', time_json (cl_created_at c)), (''last_seen'', time_json (cl_last_seen c)),
      (''revoked'', JBool (cl_revoked c))]"

definition client_fields :: "client field list" where
  "client_fields =
     [(''id'', string_field cl_id_update), (''name'', string_field cl_name_update),
      (''type'', string_field cl_type_update), (''scopes'', slice_field string_elem cl_scopes_update),
      (''token_jti'', string_field cl_token_jti_update),
      (''created_at'', time_field cl_created_at_update),
      (''last_seen'', time_field cl_last_seen_update), (''revoked'', bool_field cl_revoked_update)]"

definition pair_code_json :: "pending_pair_code \<Rightarrow> json" where
  "pair_code_json p = JObj
     [(''code'', JStr (pc_code p)), (''scopes'', slice_json JStr (pc_scopes p)),
      (''expires_at'', time_json (pc_expires_at p))]"

definition pair_code_fields :: "pending_pair_code field list" where
  "pair_code_fields =
     [(''code'', string_field pc_code_update), (''scopes'', slice_field string_elem pc_scopes_update),
      (''expires_at'', time_field pc_expires_at_update)]"

definition session_json :: "pending_session \<Rightarrow> json" where
  "session_json s = JObj
     ([(''id'', JStr (ps_id s)), (''code'', JStr (ps_code s)),
       (''client_name'', JStr (ps_client_name s)), (''client_type'', JStr (ps_client_type s)),
       (''status'', JStr (ps_status s))] @
      omit_empty (ps_token s = []) ''token'' (JStr (ps_token s)) @
      omit_empty (ps_client_id s = []) ''client_id'' (JStr (ps_client_id s)) @
      omit_empty (ps_scopes s = []) ''scopes'' (slice_json JStr (ps_scopes s)) @
      [(''expires_at'', time_json (ps_expires_at s))])"

definition session_fields :: "pending_session field list" where
  "session_fields =
     [(''id'', string_field ps_id_update), (''code'', string_field ps_code_update),
      (''client_name'', string_field ps_client_name_update),
      (''client_type'', string_field ps_client_type_update),
      (''status'', string_field ps_status_update), (''token'', string_field ps_token_update),
      (''client_id'', string_field ps_client_id_update),
      (''scopes'', slice_field string_elem ps_scopes_update),
      (''expires_at'', time_field ps_expires_at_update)]"

definition webhook_json :: "webhook \<Rightarrow> json" where
  "webhook_json h = JObj
     [(''id'', JStr (wh_id h)), (''url'', JStr (wh_url h)),
      (''events'', slice_json JStr (wh_events h)), (''created_at'', time_json (wh_created_at h))]"

definition webhook_fields :: "webhook field list" where
  "webhook_fields =
     [(''id'', string_field wh_id_update), (''url'', string_field wh_url_update),
      (''events'', slice_field string_elem wh_events_update),
      (''created_at'', time_field wh_created_at_update)]"

definition config_json :: "config \<Rightarrow> json" where
  "config_json c = JObj
     (omit_empty (cfg_server_name c = []) ''server_name'' (JStr (cfg_server_name c)) @
      omit_empty (cfg_clients c = []) ''clients'' (slice_json client_json (cfg_clients c)) @
      omit_empty (cfg_webhooks c = []) ''webhooks'' (slice_json webhook_json (cfg_webhooks c)) @
      omit_empty (cfg_pairing_codes c = []) ''pending_pairing_codes''
        (slice_json pair_code_json (cfg_pairing_codes c)) @
      omit_empty (cfg_sessions c = []) ''pending_sessions'' (slice_json session_json (cfg_sessions c)) @
      [(''last_watch_rowid'', int64_json (cfg_last_watch_rowid c))])"

definition config_fields :: "config field list" where
  "config_fields =
     [(''server_name'', string_field cfg_server_name_update),
      (''clients'', slice_field (\<lambda>j. unmarshal_struct client_fields j zero_client) cfg_clients_update),
      (''webhooks'', slice_field (\<lambda>j. unmarshal_struct webhook_fields j zero_webhook) cfg_webhooks_update),
      (''pending_pairing_codes'',
        slice_field (\<lambda>j. unmarshal_struct pair_code_fields j zero_pair_code) cfg_pairing_codes_update),
      (''pending_sessions'',
        slice_field (\<lambda>j. unmarshal_struct session_fields j zero_session) cfg_sessions_update),
      (''last_watch_rowid'', int64_field cfg_last_watch_rowid_update)]"

text \<open>\<open>time.Time\<close> refuses to marshal outside the years 0 to 9999; nothing else can fail.\<close>

definition marshalable :: "config \<Rightarrow> bool" where
  "marshalable c \<longleftrightarrow>
     list_all (\<lambda>x. time_in_range (cl_created_at x) \<and> time_in_range (cl_last_seen x)) (cfg_clients c) \<and>
     list_all (\<lambda>x. time_in_range (wh_created_at x)) (cfg_webhooks c) \<and>
     list_all (\<lambda>x. time_in_range (pc_expires_at x)) (cfg_pairing_codes c) \<and>
     list_all (\<lambda>x. time_in_range (ps_expires_at x)) (cfg_sessions c)"

definition config_text :: "config \<Rightarrow> string" where
  "config_text c = json_text True (config_json c) @ [CHR 0x0A]"

definition parse_config :: "string \<Rightarrow> config option" where
  "parse_config raw =
     Option.bind (parse_json raw) (\<lambda>j. unmarshal_struct config_fields j zero_config)"

section \<open>Reading back\<close>

lemmas json_defs =
  client_json_def client_fields_def pair_code_json_def pair_code_fields_def
  session_json_def session_fields_def webhook_json_def webhook_fields_def

lemma unmarshal_client [unmarshal_simps]:
  "time_in_range (cl_created_at c) \<and> time_in_range (cl_last_seen c) \<Longrightarrow>
     unmarshal_struct client_fields (client_json c) zero_client = Some c"
  by (simp add: json_defs find_field_def unmarshal_simps zero_client_def)

lemma unmarshal_pair_code [unmarshal_simps]:
  "time_in_range (pc_expires_at p) \<Longrightarrow>
     unmarshal_struct pair_code_fields (pair_code_json p) zero_pair_code = Some p"
  by (simp add: json_defs find_field_def unmarshal_simps zero_pair_code_def)

lemma unmarshal_webhook [unmarshal_simps]:
  "time_in_range (wh_created_at h) \<Longrightarrow>
     unmarshal_struct webhook_fields (webhook_json h) zero_webhook = Some h"
  by (simp add: json_defs find_field_def unmarshal_simps zero_webhook_def)

lemma unmarshal_session [unmarshal_simps]:
  "time_in_range (ps_expires_at s) \<Longrightarrow>
     unmarshal_struct session_fields (session_json s) zero_session = Some s"
  by (cases s) (simp add: json_defs find_field_def unmarshal_simps zero_session_def)

lemma unmarshal_config:
  assumes "marshalable c"
  shows "unmarshal_struct config_fields (config_json c) zero_config = Some c"
proof -
  note [simp] = unmarshal_simps
  show ?thesis
    using assms
    by (cases c) (simp add: config_json_def config_fields_def find_field_def
        zero_config_def marshalable_def list_all_iff)
qed

lemma writable_config: "writable (config_json c)"
  by (simp add: config_json_def json_defs)

lemma parse_config_text: "marshalable c \<Longrightarrow> parse_config (config_text c) = Some c"
  by (simp add: parse_config_def config_text_def parse_json_text writable_config is_ws_def
      unmarshal_config)

section \<open>The store\<close>

text \<open>
  A fault of a system call: the error's text, and what a failed write leaves in the file.
\<close>

record fault =
  fault_text :: string
  fault_torn :: "string option"

record disk =
  config_file :: "string option"
  config_tmp :: "string option"

record world =
  w_eff :: effects
  w_faults :: "nat \<Rightarrow> fault option"
  w_disk :: disk

type_synonym 'a op = "world \<Rightarrow> 'a res \<times> world"

definition syscall :: "world \<Rightarrow> fault option \<times> world" where
  "syscall w = (w_faults w 0, w\<lparr>w_faults := (\<lambda>i. w_faults w (Suc i))\<rparr>)"

text \<open>An effect outside the store: a clock reading or random bytes.\<close>

definition with_eff :: "'a eff \<Rightarrow> world \<Rightarrow> 'a \<times> world" where
  "with_eff m w = (case m (w_eff w) of (a, e) \<Rightarrow> (a, w\<lparr>w_eff := e\<rparr>))"

text \<open>\<open>Load\<close> and \<open>loadLocked\<close> differ in who holds the mutex only.\<close>

definition store_load :: "config op" where
  "store_load w =
     (case syscall w of
        (Some f, w) \<Rightarrow> (Inl (ErrMsg (''read config: '' @ fault_text f)), w)
      | (None, w) \<Rightarrow>
          (case config_file (w_disk w) of
             None \<Rightarrow> (Inr zero_config, w)
           | Some raw \<Rightarrow>
               (case parse_config raw of
                  None \<Rightarrow> (Inl (ErrMsg ''decode config''), w)
                | Some cfg \<Rightarrow> (Inr cfg, w))))"

definition set_tmp :: "string option \<Rightarrow> world \<Rightarrow> world" where
  "set_tmp raw w = w\<lparr>w_disk := (w_disk w)\<lparr>config_tmp := raw\<rparr>\<rparr>"

text \<open>\<open>saveLocked\<close>: make the directory, encode, write the temporary file, rename it.\<close>

definition store_save :: "config \<Rightarrow> unit op" where
  "store_save cfg w =
     (case syscall w of
        (Some f, w) \<Rightarrow> (Inl (ErrMsg (''create config dir: '' @ fault_text f)), w)
      | (None, w) \<Rightarrow>
          if \<not> marshalable cfg then (Inl (ErrMsg ''encode config''), w)
          else
            (case syscall w of
               (Some f, w) \<Rightarrow>
                 (Inl (ErrMsg (''write temp config: '' @ fault_text f)), set_tmp (fault_torn f) w)
             | (None, w) \<Rightarrow>
                 (case syscall (set_tmp (Some (config_text cfg)) w) of
                    (Some f, w) \<Rightarrow> (Inl (ErrMsg (''rename config: '' @ fault_text f)), w)
                  | (None, w) \<Rightarrow>
                      (Inr (), w\<lparr>w_disk := \<lparr>config_file = Some (config_text cfg),
                                             config_tmp = None\<rparr>\<rparr>))))"

text \<open>
  \<open>Update\<close>: the function gets the loaded configuration and may read the clock and random
  bytes; what it hands back through captured variables is its second result. \<open>slices.Clip\<close>
  changes capacities only.
\<close>

definition store_update ::
  "(config \<Rightarrow> (config \<times> 'a) res eff) \<Rightarrow> (config \<times> 'a) op" where
  "store_update fn w =
     (case store_load w of
        (Inl e, w) \<Rightarrow> (Inl e, w)
      | (Inr cfg, w) \<Rightarrow>
          (case with_eff (fn cfg) w of
             (Inl e, w) \<Rightarrow> (Inl e, w)
           | (Inr (cfg', a), w) \<Rightarrow>
               (case store_save cfg' w of
                  (Inl e, w) \<Rightarrow> (Inl e, w)
                | (Inr u, w) \<Rightarrow> (Inr (cfg', a), w))))"

text \<open>The configuration a disk holds: what a load that meets no fault returns.\<close>

definition stored :: "world \<Rightarrow> config option" where
  "stored w =
     (case config_file (w_disk w) of
        None \<Rightarrow> Some zero_config
      | Some raw \<Rightarrow> parse_config raw)"

definition no_faults :: "world \<Rightarrow> bool" where
  "no_faults w \<longleftrightarrow> (\<forall>i. w_faults w i = None)"

lemma stored_cong: "config_file (w_disk w') = config_file (w_disk w) \<Longrightarrow> stored w' = stored w"
  by (simp add: stored_def)

lemma syscall_simps [simp]:
  "w_disk (snd (syscall w)) = w_disk w" "w_eff (snd (syscall w)) = w_eff w"
  by (simp_all add: syscall_def)

lemma syscall_pair:
  "syscall w = (f, w') \<Longrightarrow> w_disk w' = w_disk w \<and> w_eff w' = w_eff w \<and> (no_faults w \<longrightarrow> f = None \<and> no_faults w')"
  by (auto simp: syscall_def no_faults_def)

lemma store_load_frame: "store_load w = (r, w') \<Longrightarrow> w_disk w' = w_disk w \<and> w_eff w' = w_eff w"
  by (auto simp: store_load_def split: prod.splits option.splits dest: syscall_pair)

lemma store_load_ok: "store_load w = (Inr cfg, w') \<Longrightarrow> stored w = Some cfg"
  by (auto simp: store_load_def stored_def split: prod.splits option.splits dest: syscall_pair)

lemma store_load_healthy:
  assumes "no_faults w" and "stored w = Some cfg"
  shows "\<exists>w'. store_load w = (Inr cfg, w') \<and> no_faults w' \<and> w_disk w' = w_disk w \<and> w_eff w' = w_eff w"
proof -
  obtain f w1 where s: "syscall w = (f, w1)" by fastforce
  with syscall_pair [OF s] assms show ?thesis
    by (auto simp: store_load_def stored_def split: option.splits)
qed

lemma store_save_fail:
  "store_save cfg w = (Inl e, w') \<Longrightarrow> config_file (w_disk w') = config_file (w_disk w)"
  by (auto simp: store_save_def set_tmp_def split: prod.splits option.splits if_splits
      dest!: syscall_pair)

lemma store_save_ok:
  "store_save cfg w = (Inr u, w') \<Longrightarrow>
     marshalable cfg \<and> config_file (w_disk w') = Some (config_text cfg) \<and> w_eff w' = w_eff w"
  by (auto simp: store_save_def set_tmp_def split: prod.splits option.splits if_splits
      dest!: syscall_pair)

lemma store_save_healthy:
  assumes "no_faults w" and "marshalable cfg"
  shows "\<exists>w'. store_save cfg w = (Inr (), w') \<and> no_faults w'"
proof -
  obtain f1 w1 where s1: "syscall w = (f1, w1)" by fastforce
  obtain f2 w2 where s2: "syscall w1 = (f2, w2)" by fastforce
  obtain f3 w3 where s3: "syscall (set_tmp (Some (config_text cfg)) w2) = (f3, w3)" by fastforce
  have t: "no_faults (set_tmp raw v) = no_faults v" for raw v
    by (simp add: no_faults_def set_tmp_def)
  have d: "no_faults (w3\<lparr>w_disk := x\<rparr>) = no_faults w3" for x
    by (simp add: no_faults_def)
  show ?thesis
    using syscall_pair [OF s1] syscall_pair [OF s2] syscall_pair [OF s3] assms
    by (simp add: store_save_def s1 s2 s3 t d)
qed

text \<open>The ways an update can go: where it stopped, or that it went through.\<close>

lemma store_update_cases:
  obtains (load_failed) e w1 where "store_load w = (Inl e, w1)" "store_update fn w = (Inl e, w1)"
  | (fn_failed) c0 w1 e w2 where "store_load w = (Inr c0, w1)" "with_eff (fn c0) w1 = (Inl e, w2)"
      "store_update fn w = (Inl e, w2)"
  | (save_failed) c0 w1 c a w2 e w3 where "store_load w = (Inr c0, w1)"
      "with_eff (fn c0) w1 = (Inr (c, a), w2)" "store_save c w2 = (Inl e, w3)"
      "store_update fn w = (Inl e, w3)"
  | (committed) c0 w1 c a w2 w3 where "store_load w = (Inr c0, w1)"
      "with_eff (fn c0) w1 = (Inr (c, a), w2)" "store_save c w2 = (Inr (), w3)"
      "store_update fn w = (Inr (c, a), w3)"
proof -
  obtain r1 w1 where l: "store_load w = (r1, w1)" by (cases "store_load w")
  show thesis
  proof (cases r1)
    case (Inl e)
    with l load_failed show thesis by (simp add: store_update_def)
  next
    case (Inr c0)
    obtain r2 w2 where m: "with_eff (fn c0) w1 = (r2, w2)" by (cases "with_eff (fn c0) w1")
    show thesis
    proof (cases r2)
      case (Inl e)
      with l m Inr fn_failed show thesis by (simp add: store_update_def)
    next
      case r2: (Inr ca)
      obtain c a where ca: "ca = (c, a)" by (cases ca)
      obtain r3 w3 where s: "store_save c w2 = (r3, w3)" by (cases "store_save c w2")
      show thesis
        by (cases r3) (use l m s Inr r2 ca save_failed committed in \<open>simp_all add: store_update_def\<close>)
    qed
  qed
qed

lemma with_eff_disk: "with_eff m w = (r, w') \<Longrightarrow> w_disk w' = w_disk w \<and> m (w_eff w) = (r, w_eff w')"
  by (auto simp: with_eff_def split: prod.splits)

lemma store_update_commit:
  assumes "store_update fn w = (Inr (c, a), w')"
  shows "stored w' = Some c \<and> marshalable c \<and>
    (\<exists>c0. stored w = Some c0 \<and> fn c0 (w_eff w) = (Inr (c, a), w_eff w'))"
proof -
  obtain c0 w1 w2 where u: "store_load w = (Inr c0, w1)" "with_eff (fn c0) w1 = (Inr (c, a), w2)"
    "store_save c w2 = (Inr (), w')"
    using assms by (cases rule: store_update_cases [of w fn]) auto
  have "w_eff w1 = w_eff w" using store_load_frame [OF u(1)] by simp
  then have "fn c0 (w_eff w) = (Inr (c, a), w_eff w2)"
    using with_eff_disk [OF u(2)] by simp
  with store_save_ok [OF u(3)] store_load_ok [OF u(1)] show ?thesis
    by (simp add: stored_def [of w'] parse_config_text)
qed

lemma store_update_abort:
  assumes "store_update fn w = (Inl e, w')"
  shows "stored w' = stored w"
  using assms
  by (cases rule: store_update_cases [of w fn])
    (auto intro!: stored_cong dest!: store_load_frame with_eff_disk store_save_fail)

section \<open>The contract of a store\<close>

text \<open>
  What the services rely on. \<open>contents\<close> is the configuration the store holds, \<open>eff\<close> the
  effects still to come; a successful update commits exactly what the function returned, a
  failed one leaves the contents, and without faults an update fails only if its function does.
\<close>

locale config_store =
  fixes load :: "'w \<Rightarrow> 'c res \<times> 'w"
    and update :: "('c \<Rightarrow> ('c \<times> 'a) res eff) \<Rightarrow> 'w \<Rightarrow> ('c \<times> 'a) res \<times> 'w"
    and contents :: "'w \<Rightarrow> 'c option"
    and eff :: "'w \<Rightarrow> effects"
    and healthy :: "'w \<Rightarrow> bool"
    and storable :: "'c \<Rightarrow> bool"
  assumes load_ok: "load w = (Inr c, w') \<Longrightarrow> contents w = Some c"
    and load_frame: "load w = (r, w') \<Longrightarrow> contents w' = contents w \<and> eff w' = eff w"
    and load_healthy: "healthy w \<Longrightarrow> contents w = Some c \<Longrightarrow>
      \<exists>w'. load w = (Inr c, w') \<and> healthy w'"
    and update_commit: "update fn w = (Inr (c, a), w') \<Longrightarrow>
      contents w' = Some c \<and> storable c \<and>
      (\<exists>c0. contents w = Some c0 \<and> fn c0 (eff w) = (Inr (c, a), eff w'))"
    and update_abort: "update fn w = (Inl e, w') \<Longrightarrow> contents w' = contents w"
    and update_healthy: "healthy w \<Longrightarrow> contents w = Some c0 \<Longrightarrow>
      fn c0 (eff w) = (Inr (c, a), e') \<Longrightarrow> storable c \<Longrightarrow>
      \<exists>w'. update fn w = (Inr (c, a), w') \<and> healthy w'"
    and update_healthy_error: "healthy w \<Longrightarrow> contents w = Some c0 \<Longrightarrow>
      fn c0 (eff w) = (Inl err, e') \<Longrightarrow> \<exists>w'. update fn w = (Inl err, w') \<and> healthy w'"
begin

text \<open>A property of the contents that the function keeps is kept by the update, faults or not.\<close>

lemma update_preserves:
  assumes "update fn w = (r, w')" and "pred_option P (contents w)"
    and "\<And>c0 e c a e'. P c0 \<Longrightarrow> fn c0 e = (Inr (c, a), e') \<Longrightarrow> P c"
  shows "pred_option P (contents w')"
proof (cases r)
  case (Inl e)
  then show ?thesis using update_abort assms(1,2) by simp
next
  case (Inr ca)
  then obtain c a where ca: "r = Inr (c, a)" by (cases ca) auto
  with assms show ?thesis using update_commit [of fn w c a w'] by fastforce
qed

text \<open>What an update committed is what the next load returns.\<close>

lemma load_after_update:
  assumes "update fn w = (Inr (c, a), w1)" and "load w1 = (Inr c', w2)"
  shows "c' = c"
  using update_commit [OF assms(1)] load_ok [OF assms(2)] by simp

text \<open>An update either fails and changes nothing or commits the function's result.\<close>

lemma update_cases:
  assumes "update fn w = (r, w')"
  shows "(\<exists>e. r = Inl e \<and> contents w' = contents w) \<or>
    (\<exists>c0 c a. r = Inr (c, a) \<and> contents w = Some c0 \<and> fn c0 (eff w) = (Inr (c, a), eff w') \<and>
       contents w' = Some c \<and> storable c)"
proof (cases r)
  case (Inl e)
  then show ?thesis using update_abort assms by simp
next
  case (Inr ca)
  then obtain c a where ca: "r = Inr (c, a)" by (cases ca) auto
  with assms show ?thesis using update_commit [of fn w c a w'] by blast
qed

end

interpretation state: config_store store_load store_update stored w_eff no_faults marshalable
proof
  show "store_load w = (Inr c, w') \<Longrightarrow> stored w = Some c" for w c w'
    by (rule store_load_ok)
  show "store_load w = (r, w') \<Longrightarrow> stored w' = stored w \<and> w_eff w' = w_eff w" for w r w'
    using store_load_frame [of w r w'] by (simp add: stored_def)
  show "no_faults w \<Longrightarrow> stored w = Some c \<Longrightarrow> \<exists>w'. store_load w = (Inr c, w') \<and> no_faults w'" for w c
    using store_load_healthy by blast
  show "stored w' = Some c \<and> marshalable c \<and>
      (\<exists>c0. stored w = Some c0 \<and> fn c0 (w_eff w) = (Inr (c, a), w_eff w'))"
    if "store_update fn w = (Inr (c, a), w')" for fn :: "config \<Rightarrow> (config \<times> 'a) res eff" and w c a w'
    using that by (rule store_update_commit)
  show "stored w' = stored w" if "store_update fn w = (Inl e, w')"
    for fn :: "config \<Rightarrow> (config \<times> 'a) res eff" and w e w'
    using that by (rule store_update_abort)
  show "\<exists>w'. store_update fn w = (Inr (c, a), w') \<and> no_faults w'"
    if h: "no_faults w" "stored w = Some c0" "fn c0 (w_eff w) = (Inr (c, a), e')" "marshalable c"
    for fn :: "config \<Rightarrow> (config \<times> 'a) res eff" and w c0 c a e'
  proof -
    obtain w1 where w1: "store_load w = (Inr c0, w1)" "no_faults w1" "w_eff w1 = w_eff w"
      using store_load_healthy [OF h(1,2)] by blast
    obtain w2 where "store_save c (w1\<lparr>w_eff := e'\<rparr>) = (Inr (), w2)" "no_faults w2"
      using store_save_healthy [of "w1\<lparr>w_eff := e'\<rparr>", OF _ h(4)] w1(2) by (auto simp: no_faults_def)
    then show ?thesis using h(3) w1 by (simp add: store_update_def with_eff_def)
  qed
  show "\<exists>w'. store_update fn w = (Inl err, w') \<and> no_faults w'"
    if h: "no_faults w" "stored w = Some c0" "fn c0 (w_eff w) = (Inl err, e')"
    for fn :: "config \<Rightarrow> (config \<times> 'a) res eff" and w c0 err e'
  proof -
    obtain w1 where w1: "store_load w = (Inr c0, w1)" "no_faults w1" "w_eff w1 = w_eff w"
      using store_load_healthy [OF h(1,2)] by blast
    then show ?thesis using h(3) by (simp add: store_update_def with_eff_def no_faults_def)
  qed
qed

section \<open>Properties\<close>

text \<open>
  C30. The text of the state file, indented JSON by the struct tags with omitted empty fields
  and RFC 3339 times, reads back as the configuration it was written from, whatever its
  clients, webhooks, codes and sessions, as long as the times lie in the years 0 to 9999.
\<close>

theorem config_roundtrip:
  assumes "marshalable cfg"
  shows "parse_config (config_text cfg) = Some cfg"
  using assms by (rule parse_config_text)

definition sample_client :: client where
  "sample_client = zero_client\<lparr>cl_id := ''c_1'', cl_name := [CHR ''a'', CHR 0x22, CHR 0x0A],
     cl_scopes := [''read''], cl_created_at := 1, cl_last_seen := 1700000000123456789\<rparr>"

definition sample_config :: config where
  "sample_config = zero_config\<lparr>cfg_clients := [sample_client], cfg_last_watch_rowid := 42\<rparr>"

theorem config_roundtrip_witness:
  "parse_config (config_text sample_config) = Some sample_config"
  by (rule config_roundtrip)
    (simp add: marshalable_def sample_config_def sample_client_def zero_config_def zero_client_def
      time_in_range_def epoch_day_def day_ns_def)

text \<open>
  C20. An update of the store is atomic, whichever system calls fail: either it returns an
  error and the configuration on disk is the one before, or it returns the function's result
  and the configuration on disk is exactly that; what it committed is what the next load
  returns. Without a fault an update whose function succeeds does succeed.
\<close>

theorem store_update_atomic:
  assumes "store_update fn w = (r, w')"
  shows "((\<exists>e. r = Inl e \<and> stored w' = stored w) \<or>
      (\<exists>c0 c a. r = Inr (c, a) \<and> stored w = Some c0 \<and> fn c0 (w_eff w) = (Inr (c, a), w_eff w') \<and>
         stored w' = Some c \<and> (\<forall>c' w''. store_load w' = (Inr c', w'') \<longrightarrow> c' = c))) \<and>
    (\<forall>c0 c a e'. no_faults w \<and> stored w = Some c0 \<and> fn c0 (w_eff w) = (Inr (c, a), e') \<and>
       marshalable c \<longrightarrow> r = Inr (c, a))"
  using state.update_cases [OF assms] state.update_healthy [of w _ fn] assms
  by (fastforce dest: state.load_ok)

definition quiet_effects :: effects where
  "quiet_effects = \<lparr>clock = (\<lambda>i. int i), entropy = (\<lambda>i. char_of i)\<rparr>"

definition fresh_world :: world where
  "fresh_world = \<lparr>w_eff = quiet_effects, w_faults = (\<lambda>i. None),
     w_disk = \<lparr>config_file = None, config_tmp = None\<rparr>\<rparr>"

definition full_disk_world :: world where
  "full_disk_world = fresh_world\<lparr>w_faults :=
     (\<lambda>i. if i = 2 then Some \<lparr>fault_text = ''no space left on device'', fault_torn = Some ''{''\<rparr> else None)\<rparr>"

definition set_name :: "config \<Rightarrow> (config \<times> unit) res eff" where
  "set_name c e = (Inr (c\<lparr>cfg_server_name := ''mac''\<rparr>, ()), e)"

lemma fresh_world_facts: "no_faults fresh_world" "stored fresh_world = Some zero_config"
  by (simp_all add: fresh_world_def no_faults_def stored_def)

theorem store_update_atomic_witness:
  "fst (store_update set_name fresh_world) = Inr (zero_config\<lparr>cfg_server_name := ''mac''\<rparr>, ()) \<and>
   fst (store_update set_name full_disk_world) =
     Inl (ErrMsg ''write temp config: no space left on device'') \<and>
   stored (snd (store_update set_name full_disk_world)) = Some zero_config"
proof -
  have "fst (store_update set_name fresh_world) = Inr (zero_config\<lparr>cfg_server_name := ''mac''\<rparr>, ())"
    using store_update_atomic [OF surjective_pairing, of set_name fresh_world] fresh_world_facts
    by (simp add: set_name_def marshalable_def zero_config_def)
  moreover have err: "fst (store_update set_name full_disk_world) =
      Inl (ErrMsg ''write temp config: no space left on device'')"
    by (simp add: store_update_def store_load_def store_save_def syscall_def with_eff_def set_name_def
        full_disk_world_def fresh_world_def marshalable_def zero_config_def)
  moreover have "stored (snd (store_update set_name full_disk_world)) = stored full_disk_world"
    using store_update_atomic [OF surjective_pairing, of set_name full_disk_world] err by simp
  ultimately show ?thesis
    by (simp add: full_disk_world_def fresh_world_def stored_def)
qed

end
