(* ===== verification/Scopes.thy ===== *)
theory Scopes
  imports GoStrings
begin

text \<open>
  Scope lists (\<open>internal/auth/pairing.go\<close>): normalising a list of requested scopes, the
  subset test that guards delegation, and the scope test of the HTTP gate.
\<close>

section \<open>Definitions\<close>

text \<open>The loop of \<open>cleanScopes\<close>; \<open>seen\<close> is the map used as a set.\<close>

fun clean_scopes_loop :: "string list \<Rightarrow> string set \<Rightarrow> string list \<Rightarrow> string list" where
  "clean_scopes_loop [] seen cleaned = cleaned"
| "clean_scopes_loop (scope # rest) seen cleaned =
     (let scope = trim_space scope in
      if scope = '''' then clean_scopes_loop rest seen cleaned
      else if scope \<in> seen then clean_scopes_loop rest seen cleaned
      else clean_scopes_loop rest (insert scope seen) (cleaned @ [scope]))"

definition clean_scopes :: "string list \<Rightarrow> string list" where
  "clean_scopes scopes =
     (if length scopes = 0 then [] else sort (clean_scopes_loop scopes {} []))"

fun scopes_subset_loop :: "string set \<Rightarrow> string list \<Rightarrow> bool" where
  "scopes_subset_loop allowed [] = True"
| "scopes_subset_loop allowed (scope # rest) =
     (if scope \<notin> allowed then False else scopes_subset_loop allowed rest)"

definition scopes_subset :: "string list \<Rightarrow> string list \<Rightarrow> bool" where
  "scopes_subset want have =
     scopes_subset_loop (fold insert have {}) want"

text \<open>The loop of \<open>HasScope\<close> over the scopes of a token's claims.\<close>

fun has_scope :: "string list \<Rightarrow> string \<Rightarrow> bool" where
  "has_scope [] scope = False"
| "has_scope (candidate # rest) scope = (if candidate = scope then True else has_scope rest scope)"

section \<open>What the loops compute\<close>

lemma clean_scopes_loop_set:
  "set (clean_scopes_loop scopes seen cleaned) =
     set cleaned \<union> ((trim_space ` set scopes - {''''}) - seen)"
  by (induction scopes seen cleaned rule: clean_scopes_loop.induct) (auto simp: Let_def)

lemma clean_scopes_loop_distinct:
  "distinct cleaned \<Longrightarrow> set cleaned \<subseteq> seen \<Longrightarrow> distinct (clean_scopes_loop scopes seen cleaned)"
  by (induction scopes seen cleaned rule: clean_scopes_loop.induct) (auto simp: Let_def)

lemma set_clean_scopes: "set (clean_scopes scopes) = trim_space ` set scopes - {''''}"
  by (auto simp: clean_scopes_def clean_scopes_loop_set)

lemma distinct_clean_scopes: "distinct (clean_scopes scopes)"
  by (simp add: clean_scopes_def clean_scopes_loop_distinct)

lemma sorted_clean_scopes: "sorted (clean_scopes scopes)"
  by (simp add: clean_scopes_def)

lemma clean_scopes_eq: "clean_scopes scopes = sorted_list_of_set (trim_space ` set scopes - {''''})"
  by (metis set_clean_scopes distinct_clean_scopes sorted_clean_scopes
      sorted_list_of_set.idem_if_sorted_distinct)

lemma scopes_subset_loop_iff: "scopes_subset_loop allowed want \<longleftrightarrow> set want \<subseteq> allowed"
  by (induction want) auto

lemma scopes_subset_iff: "scopes_subset want have \<longleftrightarrow> set want \<subseteq> set have"
  by (simp add: scopes_subset_def scopes_subset_loop_iff union_set_fold [symmetric])

lemma has_scope_iff: "has_scope scopes scope \<longleftrightarrow> scope \<in> set scopes"
  by (induction scopes) auto

text \<open>Cleaned scopes are trimmed and non-empty, so cleaning them again changes nothing.\<close>

definition clean_list :: "string list \<Rightarrow> bool" where
  "clean_list scopes \<longleftrightarrow>
     sorted scopes \<and> distinct scopes \<and> (\<forall>s \<in> set scopes. s \<noteq> '''' \<and> trim_space s = s)"

lemma clean_list_clean_scopes: "clean_list (clean_scopes scopes)"
  by (auto simp: clean_list_def sorted_clean_scopes distinct_clean_scopes set_clean_scopes)

lemma clean_scopes_clean_list: "clean_list scopes \<Longrightarrow> clean_scopes scopes = scopes"
proof -
  assume c: "clean_list scopes"
  then have "trim_space ` set scopes - {''''} = set scopes"
    by (auto simp: clean_list_def image_iff)
  with c show ?thesis
    by (simp add: clean_scopes_eq clean_list_def sorted_list_of_set.idem_if_sorted_distinct)
qed

lemma clean_scopes_idem [simp]: "clean_scopes (clean_scopes scopes) = clean_scopes scopes"
  by (rule clean_scopes_clean_list) (rule clean_list_clean_scopes)

section \<open>Properties\<close>

text \<open>
  Normalising scopes returns exactly the trimmed, non-blank scopes of the request,
  each once and in byte order, whatever order and repetitions the request had.
\<close>

theorem clean_scopes_correct:
  "clean_scopes scopes = sorted_list_of_set (trim_space ` set scopes - {''''})
   \<and> clean_scopes (clean_scopes scopes) = clean_scopes scopes"
  by (simp add: clean_scopes_eq [symmetric])

end
