(* ===== verification/Tokens.thy ===== *)
theory Tokens
  imports GoUnmarshal Scopes
begin

text \<open>
  Access tokens (\<open>internal/auth/tokens.go\<close>): the claims, minting and verification. The
  Ed25519 key pair is a parameter, its two operations as functions of the message bytes.
\<close>

section \<open>Claims\<close>

record token_claims =
  tc_jti :: string
  tc_sub :: string
  tc_scopes :: "string list"
  tc_issued :: int64
  tc_expiry :: int64

definition zero_claims :: token_claims where
  "zero_claims = \<lparr>tc_jti = [], tc_sub = [], tc_scopes = [], tc_issued = 0, tc_expiry = 0\<rparr>"

definition claims_json :: "token_claims \<Rightarrow> json" where
  "claims_json c = JObj
     [(''jti'', JStr (tc_jti c)), (''sub'', JStr (tc_sub c)),
      (''scopes'', slice_json JStr (tc_scopes c)), (''iat'', int64_json (tc_issued c)),
      (''exp'', int64_json (tc_expiry c))]"

definition claims_fields :: "token_claims field list" where
  "claims_fields =
     [(''jti'', string_field tc_jti_update), (''sub'', string_field tc_sub_update),
      (''scopes'', slice_field string_elem tc_scopes_update),
      (''iat'', int64_field tc_issued_update), (''exp'', int64_field tc_expiry_update)]"

definition claims_text :: "token_claims \<Rightarrow> string" where
  "claims_text c = json_text False (claims_json c)"

definition parse_claims :: "string \<Rightarrow> token_claims option" where
  "parse_claims raw =
     Option.bind (parse_json raw) (\<lambda>j. unmarshal_struct claims_fields j zero_claims)"

lemma parse_claims_text [simp]: "parse_claims (claims_text c) = Some c"
proof -
  have "writable (claims_json c)" by (simp add: claims_json_def)
  moreover have "unmarshal_struct claims_fields (claims_json c) zero_claims = Some c"
    by (simp add: claims_json_def claims_fields_def find_field_def unmarshal_simps zero_claims_def)
  ultimately show ?thesis
    using parse_json_text [of "claims_json c" "[]" False]
    by (simp add: parse_claims_def claims_text_def)
qed

lemma claims_text_not_Nil [simp]: "claims_text c \<noteq> []"
  by (simp add: claims_text_def json_text_def claims_json_def)

section \<open>The token manager\<close>

text \<open>
  \<open>tm_sign\<close> is \<open>ed25519.Sign\<close> with the private key, \<open>tm_verify\<close> is \<open>ed25519.Verify\<close> with the
  public key.
\<close>

record token_manager =
  tm_sign :: "string \<Rightarrow> string"
  tm_verify :: "string \<Rightarrow> string \<Rightarrow> bool"

definition random_id :: "string \<Rightarrow> string eff" where
  "random_id pre e = (case rand_read 12 e of (raw, e) \<Rightarrow> (pre @ ''_'' @ b64_encode raw, e))"

definition mint ::
  "token_manager \<Rightarrow> string \<Rightarrow> string list \<Rightarrow> int \<Rightarrow> (string \<times> token_claims) eff" where
  "mint m client_id scopes ttl e =
     (case time_now e of (now, e) \<Rightarrow>
      case random_id ''t'' e of (jti, e) \<Rightarrow>
        let claims = \<lparr>tc_jti = jti, tc_sub = client_id, tc_scopes = clean_scopes scopes,
                      tc_issued = word_of_int (unix_of now),
                      tc_expiry = word_of_int (unix_of (now + ttl))\<rparr>;
            payload = claims_text claims;
            signature = tm_sign m payload
        in ((b64_encode payload @ ''.'' @ b64_encode signature, claims), e))"

definition verify :: "token_manager \<Rightarrow> string \<Rightarrow> token_claims res eff" where
  "verify m token e =
     (case cut_at (CHR ''.'') token of
        None \<Rightarrow> (Inl (ErrMsg ''token format is invalid''), e)
      | Some (payload_part, sig_part) \<Rightarrow>
          if payload_part = [] \<or> sig_part = [] then (Inl (ErrMsg ''token format is invalid''), e)
          else (case b64_decode payload_part of
             None \<Rightarrow> (Inl (ErrMsg ''token payload is invalid''), e)
           | Some payload \<Rightarrow>
               (case b64_decode sig_part of
                  None \<Rightarrow> (Inl (ErrMsg ''token signature is invalid''), e)
                | Some signature \<Rightarrow>
                    if \<not> tm_verify m payload signature
                    then (Inl (ErrMsg ''token signature did not verify''), e)
                    else (case parse_claims payload of
                       None \<Rightarrow> (Inl (ErrMsg ''token claims are invalid''), e)
                     | Some claims \<Rightarrow>
                         (case time_now e of (now, e) \<Rightarrow>
                            if unix_of now \<ge> sint (tc_expiry claims)
                            then (Inl (ErrMsg ''token is expired''), e)
                            else (Inr claims, e))))))"

text \<open>
  What \<open>ed25519\<close> promises of a key pair: a signature verifies, and it is not empty.
\<close>

definition sound_scheme :: "token_manager \<Rightarrow> bool" where
  "sound_scheme m \<longleftrightarrow> (\<forall>msg. tm_verify m msg (tm_sign m msg) \<and> tm_sign m msg \<noteq> [])"

section \<open>Facts\<close>

text \<open>The token a claims record is sent as.\<close>

definition token_of :: "token_manager \<Rightarrow> token_claims \<Rightarrow> string" where
  "token_of m claims =
     b64_encode (claims_text claims) @ ''.'' @ b64_encode (tm_sign m (claims_text claims))"

text \<open>The reading of a token that \<open>verify\<close> accepts: its signed payload.\<close>

definition signed_payload :: "token_manager \<Rightarrow> string \<Rightarrow> string option" where
  "signed_payload m token =
     (case cut_at (CHR ''.'') token of
        None \<Rightarrow> None
      | Some (p, s) \<Rightarrow>
          if p = [] \<or> s = [] then None
          else Option.bind (b64_decode p) (\<lambda>payload.
            Option.bind (b64_decode s) (\<lambda>sig. if tm_verify m payload sig then Some payload else None)))"

lemma mint_result:
  assumes "mint m cid scopes ttl e = ((token, claims), e')"
  shows "token = token_of m claims" "tc_sub claims = cid" "tc_scopes claims = clean_scopes scopes"
    "tc_issued claims = word_of_int (unix_of (clock e 0))"
    "tc_expiry claims = word_of_int (unix_of (clock e 0 + ttl))"
    "tc_jti claims = fst (random_id ''t'' e)"
    "clock e' = (\<lambda>i. clock e (Suc i))"
  using assms
  by (auto simp: mint_def Let_def token_of_def random_id_def time_now_def rand_read_def split: prod.splits)

lemma verify_iff:
  "fst (verify m token e) = Inr claims \<longleftrightarrow>
     (\<exists>payload. signed_payload m token = Some payload \<and> parse_claims payload = Some claims \<and>
        unix_of (clock e 0) < sint (tc_expiry claims))"
  by (auto simp: verify_def signed_payload_def time_now_def split: option.splits prod.splits)

lemma verify_entropy: "entropy (snd (verify m token e)) = entropy e"
  by (auto simp: verify_def time_now_def split: option.splits prod.splits)

lemma verify_ok_clock:
  "verify m token e = (Inr claims, e') \<Longrightarrow> clock e' = (\<lambda>i. clock e (Suc i))"
  by (auto simp: verify_def time_now_def split: option.splits prod.splits if_splits)

lemma graphic_dot [simp]: "graphic (CHR ''.'')"
  by (simp add: graphic_def)

lemma trim_token_of [simp]: "trim_space (token_of m claims) = token_of m claims"
  using b64_encode_graphic by (intro trim_space_graphic) (simp add: token_of_def)

lemma signed_payload_token_of:
  assumes "sound_scheme m"
  shows "signed_payload m (token_of m claims) = Some (claims_text claims)"
  using assms
  by (simp add: signed_payload_def token_of_def cut_at_append b64_encode_no_dot sound_scheme_def)

lemma graphic_underscore [simp]: "graphic (CHR ''_'')"
  by (simp add: graphic_def)

lemma random_id_graphic: "list_all graphic pre \<Longrightarrow> list_all graphic (fst (random_id pre e))"
  using b64_encode_graphic by (simp add: random_id_def rand_read_def)

lemma random_id_not_Nil [simp]: "fst (random_id pre e) \<noteq> []"
  by (simp add: random_id_def rand_read_def)

lemma random_id_clock [simp, eff_simps]: "clock (snd (random_id pre e)) = clock e"
  by (simp add: random_id_def rand_read_def)

section \<open>Properties\<close>

text \<open>
  C28. A minted token verifies until its time to live is over: with a signature scheme whose
  signatures verify and are not empty, verifying what \<open>Mint\<close> returned gives back the claims
  it recorded - the client, the cleaned scopes, issue and expiry in seconds - at every clock
  reading before the expiry, and is refused as expired from the expiry on.
\<close>

theorem mint_verify:
  assumes "sound_scheme m"
    and "mint m cid scopes ttl e = ((token, claims), e1)"
    and "in_int64 (unix_of (clock e 0 + ttl))"
  shows "tc_sub claims = cid \<and> tc_scopes claims = clean_scopes scopes \<and>
    sint (tc_expiry claims) = unix_of (clock e 0 + ttl) \<and>
    fst (verify m token e2) =
      (if unix_of (clock e2 0) < unix_of (clock e 0 + ttl) then Inr claims
       else Inl (ErrMsg ''token is expired''))"
proof -
  note r = mint_result [OF assms(2)]
  have exp: "sint (tc_expiry claims) = unix_of (clock e 0 + ttl)"
    using r(5) assms(3) by (simp add: sint_word_of_int64)
  have cut: "cut_at (CHR ''.'') token =
      Some (b64_encode (claims_text claims), b64_encode (tm_sign m (claims_text claims)))"
    by (simp add: r(1) token_of_def cut_at_append b64_encode_no_dot)
  have "fst (verify m token e2) =
      (if unix_of (clock e2 0) < sint (tc_expiry claims) then Inr claims
       else Inl (ErrMsg ''token is expired''))"
    using assms(1) by (simp add: verify_def cut time_now_def sound_scheme_def)
  with exp r show ?thesis by simp
qed

text \<open>A toy scheme for the examples: the signature is a tag in front of the message.\<close>

definition tag_manager :: token_manager where
  "tag_manager = \<lparr>tm_sign = (\<lambda>msg. ''k'' @ msg), tm_verify = (\<lambda>msg sig. sig = ''k'' @ msg)\<rparr>"

definition still_effects :: "go_time \<Rightarrow> effects" where
  "still_effects t = \<lparr>clock = (\<lambda>i. t), entropy = (\<lambda>i. CHR ''A'')\<rparr>"

lemma tag_manager_laws [simp]:
  "tm_verify tag_manager msg sig \<longleftrightarrow> sig = tm_sign tag_manager msg" "sound_scheme tag_manager"
  by (simp_all add: tag_manager_def sound_scheme_def)

theorem mint_verify_witness:
  "fst (verify tag_manager (fst (fst (mint tag_manager ''c_1'' ['' send'', ''read''] hour (still_effects 0))))
     (still_effects (hour - 1))) \<noteq> Inl (ErrMsg ''token is expired'') \<and>
   fst (verify tag_manager (fst (fst (mint tag_manager ''c_1'' ['' send'', ''read''] hour (still_effects 0))))
     (still_effects hour)) = Inl (ErrMsg ''token is expired'')"
proof -
  obtain token claims e1 where
    m: "mint tag_manager ''c_1'' ['' send'', ''read''] hour (still_effects 0) = ((token, claims), e1)"
    by (metis surj_pair)
  have range: "in_int64 (unix_of (clock (still_effects 0) 0 + hour))"
    by (simp add: still_effects_def unix_of_def in_int64_def min_int64_def max_int64_def)
  show ?thesis
    unfolding m
    using mint_verify [OF tag_manager_laws(2) m range, of "still_effects (hour - 1)"]
      mint_verify [OF tag_manager_laws(2) m range, of "still_effects hour"]
    by (simp add: still_effects_def unix_of_def)
qed

text \<open>
  C27. A token is accepted only for what was signed: \<open>Verify\<close> returns claims exactly when the
  token is two non-empty base64 parts joined by the first dot, the second is a valid
  signature of the first, the signed bytes are the JSON of those claims and the clock is
  before their expiry. Changing the claims needs a new signature.
\<close>

theorem verify_accepts:
  "fst (verify m token e) = Inr claims \<longleftrightarrow>
     (\<exists>p s payload sig. token = p @ ''.'' @ s \<and> CHR ''.'' \<notin> set p \<and> p \<noteq> [] \<and> s \<noteq> [] \<and>
        b64_decode p = Some payload \<and> b64_decode s = Some sig \<and> tm_verify m payload sig \<and>
        parse_claims payload = Some claims \<and> unix_of (clock e 0) < sint (tc_expiry claims))"
proof
  assume "fst (verify m token e) = Inr claims"
  then show "\<exists>p s payload sig. token = p @ ''.'' @ s \<and> CHR ''.'' \<notin> set p \<and> p \<noteq> [] \<and> s \<noteq> [] \<and>
        b64_decode p = Some payload \<and> b64_decode s = Some sig \<and> tm_verify m payload sig \<and>
        parse_claims payload = Some claims \<and> unix_of (clock e 0) < sint (tc_expiry claims)"
    by (fastforce simp: verify_iff signed_payload_def bind_eq_Some_conv dest: cut_at_Some
        split: option.splits prod.splits if_splits)
next
  assume "\<exists>p s payload sig. token = p @ ''.'' @ s \<and> CHR ''.'' \<notin> set p \<and> p \<noteq> [] \<and> s \<noteq> [] \<and>
        b64_decode p = Some payload \<and> b64_decode s = Some sig \<and> tm_verify m payload sig \<and>
        parse_claims payload = Some claims \<and> unix_of (clock e 0) < sint (tc_expiry claims)"
  then show "fst (verify m token e) = Inr claims"
    by (auto simp: verify_iff signed_payload_def cut_at_append)
qed

end
