(* ===== verification/Addresses.thy ===== *)
theory Addresses
  imports GoPrelude
begin

text \<open>
  IP addresses as \<open>net/netip\<close> has them and the addresses a webhook may not resolve to
  (\<open>blockedAddr\<close> in \<open>internal/webhook/validate.go\<close>), with the table of prefixes they make up.
\<close>

section \<open>Addresses\<close>

datatype ip_addr =
    InvalidAddr
  | V4 "32 word"
  | V6 "128 word"

text \<open>An IPv4 address as IPv6 carries it, and \<open>Unmap\<close>.\<close>

definition unmap_addr :: "ip_addr \<Rightarrow> ip_addr" where
  "unmap_addr a =
     (case a of
        V6 w \<Rightarrow> if unat w div 2 ^ 32 = 0xFFFF then V4 (ucast w) else a
      | _ \<Rightarrow> a)"

text \<open>A byte of an IPv4 address and a 16-bit piece of an IPv6 address, from the front.\<close>

definition octet :: "32 word \<Rightarrow> nat \<Rightarrow> nat" where
  "octet w i = unat w div 256 ^ (3 - i) mod 256"

definition piece :: "128 word \<Rightarrow> nat \<Rightarrow> nat" where
  "piece w i = unat w div 65536 ^ (7 - i) mod 65536"

definition is_valid :: "ip_addr \<Rightarrow> bool" where
  "is_valid a \<longleftrightarrow> a \<noteq> InvalidAddr"

definition is_6 :: "ip_addr \<Rightarrow> bool" where
  "is_6 a = (case a of V6 _ \<Rightarrow> True | _ \<Rightarrow> False)"

definition is_loopback :: "ip_addr \<Rightarrow> bool" where
  "is_loopback a =
     (case unmap_addr a of InvalidAddr \<Rightarrow> False | V4 w \<Rightarrow> octet w 0 = 127 | V6 w \<Rightarrow> w = 1)"

definition is_private :: "ip_addr \<Rightarrow> bool" where
  "is_private a =
     (case unmap_addr a of InvalidAddr \<Rightarrow> False
      | V4 w \<Rightarrow> octet w 0 = 10 \<or> octet w 0 = 172 \<and> and (octet w 1) 0xF0 = 16 \<or>
                octet w 0 = 192 \<and> octet w 1 = 168
      | V6 w \<Rightarrow> and (piece w 0) 0xFE00 = 0xFC00)"

definition is_link_local_unicast :: "ip_addr \<Rightarrow> bool" where
  "is_link_local_unicast a =
     (case unmap_addr a of InvalidAddr \<Rightarrow> False
      | V4 w \<Rightarrow> octet w 0 = 169 \<and> octet w 1 = 254
      | V6 w \<Rightarrow> and (piece w 0) 0xFFC0 = 0xFE80)"

definition is_link_local_multicast :: "ip_addr \<Rightarrow> bool" where
  "is_link_local_multicast a =
     (case unmap_addr a of InvalidAddr \<Rightarrow> False
      | V4 w \<Rightarrow> octet w 0 = 224 \<and> octet w 1 = 0 \<and> octet w 2 = 0
      | V6 w \<Rightarrow> and (piece w 0) 0xFF0F = 0xFF02)"

definition is_multicast :: "ip_addr \<Rightarrow> bool" where
  "is_multicast a =
     (case unmap_addr a of InvalidAddr \<Rightarrow> False
      | V4 w \<Rightarrow> and (octet w 0) 0xF0 = 0xE0
      | V6 w \<Rightarrow> and (piece w 0) 0xFF00 = 0xFF00)"

definition is_interface_local_multicast :: "ip_addr \<Rightarrow> bool" where
  "is_interface_local_multicast a =
     (case unmap_addr a of V6 w \<Rightarrow> and (piece w 0) 0xFF0F = 0xFF01 | _ \<Rightarrow> False)"

text \<open>\<open>addr.String() == "169.254.169.254"\<close>, which is 0xA9FEA9FE.\<close>

definition is_metadata :: "ip_addr \<Rightarrow> bool" where
  "is_metadata a \<longleftrightarrow> a = V4 0xA9FEA9FE"

definition blocked_addr :: "ip_addr \<Rightarrow> bool" where
  "blocked_addr a =
     (if \<not> is_valid a then True
      else if is_loopback a \<or> is_private a \<or> is_link_local_unicast a \<or> is_link_local_multicast a then True
      else if is_6 a then
        (if is_multicast a \<or> is_interface_local_multicast a \<or> is_link_local_unicast a then True else False)
      else if is_metadata a then True
      else False)"

section \<open>Prefixes\<close>

text \<open>\<open>in_prefix bits x base len\<close>: the first \<open>len\<close> of \<open>bits\<close> bits of \<open>x\<close> are those of \<open>base\<close>.\<close>

definition in_prefix :: "nat \<Rightarrow> nat \<Rightarrow> nat \<times> nat \<Rightarrow> bool" where
  "in_prefix bits x p = (x div 2 ^ (bits - snd p) = fst p div 2 ^ (bits - snd p))"

text \<open>127.0.0.0/8, 10.0.0.0/8, 172.16.0.0/12, 192.168.0.0/16, 169.254.0.0/16, 224.0.0.0/24.\<close>

definition blocked_v4 :: "(nat \<times> nat) list" where
  "blocked_v4 = [(0x7F000000, 8), (0x0A000000, 8), (0xAC100000, 12), (0xC0A80000, 16),
     (0xA9FE0000, 16), (0xE0000000, 24)]"

text \<open>::1/128, fc00::/7, fe80::/10, ff00::/8.\<close>

definition blocked_v6 :: "(nat \<times> nat) list" where
  "blocked_v6 = [(1, 128), (0xFC00 * 2 ^ 112, 7), (0xFE80 * 2 ^ 112, 10), (0xFF00 * 2 ^ 112, 8)]"

lemma and_high_mask:
  fixes x :: nat
  assumes "x < 2 ^ (k + m)"
  shows "and x (push_bit k (mask m)) = push_bit k (drop_bit k x)"
proof (rule bit_eqI)
  fix n
  have "bit x n \<Longrightarrow> n < k + m"
    using assms by (metis bit_take_bit_iff take_bit_nat_eq_self)
  then show "bit (and x (push_bit k (mask m))) n = bit (push_bit k (drop_bit k x)) n"
    by (auto simp: bit_and_iff bit_push_bit_iff bit_mask_iff bit_drop_bit_eq)
qed

lemma and_high_eq:
  fixes x :: nat
  assumes "x < 2 ^ (k + m)"
  shows "and x ((2 ^ m - 1) * 2 ^ k) = c * 2 ^ k \<longleftrightarrow> x div 2 ^ k = c"
  using and_high_mask [OF assms] by (simp add: mask_eq_exp_minus_1 push_bit_eq_mult drop_bit_eq_div)

lemma octets:
  fixes w :: "32 word"
  defines "q \<equiv> unat w div 2 ^ 16"
  shows "octet w 0 = q div 256" "octet w 1 = q mod 256" "octet w 2 = unat w div 256 mod 256" "q < 65536"
proof -
  have n: "unat w < 2 ^ 32" using unsigned_less [of w] by simp
  show "q < 65536" using n by (simp add: q_def less_mult_imp_div_less)
  then have "q div 256 < 256" by (simp add: less_mult_imp_div_less)
  moreover have "unat w div 2 ^ 24 = q div 256" by (simp add: q_def div_mult2_eq [symmetric])
  ultimately show "octet w 0 = q div 256" by (simp add: octet_def)
  show "octet w 1 = q mod 256" "octet w 2 = unat w div 256 mod 256" by (simp_all add: octet_def q_def)
qed

lemma piece_0: "piece w 0 = unat w div 2 ^ 112" "piece w 0 < 2 ^ 16"
proof -
  have "unat w < 2 ^ 128" using unsigned_less [of w] by simp
  then have "unat w div 2 ^ 112 < 2 ^ 16" by (simp add: less_mult_imp_div_less)
  then show "piece w 0 = unat w div 2 ^ 112" "piece w 0 < 2 ^ 16" by (simp_all add: piece_def)
qed

lemma div_mod_iff: "l < b \<Longrightarrow> x div b = h \<and> x mod b = l \<longleftrightarrow> x = h * b + l" for x :: nat
  by (auto simp: div_mult_mod_eq)

lemma blocked_v4_iff: "blocked_addr (V4 w) \<longleftrightarrow> list_ex (in_prefix 32 (unat w)) blocked_v4"
proof -
  define q where "q = unat w div 2 ^ 16"
  define r where "r = unat w div 256"
  note o = octets [of w, folded q_def]
  have qr: "q = r div 256" by (simp add: q_def r_def div_mult2_eq [symmetric])
  have byte: "and (octet w 1) 0xF0 = 16 \<longleftrightarrow> octet w 1 div 16 = 1"
    using and_high_eq [of "octet w 1" 4 4 1] o(2) by simp
  have d: "unat w div 2 ^ 24 = q div 256" "unat w div 2 ^ 20 = q div 16" "unat w div 2 ^ 16 = q"
    "unat w div 2 ^ 8 = r"
    by (simp_all add: q_def r_def div_mult2_eq [symmetric])
  have s: "q div 256 = 172 \<and> q mod 256 div 16 = 1 \<longleftrightarrow> q div 16 = 2753"
  proof -
    have "q div 256 = q div 16 div 16" "q mod 256 div 16 = q div 16 mod 16"
      using mod_mult2_eq [of q 16 16] by (simp_all add: div_mult2_eq [symmetric])
    then show ?thesis using div_mod_iff [of 1 16 "q div 16" 172] by simp
  qed
  have s2: "q div 256 = 192 \<and> q mod 256 = 168 \<longleftrightarrow> q = 49320"
    "q div 256 = 169 \<and> q mod 256 = 254 \<longleftrightarrow> q = 43518"
    using div_mod_iff [of 168 256 q 192] div_mod_iff [of 254 256 q 169] by simp_all
  have "q div 256 = 224 \<and> q mod 256 = 0 \<longleftrightarrow> r div 256 = 57344"
    using div_mod_iff [of 0 256 q 224] unfolding qr [symmetric] by simp
  moreover have "r div 256 = 57344 \<and> r mod 256 = 0 \<longleftrightarrow> r = 14680064"
    using div_mod_iff [of 0 256 r 57344] by simp
  ultimately have s3: "q div 256 = 224 \<and> q mod 256 = 0 \<and> r mod 256 = 0 \<longleftrightarrow> r = 14680064" by metis
  have l: "is_loopback (V4 w) \<longleftrightarrow> q div 256 = 127" "is_link_local_unicast (V4 w) \<longleftrightarrow> q = 43518"
    "is_link_local_multicast (V4 w) \<longleftrightarrow> r = 14680064"
    by (simp_all only: is_loopback_def is_link_local_unicast_def is_link_local_multicast_def unmap_addr_def
        ip_addr.case o s2 s3 r_def [symmetric])
  have p: "is_private (V4 w) \<longleftrightarrow> q div 256 = 10 \<or> q div 16 = 2753 \<or> q = 49320"
    by (simp only: is_private_def unmap_addr_def ip_addr.case byte) (simp only: o s s2)
  have m: "is_metadata (V4 w) \<Longrightarrow> q = 43518" by (simp add: is_metadata_def q_def)
  have "blocked_addr (V4 w) \<longleftrightarrow> q div 256 = 127 \<or> (q div 256 = 10 \<or> q div 16 = 2753 \<or> q = 49320) \<or>
      q = 43518 \<or> r = 14680064"
    unfolding blocked_addr_def l p is_valid_def is_6_def using m by simp
  moreover have "list_ex (in_prefix 32 (unat w)) blocked_v4 \<longleftrightarrow>
      q div 256 = 127 \<or> q div 256 = 10 \<or> q div 16 = 2753 \<or> q = 49320 \<or> q = 43518 \<or> r = 14680064"
    using d by (simp add: blocked_v4_def in_prefix_def)
  ultimately show ?thesis by blast
qed

lemma blocked_v6_iff:
  "unat w div 2 ^ 32 \<noteq> 0xFFFF \<Longrightarrow>
     blocked_addr (V6 w) \<longleftrightarrow> list_ex (in_prefix 128 (unat w)) blocked_v6"
proof -
  assume u: "unat w div 2 ^ 32 \<noteq> 0xFFFF"
  define q where "q = piece w 0"
  have q: "q < 2 ^ 16" "unat w div 2 ^ 112 = q" using piece_0 by (simp_all add: q_def)
  have "and q 0xFE00 = 0xFC00 \<longleftrightarrow> q div 2 ^ 9 = 0x7E" "and q 0xFFC0 = 0xFE80 \<longleftrightarrow> q div 2 ^ 6 = 0x3FA"
    "and q 0xFF00 = 0xFF00 \<longleftrightarrow> q div 2 ^ 8 = 0xFF"
    using and_high_eq [of q 9 7 "0x7E"] and_high_eq [of q 6 10 "0x3FA"] and_high_eq [of q 8 8 "0xFF"] q(1)
    by simp_all
  note hi = this
  have "and (and q 0xFF0F) 0xFF00 = and q 0xFF00" by (simp add: and.assoc)
  then have "and q 0xFF0F = 0xFF02 \<Longrightarrow> and q 0xFF00 = 0xFF00" "and q 0xFF0F = 0xFF01 \<Longrightarrow> and q 0xFF00 = 0xFF00"
    by auto
  then have "blocked_addr (V6 w) \<longleftrightarrow>
      w = 1 \<or> q div 2 ^ 9 = 0x7E \<or> q div 2 ^ 6 = 0x3FA \<or> q div 2 ^ 8 = 0xFF"
    using u by (auto simp: blocked_addr_def is_valid_def is_6_def is_loopback_def is_private_def unmap_addr_def
        is_link_local_unicast_def is_link_local_multicast_def is_multicast_def
        is_interface_local_multicast_def q_def [symmetric] hi)
  moreover have "w = 1 \<longleftrightarrow> unat w = 1" by (simp add: word_unat_eq_iff)
  moreover have "list_ex (in_prefix 128 (unat w)) blocked_v6 \<longleftrightarrow>
      unat w = 1 \<or> q div 2 ^ 9 = 0x7E \<or> q div 2 ^ 6 = 0x3FA \<or> q div 2 ^ 8 = 0xFF"
  proof -
    have "unat w div 2 ^ 121 = q div 2 ^ 9" "unat w div 2 ^ 118 = q div 2 ^ 6" "unat w div 2 ^ 120 = q div 2 ^ 8"
      by (simp_all add: q(2) [symmetric] div_mult2_eq [symmetric])
    then show ?thesis by (simp add: blocked_v6_def in_prefix_def)
  qed
  ultimately show ?thesis by blast
qed

text \<open>An IPv4 address that IPv6 carries is blocked like the IPv4 one, and as multicast too.\<close>

lemma blocked_mapped_iff:
  assumes "unat w div 2 ^ 32 = 0xFFFF"
  shows "blocked_addr (V6 w) \<longleftrightarrow>
    list_ex (in_prefix 32 (unat w mod 2 ^ 32)) (blocked_v4 @ [(0xE0000000, 4)])"
proof -
  define v where "v = (ucast w :: 32 word)"
  have n: "unat v = unat w mod 2 ^ 32" by (simp add: v_def unsigned_ucast_eq take_bit_eq_mod)
  have u: "unmap_addr (V6 w) = V4 v" "unmap_addr (V4 v) = V4 v"
    using assms by (simp_all add: unmap_addr_def v_def)
  have "octet v 0 < 256" by (simp add: octet_def)
  then have "is_multicast (V6 w) \<longleftrightarrow> octet v 0 div 16 = 14"
    using and_high_eq [of "octet v 0" 4 4 14] by (simp add: is_multicast_def u)
  also have "\<dots> \<longleftrightarrow> in_prefix 32 (unat v) (0xE0000000, 4)"
  proof -
    have "octet v 0 div 16 = unat v div 2 ^ 28"
      using octets(1) [of v] by (simp add: div_mult2_eq [symmetric])
    then show ?thesis by (simp add: in_prefix_def)
  qed
  finally have mc: "is_multicast (V6 w) \<longleftrightarrow> in_prefix 32 (unat v) (0xE0000000, 4)" .
  have "\<not> is_interface_local_multicast (V6 w)" by (simp add: is_interface_local_multicast_def u)
  moreover have "is_metadata (V4 v) \<longrightarrow> is_link_local_unicast (V4 v)"
    by (auto simp: is_metadata_def is_link_local_unicast_def u(2) [simplified] unmap_addr_def octet_def)
  ultimately have "blocked_addr (V6 w) \<longleftrightarrow> blocked_addr (V4 v) \<or> is_multicast (V6 w)"
    by (auto simp: blocked_addr_def is_valid_def is_6_def is_loopback_def is_private_def
        is_link_local_unicast_def is_link_local_multicast_def u)
  then show ?thesis unfolding mc blocked_v4_iff n list_ex_append by simp
qed

end
