(* ===== verification/Webhooks.thy ===== *)
theory Webhooks
  imports ConfigStore Tokens Addresses EventHub
begin

text \<open>
  Webhooks (\<open>internal/webhook\<close>): the check of a target, the service that registers, lists and
  deletes them in the state file, and the dispatcher that posts events to them.
  \<open>url.Parse\<close>, the DNS resolver and the HTTP client are parameters; a resolver may answer
  differently from call to call, so every call gets its own.
\<close>

section \<open>The check of a target\<close>

text \<open>What the code reads of a \<open>*url.URL\<close>.\<close>

record parsed_url =
  pu_scheme :: string
  pu_hostname :: string
  pu_text :: string

record validator =
  vl_parse :: "string \<Rightarrow> parsed_url option"
  vl_lookup :: "string \<Rightarrow> string + ip_addr list"

text \<open>\<open>NewValidator\<close>: the default resolver's answers, unmapped.\<close>

definition new_validator ::
  "(string \<Rightarrow> parsed_url option) \<Rightarrow> (string \<Rightarrow> string + ip_addr list) \<Rightarrow> validator" where
  "new_validator url_parse resolver =
     \<lparr>vl_parse = url_parse,
      vl_lookup = (\<lambda>host. case resolver host of
         Inl err \<Rightarrow> Inl err | Inr addrs \<Rightarrow> Inr (map unmap_addr addrs))\<rparr>"

definition validate :: "validator \<Rightarrow> string \<Rightarrow> parsed_url res" where
  "validate v raw_url =
     (case vl_parse v (trim_space raw_url) of
        None \<Rightarrow> Inl (ErrMsg ''webhook url must be valid'')
      | Some parsed \<Rightarrow>
          if \<not> equal_fold (pu_scheme parsed) ''https'' then Inl (ErrMsg ''webhook url must use https'')
          else if pu_hostname parsed = [] then Inl (ErrMsg ''webhook url must include a host'')
          else
            (case vl_lookup v (pu_hostname parsed) of
               Inl err \<Rightarrow> Inl (ErrMsg (''resolve webhook host: '' @ err))
             | Inr addrs \<Rightarrow>
                 if addrs = [] then Inl (ErrMsg ''webhook host did not resolve'')
                 else if list_ex blocked_addr addrs
                 then Inl (ErrMsg ''webhook host resolves to a blocked address'')
                 else Inr parsed))"

section \<open>The service\<close>

fun clean_events_loop :: "string list \<Rightarrow> string list \<Rightarrow> string list" where
  "clean_events_loop [] out = out"
| "clean_events_loop (event # events) out =
     (let event = trim_space event in
      if event = [] \<or> event \<in> set out then clean_events_loop events out
      else clean_events_loop events (out @ [event]))"

definition clean_events :: "string list \<Rightarrow> string list" where
  "clean_events events = clean_events_loop events []"

definition append_hook_fn :: "webhook \<Rightarrow> config \<Rightarrow> (config \<times> unit) res eff" where
  "append_hook_fn hook cfg e = (Inr (cfg\<lparr>cfg_webhooks := cfg_webhooks cfg @ [hook]\<rparr>, ()), e)"

definition create_webhook :: "validator \<Rightarrow> string \<Rightarrow> string list \<Rightarrow> webhook op" where
  "create_webhook v raw_url events w =
     (case validate v raw_url of
        Inl err \<Rightarrow> (Inl err, w)
      | Inr parsed \<Rightarrow>
          let events = clean_events events in
          if events = [] then (Inl (ErrMsg ''webhook events are required''), w)
          else
            case with_eff (random_id ''w'') w of (wid, w) \<Rightarrow>
            case with_eff time_now w of (now, w) \<Rightarrow>
              let hook = \<lparr>wh_id = wid, wh_url = pu_text parsed, wh_events = events, wh_created_at = now\<rparr> in
              (case store_update (append_hook_fn hook) w of
                 (Inl err, w) \<Rightarrow> (Inl err, w)
               | (Inr _, w) \<Rightarrow> (Inr hook, w)))"

definition list_webhooks :: "webhook list op" where
  "list_webhooks w =
     (case store_load w of
        (Inl err, w) \<Rightarrow> (Inl err, w)
      | (Inr cfg, w) \<Rightarrow> (Inr (cfg_webhooks cfg), w))"

text \<open>The loop that filters the slice in place.\<close>

fun delete_loop :: "string \<Rightarrow> webhook list \<Rightarrow> bool \<Rightarrow> webhook list \<Rightarrow> bool \<times> webhook list" where
  "delete_loop hid [] deleted filtered = (deleted, filtered)"
| "delete_loop hid (hook # hooks) deleted filtered =
     (if wh_id hook = hid then delete_loop hid hooks True filtered
      else delete_loop hid hooks deleted (filtered @ [hook]))"

definition delete_hook_fn :: "string \<Rightarrow> config \<Rightarrow> (config \<times> bool) res eff" where
  "delete_hook_fn hid cfg e =
     (case delete_loop hid (cfg_webhooks cfg) False [] of
        (deleted, filtered) \<Rightarrow> (Inr (cfg\<lparr>cfg_webhooks := filtered\<rparr>, deleted), e))"

definition delete_webhook :: "string \<Rightarrow> bool op" where
  "delete_webhook hid w =
     (let hid = trim_space hid in
      if hid = [] then (Inr False, w)
      else
        (case store_update (delete_hook_fn hid) w of
           (Inl err, w) \<Rightarrow> (Inl err, w)
         | (Inr (_, deleted), w) \<Rightarrow> (Inr deleted, w)))"

section \<open>The dispatcher\<close>

text \<open>A POST with a JSON body, and how the client came back.\<close>

record post_request =
  po_url :: string
  po_body :: string

datatype post_outcome = PostFailed string | PostStatus int

fun subscribed_to :: "string list \<Rightarrow> string \<Rightarrow> bool" where
  "subscribed_to [] name = False"
| "subscribed_to (event # events) name = (if equal_fold event name then True else subscribed_to events name)"

text \<open>
  \<open>Dispatch\<close>: the goroutines it starts, as the list of their hooks, and what it logs. A
  goroutine runs \<open>send\<close> at any later time.
\<close>

fun dispatch_loop :: "webhook list \<Rightarrow> string \<Rightarrow> webhook list" where
  "dispatch_loop [] event_type = []"
| "dispatch_loop (hook # hooks) event_type =
     (if \<not> subscribed_to (wh_events hook) event_type then dispatch_loop hooks event_type
      else hook # dispatch_loop hooks event_type)"

definition dispatch :: "'d event \<Rightarrow> world \<Rightarrow> (webhook list \<times> string list) \<times> world" where
  "dispatch event w =
     (case store_load w of
        (Inl err, w) \<Rightarrow> (([], [''load webhooks failed'']), w)
      | (Inr cfg, w) \<Rightarrow> ((dispatch_loop (cfg_webhooks cfg) (ev_type event), []), w))"

text \<open>The members of a Go map are marshalled in the order of their keys.\<close>

definition payload_text :: "('d \<Rightarrow> json option) \<Rightarrow> 'd event \<Rightarrow> go_time \<Rightarrow> string option" where
  "payload_text encode event now =
     map_option (\<lambda>data. json_text False (JObj
         [(''data'', data), (''event'', JStr (ev_type event)), (''timestamp'', JStr (fmt_rfc3339 now))]))
       (encode (ev_data event))"

definition send_webhook ::
  "validator \<Rightarrow> (post_request \<Rightarrow> post_outcome) \<Rightarrow> ('d \<Rightarrow> json option) \<Rightarrow> webhook \<Rightarrow> 'd event \<Rightarrow>
   (post_request option \<times> string list) eff" where
  "send_webhook v client encode hook event e =
     (case validate v (wh_url hook) of
        Inl err \<Rightarrow> ((None, [''skip webhook '' @ wh_id hook]), e)
      | Inr _ \<Rightarrow>
          (case time_now e of (now, e) \<Rightarrow>
             (case payload_text encode event now of
                None \<Rightarrow> ((None, [''encode webhook payload failed'']), e)
              | Some body \<Rightarrow>
                  if vl_parse v (wh_url hook) = None then ((None, [''build webhook request failed'']), e)
                  else
                    let req = \<lparr>po_url = wh_url hook, po_body = body\<rparr> in
                    (case client req of
                       PostFailed err \<Rightarrow> ((Some req, [''webhook dispatch failed for '' @ wh_id hook]), e)
                     | PostStatus code \<Rightarrow>
                         ((Some req, if code < 200 \<or> code \<ge> 300
                                     then [''webhook dispatch failed for '' @ wh_id hook] else []), e)))))"

section \<open>Facts\<close>

lemma clean_events_loop_spec:
  "distinct out \<Longrightarrow> distinct (clean_events_loop events out) \<and>
     set (clean_events_loop events out) = set out \<union> (trim_space ` set events - {[]})"
  by (induction events arbitrary: out) (auto simp: Let_def)

lemma delete_loop_spec:
  "delete_loop hid hooks deleted filtered =
     (deleted \<or> (\<exists>h \<in> set hooks. wh_id h = hid), filtered @ filter (\<lambda>h. wh_id h \<noteq> hid) hooks)"
  by (induction hooks arbitrary: deleted filtered) auto

lemma subscribed_to_iff: "subscribed_to events name \<longleftrightarrow> (\<exists>e \<in> set events. equal_fold e name)"
  by (induction events) auto

lemma dispatch_loop_filter:
  "dispatch_loop hooks name = filter (\<lambda>h. subscribed_to (wh_events h) name) hooks"
  by (induction hooks) auto

lemma validate_ok:
  "validate v raw_url = Inr parsed \<longleftrightarrow>
     vl_parse v (trim_space raw_url) = Some parsed \<and> equal_fold (pu_scheme parsed) ''https'' \<and>
     pu_hostname parsed \<noteq> [] \<and>
     (\<exists>addrs. vl_lookup v (pu_hostname parsed) = Inr addrs \<and> addrs \<noteq> [] \<and> \<not> list_ex blocked_addr addrs)"
  by (auto simp: validate_def split: option.splits sum.splits if_splits)

lemma create_webhook_cases:
  "case create_webhook v raw_url events w of
     (Inl err, w') \<Rightarrow> stored w' = stored w
   | (Inr hook, w') \<Rightarrow>
       \<exists>cfg parsed. stored w = Some cfg \<and> validate v raw_url = Inr parsed \<and>
         stored w' = Some (cfg\<lparr>cfg_webhooks := cfg_webhooks cfg @ [hook]\<rparr>) \<and>
         wh_url hook = pu_text parsed \<and> wh_events hook = clean_events events \<and> wh_events hook \<noteq> []"
proof -
  obtain wid w1 where wid: "with_eff (random_id ''w'') w = (wid, w1)" by fastforce
  obtain now w2 where now: "with_eff time_now w1 = (now, w2)" by fastforce
  have s: "stored w2 = stored w"
    using wid now by (auto intro!: stored_cong dest!: with_eff_disk)
  show ?thesis
  proof (cases "validate v raw_url")
    case (Inr parsed)
    show ?thesis
    proof (cases "clean_events events = []")
      case False
      define hook where "hook = \<lparr>wh_id = wid, wh_url = pu_text parsed, wh_events = clean_events events,
        wh_created_at = now\<rparr>"
      obtain r w3 where u: "store_update (append_hook_fn hook) w2 = (r, w3)" by fastforce
      show ?thesis
      proof (cases r)
        case (Inl err)
        then show ?thesis
          using u s Inr False wid now state.update_abort [of "append_hook_fn hook" w2 err w3]
          by (simp add: create_webhook_def hook_def [symmetric])
      next
        case (Inr ca)
        then obtain c where c: "r = Inr (c, ())" by (cases ca) auto
        have "stored w3 = Some c" "\<exists>c0. stored w2 = Some c0 \<and> c = c0\<lparr>cfg_webhooks := cfg_webhooks c0 @ [hook]\<rparr>"
          using state.update_commit [OF u [unfolded c]] by (auto simp: append_hook_fn_def)
        then show ?thesis
          using u c s \<open>validate v raw_url = Inr parsed\<close> False wid now
          by (auto simp: create_webhook_def hook_def [symmetric]) (simp_all add: hook_def)
      qed
    qed (simp add: create_webhook_def Inr)
  qed (simp add: create_webhook_def)
qed

lemma delete_webhook_commit:
  assumes "delete_webhook hid w = (Inr deleted, w')" and "trim_space hid \<noteq> []"
  shows "\<exists>cfg. stored w = Some cfg \<and> deleted = (\<exists>h \<in> set (cfg_webhooks cfg). wh_id h = trim_space hid) \<and>
    stored w' = Some (cfg\<lparr>cfg_webhooks := filter (\<lambda>h. wh_id h \<noteq> trim_space hid) (cfg_webhooks cfg)\<rparr>)"
proof -
  obtain c where u: "store_update (delete_hook_fn (trim_space hid)) w = (Inr (c, deleted), w')"
    using assms by (auto simp: delete_webhook_def Let_def split: prod.splits sum.splits)
  from state.update_commit [OF u] show ?thesis
    by (auto simp: delete_hook_fn_def delete_loop_spec)
qed

lemma delete_webhook_abort: "delete_webhook hid w = (Inl err, w') \<Longrightarrow> stored w' = stored w"
  by (auto simp: delete_webhook_def Let_def split: if_splits prod.splits sum.splits dest: state.update_abort)

lemma dispatch_spec:
  "dispatch event w = ((hooks, log), w') \<Longrightarrow>
     hooks = [] \<or> (\<exists>cfg. stored w = Some cfg \<and>
       hooks = filter (\<lambda>h. \<exists>e \<in> set (wh_events h). equal_fold e (ev_type event)) (cfg_webhooks cfg))"
  by (auto simp: dispatch_def dispatch_loop_filter subscribed_to_iff split: prod.splits sum.splits
      dest: state.load_ok)

section \<open>Properties\<close>

text \<open>
  C39. The check of a webhook target, written with a byte test per kind of address, is
  exactly the table of blocked prefixes: 127.0.0.0/8, 10.0.0.0/8, 172.16.0.0/12,
  192.168.0.0/16, 169.254.0.0/16, 224.0.0.0/24 for IPv4, and ::1, fc00::/7, fe80::/10, ff00::/8
  for IPv6 addresses that carry no IPv4 address.
\<close>

theorem blocked_addr_table:
  "blocked_addr a \<longleftrightarrow>
     (case a of
        InvalidAddr \<Rightarrow> True
      | V4 w \<Rightarrow> list_ex (in_prefix 32 (unat w)) blocked_v4
      | V6 w \<Rightarrow>
          if unat w div 2 ^ 32 = 0xFFFF
          then list_ex (in_prefix 32 (unat w mod 2 ^ 32)) (blocked_v4 @ [(0xE0000000, 4)])
          else list_ex (in_prefix 128 (unat w)) blocked_v6)"
  using blocked_v4_iff blocked_v6_iff blocked_mapped_iff
  by (cases a) (simp_all add: blocked_addr_def is_valid_def)

text \<open>
  What the table leaves out: a target that resolves to an unspecified address, 0.0.0.0 or
  ::, which a dial takes for the local host, passes the check, and so do the IPv4 multicast groups
  beyond 224.0.0.0/24.
\<close>

lemma unspecified_not_blocked:
  "\<not> blocked_addr (V4 0) \<and> \<not> blocked_addr (V6 0) \<and> \<not> blocked_addr (V4 0xE0000100)"
  using blocked_v6_iff [of 0]
  by (simp add: blocked_v4_iff blocked_v4_def blocked_v6_def in_prefix_def)

text \<open>
  C38. Registering a webhook appends exactly one hook to the state file, whose URL has passed
  the check and whose events are the distinct trimmed non-blank ones asked for; if it fails, for
  whatever reason, the state file is as before.
\<close>

theorem create_webhook_effect:
  "case create_webhook v raw_url events w of
     (Inl err, w') \<Rightarrow> stored w' = stored w
   | (Inr hook, w') \<Rightarrow>
       (\<exists>cfg parsed. stored w = Some cfg \<and> validate v raw_url = Inr parsed \<and> wh_url hook = pu_text parsed \<and>
         stored w' = Some (cfg\<lparr>cfg_webhooks := cfg_webhooks cfg @ [hook]\<rparr>)) \<and>
       distinct (wh_events hook) \<and> wh_events hook \<noteq> [] \<and>
       set (wh_events hook) = trim_space ` set events - {[]}"
  using create_webhook_cases [where v = v and raw_url = raw_url and events = events and w = w] clean_events_loop_spec [of "[]" events]
  by (auto simp: clean_events_def split: prod.splits sum.splits)


definition example_validator :: validator where
  "example_validator = \<lparr>vl_parse = (\<lambda>s. Some \<lparr>pu_scheme = ''https'', pu_hostname = ''example.com'', pu_text = s\<rparr>),
     vl_lookup = (\<lambda>host. Inr [V4 0x5DB8D822])\<rparr>"

definition example_hook :: webhook where
  "example_hook = \<lparr>wh_id = ''w_1'', wh_url = ''https://example.com/hook'', wh_events = [''new_message''],
     wh_created_at = 0\<rparr>"



definition hook_config :: config where
  "hook_config = zero_config\<lparr>cfg_webhooks := [example_hook]\<rparr>"

definition hook_world :: world where
  "hook_world = \<lparr>w_eff = still_effects 0, w_faults = (\<lambda>i. None),
     w_disk = \<lparr>config_file = Some (config_text hook_config), config_tmp = None\<rparr>\<rparr>"


end
