(* ===== verification/Feed.thy ===== *)
theory Feed
  imports Watcher EventHub Webhooks
begin

text \<open>
  The daemon's feed of events (\<open>cmd/chatbubbles/main.go\<close>, the goroutine around the watcher): each
  row imsg prints is noted in the state file, published to the hub and dispatched to the webhooks;
  after a restart the watcher resumes from the row in the state file.
\<close>

section \<open>The callback\<close>

text \<open>
  What the callback works on: the captured \<open>lastWatchRowID\<close>, the state file, the hub, and the
  goroutines that \<open>Dispatch\<close> has started so far, as their hooks and events.
\<close>

record feed =
  fd_last_row :: int64
  fd_world :: world
  fd_hub :: "message event hub"
  fd_sends :: "(webhook \<times> message event) list"

definition save_row_fn :: "int64 \<Rightarrow> config \<Rightarrow> (config \<times> unit) res eff" where
  "save_row_fn row cfg e = (Inr (cfg\<lparr>cfg_last_watch_rowid := row\<rparr>, ()), e)"

text \<open>A failed save is only logged.\<close>

definition note_last_row :: "watch_event \<Rightarrow> feed \<Rightarrow> feed" where
  "note_last_row event f =
     (if sint (row_id event) > sint (fd_last_row f)
      then (case store_update (save_row_fn (row_id event)) (fd_world f) of
              (r, w) \<Rightarrow> f\<lparr>fd_last_row := row_id event, fd_world := w\<rparr>)
      else f)"

definition feed_event :: "watch_event \<Rightarrow> message event" where
  "feed_event event = \<lparr>ev_type = event_name event, ev_data = we_message event\<rparr>"

text \<open>
  \<open>order\<close> is the order the runtime ranges over the subscribers in; \<open>None\<close> is a panic of the hub.
\<close>

definition on_watch_event :: "(message event hub \<Rightarrow> int list) \<Rightarrow> watch_event \<Rightarrow> feed \<Rightarrow> feed option" where
  "on_watch_event order event f =
     (let f = note_last_row event f in
      case publish_loop (order (fd_hub f)) (feed_event event) (fd_hub f) of
        None \<Rightarrow> None
      | Some h \<Rightarrow>
          (case dispatch (feed_event event) (fd_world f) of
             ((hooks, log), w) \<Rightarrow>
               Some (f\<lparr>fd_hub := h, fd_world := w,
                       fd_sends := fd_sends f @ map (\<lambda>hook. (hook, feed_event event)) hooks\<rparr>)))"

definition feed_step :: "(message event hub \<Rightarrow> int list) \<Rightarrow> watch_event \<Rightarrow> feed option \<Rightarrow> feed option" where
  "feed_step order event fo = Option.bind fo (on_watch_event order event)"

section \<open>Starts of the daemon\<close>

text \<open>
  What \<open>main\<close> does for the feed: load the state file, which is fatal if it fails, take the row in
  it, and make a hub, to which the server subscribes for its history cache. What an earlier
  process has sent stays sent.
\<close>

definition start_feed :: "(webhook \<times> message event) list \<Rightarrow> world \<Rightarrow> feed option" where
  "start_feed sent w =
     (case store_load w of
        (Inl err, w) \<Rightarrow> None
      | (Inr cfg, w) \<Rightarrow>
          Some \<lparr>fd_last_row = cfg_last_watch_rowid cfg, fd_world = w,
                fd_hub = snd (snd (hub_subscribe 32 new_hub)), fd_sends = sent\<rparr>)"

text \<open>One process after the other, each with the turns of its watcher until it is stopped or dies.\<close>

fun feed_lives ::
  "runner \<Rightarrow> (message event hub \<Rightarrow> int list) \<Rightarrow> turn list list \<Rightarrow> (webhook \<times> message event) list \<Rightarrow> world \<Rightarrow>
   ((webhook \<times> message event) list \<times> world) option" where
  "feed_lives r order [] sent w = Some (sent, w)"
| "feed_lives r order (ts # lives) sent w =
     (case start_feed sent w of
        None \<Rightarrow> None
      | Some f \<Rightarrow>
          (case watch_run (new_watcher r (fd_last_row f)) (feed_step order) ts (Some f) of
             (end, pauses, since, fo) \<Rightarrow>
               (case fo of
                  None \<Rightarrow> None
                | Some f \<Rightarrow> feed_lives r order lives (fd_sends f) (fd_world f))))"

section \<open>Facts\<close>

text \<open>The sends that events are worth: each to every hook subscribed to it, in order.\<close>

definition sends_of :: "webhook list \<Rightarrow> watch_event list \<Rightarrow> (webhook \<times> message event) list" where
  "sends_of hooks events = concat (map (\<lambda>e. map (\<lambda>hook. (hook, feed_event e))
     (filter (\<lambda>hook. \<exists>name \<in> set (wh_events hook). equal_fold name (event_name e)) hooks)) events)"

definition ranges :: "(message event hub \<Rightarrow> int list) \<Rightarrow> bool" where
  "ranges order \<longleftrightarrow> (\<forall>h. hub_inv h \<longrightarrow> range_order (subscribers h) (order h))"

text \<open>A feed in good order: the state file holds its row and is healthy.\<close>

definition feed_inv :: "webhook list \<Rightarrow> feed \<Rightarrow> bool" where
  "feed_inv hooks f \<longleftrightarrow> no_faults (fd_world f) \<and> hub_inv (fd_hub f) \<and>
     (\<exists>cfg. stored (fd_world f) = Some cfg \<and> marshalable cfg \<and> cfg_webhooks cfg = hooks \<and>
        cfg_last_watch_rowid cfg = fd_last_row f)"

lemma dispatch_healthy:
  assumes "no_faults w" and "stored w = Some cfg"
  shows "\<exists>w'. dispatch event w = ((filter (\<lambda>h. \<exists>e \<in> set (wh_events h). equal_fold e (ev_type event)) (cfg_webhooks cfg), []), w') \<and>
    no_faults w' \<and> stored w' = Some cfg"
proof -
  obtain w' where l: "store_load w = (Inr cfg, w')" "no_faults w'" using state.load_healthy [OF assms] by blast
  then have "stored w' = Some cfg" using state.load_frame [OF l(1)] assms(2) by simp
  with l show ?thesis by (simp add: dispatch_def dispatch_loop_filter subscribed_to_iff)
qed

lemma on_watch_event_healthy:
  assumes "feed_inv hooks f" and "ranges order" and "sint (fd_last_row f) < sint (row_id event)"
  shows "\<exists>f'. on_watch_event order event f = Some f' \<and> feed_inv hooks f' \<and> fd_last_row f' = row_id event \<and>
    fd_sends f' = fd_sends f @ sends_of hooks [event]"
proof -
  from assms(1) obtain cfg where cfg: "stored (fd_world f) = Some cfg" "marshalable cfg" "cfg_webhooks cfg = hooks"
    and f: "no_faults (fd_world f)" "hub_inv (fd_hub f)" by (auto simp: feed_inv_def)
  let ?cfg = "cfg\<lparr>cfg_last_watch_rowid := row_id event\<rparr>"
  have fn: "save_row_fn (row_id event) cfg (w_eff (fd_world f)) = (Inr (?cfg, ()), w_eff (fd_world f))"
    by (simp add: save_row_fn_def)
  have "marshalable ?cfg" using cfg(2) by (simp add: marshalable_def)
  from state.update_healthy [where fn = "save_row_fn (row_id event)", OF f(1) cfg(1) fn this]
  obtain w where u: "store_update (save_row_fn (row_id event)) (fd_world f) = (Inr (?cfg, ()), w)" "no_faults w" by blast
  have w: "stored w = Some ?cfg" using state.update_commit [OF u(1)] by blast
  obtain w' where d: "dispatch (feed_event event) w = ((filter (\<lambda>h. \<exists>e \<in> set (wh_events h). equal_fold e (event_name event)) hooks, []), w')"
    "no_faults w'" "stored w' = Some ?cfg"
    using dispatch_healthy [OF u(2) w, of "feed_event event"] cfg(3) by (auto simp: feed_event_def)
  obtain h where h: "publish_loop (order (fd_hub f)) (feed_event event) (fd_hub f) = Some h" "hub_inv h"
    using publish_loop_effect [OF f(2), of "order (fd_hub f)" "feed_event event"] assms(2) f(2)
    by (auto simp: ranges_def range_order_def)
  show ?thesis
    using u(1) d h cfg assms(3) \<open>marshalable ?cfg\<close>
    by (simp add: on_watch_event_def note_last_row_def feed_inv_def sends_of_def)
qed

lemma feed_steps_healthy:
  assumes "ranges order" and "sorted_wrt (\<lambda>x y. sint (row_id x) < sint (row_id y)) events"
    and "feed_inv hooks f" and "\<forall>e \<in> set events. sint (fd_last_row f) < sint (row_id e)"
  shows "\<exists>f'. fold (feed_step order) events (Some f) = Some f' \<and> feed_inv hooks f' \<and>
    fd_last_row f' = (if events = [] then fd_last_row f else row_id (last events)) \<and>
    fd_sends f' = fd_sends f @ sends_of hooks events"
  using assms(2-)
proof (induction events arbitrary: f)
  case Nil
  then show ?case by (simp add: sends_of_def)
next
  case (Cons e es)
  obtain f1 where f1: "on_watch_event order e f = Some f1" "feed_inv hooks f1" "fd_last_row f1 = row_id e"
    "fd_sends f1 = fd_sends f @ sends_of hooks [e]"
    using on_watch_event_healthy [OF Cons.prems(2) assms(1)] Cons.prems(3) by fastforce
  obtain f' where "fold (feed_step order) es (Some f1) = Some f'" "feed_inv hooks f'"
    "fd_last_row f' = (if es = [] then fd_last_row f1 else row_id (last es))" "fd_sends f' = fd_sends f1 @ sends_of hooks es"
    using Cons.IH [OF _ f1(2)] Cons.prems(1) f1(3) by auto
  moreover have "feed_step order e (Some f) = Some f1" by (simp add: feed_step_def f1(1))
  ultimately show ?case using f1(3,4) by (auto simp: sends_of_def)
qed

lemma start_feed_healthy:
  assumes "no_faults w" and "stored w = Some cfg" and "marshalable cfg"
  shows "\<exists>f. start_feed sent w = Some f \<and> feed_inv (cfg_webhooks cfg) f \<and>
    fd_last_row f = cfg_last_watch_rowid cfg \<and> fd_sends f = sent"
proof -
  obtain w' where l: "store_load w = (Inr cfg, w')" "no_faults w'" using state.load_healthy [OF assms(1,2)] by blast
  then have "stored w' = Some cfg" using state.load_frame [OF l(1)] assms(2) by simp
  moreover have "hub_inv (snd (snd (hub_subscribe 32 (new_hub :: message event hub))))"
    using hub_inv_subscribe [OF hub_inv_new] by (metis prod.collapse)
  ultimately show ?thesis using l assms(3) by (simp add: start_feed_def feed_inv_def)
qed

text \<open>One process: what it has sent when it ends, and where the next resumes.\<close>

lemma feed_life:
  assumes "row_log_ok db" and "\<forall>t \<in> set ts. resumes db t" and "ranges order"
    and "no_faults w" and "stored w = Some cfg" and "marshalable cfg" and "0 < sint (cfg_last_watch_rowid cfg)"
  shows "\<exists>f0 f n cfg'. start_feed sent w = Some f0 \<and>
    snd (snd (snd (watch_run (new_watcher r (fd_last_row f0)) (feed_step order) ts (Some f0)))) = Some f \<and>
    fd_sends f = sent @ sends_of (cfg_webhooks cfg) (map snd (take n (rows_after (cfg_last_watch_rowid cfg) db))) \<and>
    no_faults (fd_world f) \<and> stored (fd_world f) = Some cfg' \<and> marshalable cfg' \<and> cfg_webhooks cfg' = cfg_webhooks cfg \<and>
    rows_after (cfg_last_watch_rowid cfg') db = drop n (rows_after (cfg_last_watch_rowid cfg) db) \<and>
    0 < sint (cfg_last_watch_rowid cfg')"
proof -
  let ?since = "cfg_last_watch_rowid cfg"
  let ?rows = "rows_after ?since db"
  obtain f0 where f0: "start_feed sent w = Some f0" "feed_inv (cfg_webhooks cfg) f0" "fd_last_row f0 = ?since" "fd_sends f0 = sent"
    using start_feed_healthy [OF assms(4-6)] by blast
  obtain e pauses since fo where run: "watch_run (new_watcher r ?since) (feed_step order) ts (Some f0) = (e, pauses, since, fo)"
    by (metis prod.collapse)
  then have "watch_turns (new_watcher r ?since) (feed_step order) ts second ?since (Some f0) = (e, pauses, since, fo)"
    by (simp add: watch_run_def new_watcher_def)
  from watch_turns_resume [OF assms(1,2,7) this] obtain k where
    k: "fo = fold (feed_step order) (map snd (take k ?rows)) (Some f0)" by blast
  define n where "n = min k (length ?rows)"
  have n: "fo = fold (feed_step order) (map snd (take n ?rows)) (Some f0)" "n \<le> length ?rows"
    using k by (simp_all add: n_def min_def)
  have "sorted_wrt (\<lambda>x y. sint (row_id x) < sint (row_id y)) (map snd (take n ?rows))"
    using sorted_wrt_take [OF sorted_rows_after [OF assms(1)]] by (simp add: sorted_wrt_map)
  moreover have "\<forall>x \<in> set (map snd (take n ?rows)). sint (fd_last_row f0) < sint (row_id x)"
    by (auto simp: f0(3) rows_after_def dest!: in_set_takeD)
  ultimately obtain f where f: "fo = Some f" "feed_inv (cfg_webhooks cfg) f"
    "fd_last_row f = (if map snd (take n ?rows) = [] then ?since else row_id (last (map snd (take n ?rows))))"
    "fd_sends f = sent @ sends_of (cfg_webhooks cfg) (map snd (take n ?rows))"
    using feed_steps_healthy [OF assms(3) _ f0(2), of "map snd (take n ?rows)"] f0(3,4) n(1) by auto
  from f(2) obtain cfg' where c: "no_faults (fd_world f)" "stored (fd_world f) = Some cfg'" "marshalable cfg'"
    "cfg_webhooks cfg' = cfg_webhooks cfg" "cfg_last_watch_rowid cfg' = fd_last_row f" by (auto simp: feed_inv_def)
  have "rows_after (fd_last_row f) db = drop n ?rows \<and> 0 < sint (fd_last_row f)"
  proof (cases "n = 0 \<or> ?rows = []")
    case True
    then show ?thesis using f(3) assms(7) by auto
  next
    case False
    then have l: "fd_last_row f = row_id (snd (last (take n ?rows)))" using f(3) by (simp add: last_map)
    have "last (take n ?rows) \<in> set ?rows" using False in_set_takeD last_in_set take_eq_Nil by metis
    then have "sint ?since < sint (fd_last_row f)" by (auto simp: l rows_after_def)
    then show ?thesis using rows_after_last [OF assms(1) _ n(2)] False assms(7) by (simp add: l)
  qed
  with f0(1,3) run f(1,4) c show ?thesis by auto
qed

lemma feed_lives_complete:
  assumes "row_log_ok db" and "\<forall>ts \<in> set lives. \<forall>t \<in> set ts. resumes db t" and "ranges order"
    and "no_faults w" and "stored w = Some cfg" and "marshalable cfg" and "0 < sint (cfg_last_watch_rowid cfg)"
  shows "\<exists>n w' cfg'. feed_lives r order lives sent w =
      Some (sent @ sends_of (cfg_webhooks cfg) (map snd (take n (rows_after (cfg_last_watch_rowid cfg) db))), w') \<and>
    stored w' = Some cfg' \<and>
    rows_after (cfg_last_watch_rowid cfg') db = drop n (rows_after (cfg_last_watch_rowid cfg) db)"
  using assms(2,4-)
proof (induction lives arbitrary: sent w cfg)
  case Nil
  then show ?case by (intro exI [of _ 0]) (simp add: sends_of_def)
next
  case (Cons ts lives)
  let ?rows = "rows_after (cfg_last_watch_rowid cfg) db"
  obtain f0 f n cfg1 where l: "start_feed sent w = Some f0"
    "snd (snd (snd (watch_run (new_watcher r (fd_last_row f0)) (feed_step order) ts (Some f0)))) = Some f"
    "fd_sends f = sent @ sends_of (cfg_webhooks cfg) (map snd (take n ?rows))"
    "no_faults (fd_world f)" "stored (fd_world f) = Some cfg1" "marshalable cfg1" "cfg_webhooks cfg1 = cfg_webhooks cfg"
    "rows_after (cfg_last_watch_rowid cfg1) db = drop n ?rows" "0 < sint (cfg_last_watch_rowid cfg1)"
    using feed_life [OF assms(1) _ assms(3) Cons.prems(2-5), of ts sent r] Cons.prems(1) by auto
  obtain m w' cfg' where IH: "feed_lives r order lives (fd_sends f) (fd_world f) =
      Some (fd_sends f @ sends_of (cfg_webhooks cfg) (map snd (take m (drop n ?rows))), w')"
    "stored w' = Some cfg'" "rows_after (cfg_last_watch_rowid cfg') db = drop m (drop n ?rows)"
    using Cons.IH [OF _ l(4-6,9), of "fd_sends f"] Cons.prems(1) l(7,8) by auto
  have "take (n + m) ?rows = take n ?rows @ take m (drop n ?rows)" by (simp add: take_add)
  then have "sends_of (cfg_webhooks cfg) (map snd (take (n + m) ?rows)) =
      sends_of (cfg_webhooks cfg) (map snd (take n ?rows)) @ sends_of (cfg_webhooks cfg) (map snd (take m (drop n ?rows)))"
    by (simp add: sends_of_def)
  with l(1-3) IH show ?case
    by (intro exI [of _ "n + m"]) (auto simp: add.commute split: prod.split)
qed

section \<open>Properties\<close>


definition seventh_line :: string where
  "seventh_line = CHR 0x7B # dquote # ''id'' @ dquote # CHR '':'' # ''7'' @ [CHR 0x7D]"

definition seventh :: watch_event where
  "seventh = zero_watch_event\<lparr>we_message := zero_message\<lparr>ms_id := 7\<rparr>\<rparr>"

text \<open>imsg prints the row after the sixth, begins another line and dies.\<close>

definition dying_turn :: turn where
  "dying_turn = \<lparr>tu_exec = (\<lambda>bin args. if args = watch_args 6 (250 * millisecond)
       then Started (printed [(seventh_line, seventh)] @ [CHR 0x7B]) None (Some ([], ''signal: killed''))
       else StartFailed ''no more processes''),
     tu_ctx_ended = False, tu_stopped = False\<rparr>"

definition at_sixth :: config where
  "at_sixth = zero_config\<lparr>cfg_last_watch_rowid := 6,
     cfg_webhooks := [zero_webhook\<lparr>wh_events := [''new_message''], wh_created_at := 0\<rparr>]\<rparr>"

definition sixth_world :: world where
  "sixth_world = \<lparr>w_eff = \<lparr>clock = (\<lambda>i. 0), entropy = (\<lambda>i. CHR ''A'')\<rparr>, w_faults = (\<lambda>i. None),
     w_disk = \<lparr>config_file = Some (config_text at_sixth), config_tmp = None\<rparr>\<rparr>"

definition by_id :: "message event hub \<Rightarrow> int list" where
  "by_id h = sorted_list_of_set (dom (subscribers h))"

lemma seventh_facts:
  "decode_event seventh_line = Some seventh" "decode_event (drop_cr [CHR 0x7B]) = None" "row_id seventh = 7"
  "line_feed \<notin> set seventh_line" "drop_cr seventh_line = seventh_line"
  by code_simp+

lemma seventh_line_short: "length seventh_line < max_line"
  by (simp add: seventh_line_def max_line_def)

lemma watch_args_since: "0 < sint since \<Longrightarrow> watch_args since debounce = watch_args 6 d' \<Longrightarrow> since = 6"
  by (auto simp: watch_args_def int_text_inject intro: signed_word_eqI)


end
