(* ===== verification/Pairing.thy ===== *)
theory Pairing
  imports ConfigStore Tokens
begin

text \<open>
  The pairing service (\<open>internal/auth/pairing.go\<close>): one-time pairing codes, device sessions
  and their approval, the list of clients, authentication and revocation. Every operation
  holds the service's mutex for its whole run, so it is one step on the world; the function it
  passes to \<open>Store.Update\<close> is a definition of its own, with the values it leaves in captured
  variables as its second result.
\<close>

section \<open>The service\<close>

record auth_service =
  sv_tokens :: token_manager
  sv_default_ttl :: int
  sv_pairing_ttl :: int
  sv_default_scope :: "string list"

definition new_service :: "token_manager \<Rightarrow> auth_service" where
  "new_service tokens = \<lparr>sv_tokens = tokens, sv_default_ttl = 90 * 24 * hour,
     sv_pairing_ttl = 2 * minute, sv_default_scope = [''read'', ''send'', ''attach'']\<rparr>"

record auth_client =
  ac_id :: string
  ac_name :: string
  ac_type :: string
  ac_scopes :: "string list"

record pair_result =
  pr_token :: string
  pr_client_id :: string
  pr_expires_at :: go_time
  pr_scopes :: "string list"

record pairing_code =
  pg_code :: string
  pg_expires_at :: go_time
  pg_scopes :: "string list"

record session =
  sn_id :: string
  sn_code :: string
  sn_status :: string
  sn_token :: string
  sn_client_id :: string
  sn_expires_at :: go_time
  sn_scopes :: "string list"

definition code_alphabet :: string where
  "code_alphabet = ''ABCDEFGHJKLMNPQRSTUVWXYZ23456789''"

definition digit_alphabet :: string where
  "digit_alphabet = ''0123456789''"

definition pick_char :: "string \<Rightarrow> char \<Rightarrow> char" where
  "pick_char alphabet byte = alphabet ! (of_char byte mod length alphabet)"

definition random_code :: "nat \<Rightarrow> string eff" where
  "random_code n e = (case rand_read n e of (raw, e) \<Rightarrow> (map (pick_char code_alphabet) raw, e))"

definition random_digits :: "nat \<Rightarrow> string eff" where
  "random_digits n e = (case rand_read n e of (raw, e) \<Rightarrow> (map (pick_char digit_alphabet) raw, e))"

definition prune_expired_codes :: "config \<Rightarrow> go_time \<Rightarrow> config" where
  "prune_expired_codes cfg now =
     cfg\<lparr>cfg_pairing_codes := filter (\<lambda>p. pc_expires_at p > now) (cfg_pairing_codes cfg)\<rparr>"

definition prune_expired_sessions :: "config \<Rightarrow> go_time \<Rightarrow> config" where
  "prune_expired_sessions cfg now =
     cfg\<lparr>cfg_sessions :=
       filter (\<lambda>s. ps_expires_at s > now \<or> ps_status s = ''approved'') (cfg_sessions cfg)\<rparr>"

text \<open>\<open>time.Unix(claims.Expiry, 0)\<close>.\<close>

definition expiry_time :: "token_claims \<Rightarrow> go_time" where
  "expiry_time claims = sint (tc_expiry claims) * second"

section \<open>Sessions\<close>

definition session_of :: "pending_session \<Rightarrow> session" where
  "session_of p =
     \<lparr>sn_id = ps_id p, sn_code = ps_code p, sn_status = ps_status p, sn_token = ps_token p,
      sn_client_id = ps_client_id p, sn_expires_at = ps_expires_at p, sn_scopes = ps_scopes p\<rparr>"

definition create_session_fn ::
  "session \<Rightarrow> string \<Rightarrow> string \<Rightarrow> config \<Rightarrow> (config \<times> unit) res eff" where
  "create_session_fn session client_name client_type cfg e =
     (case time_now e of (now1, e) \<Rightarrow>
        let cfg = prune_expired_codes cfg now1 in
        case time_now e of (now2, e) \<Rightarrow>
          let cfg = prune_expired_sessions cfg now2 in
          (Inr (cfg\<lparr>cfg_sessions := cfg_sessions cfg @
             [zero_session\<lparr>ps_id := sn_id session, ps_code := sn_code session,
                ps_client_name := client_name, ps_client_type := client_type,
                ps_status := ''pending'', ps_expires_at := sn_expires_at session\<rparr>]\<rparr>, ()), e))"

definition create_session :: "auth_service \<Rightarrow> string \<Rightarrow> string \<Rightarrow> session op" where
  "create_session sv client_name client_type w =
     (let client_name = trim_space client_name;
          client_type = trim_space client_type in
      if client_name = [] \<or> client_type = []
      then (Inl (ErrMsg ''client_name and client_type are required''), w)
      else
        case with_eff (random_id ''s'') w of (sid, w) \<Rightarrow>
        case with_eff (random_digits 6) w of (code, w) \<Rightarrow>
        case with_eff time_now w of (now, w) \<Rightarrow>
          let session = \<lparr>sn_id = sid, sn_code = code, sn_status = ''pending'', sn_token = [],
                sn_client_id = [], sn_expires_at = now + 3 * minute, sn_scopes = []\<rparr> in
          (case store_update (create_session_fn session client_name client_type) w of
             (Inl e, w) \<Rightarrow> (Inl e, w)
           | (Inr _, w) \<Rightarrow> (Inr session, w)))"

definition get_session :: "auth_service \<Rightarrow> string \<Rightarrow> session op" where
  "get_session sv session_id w =
     (let session_id = trim_space session_id in
      case store_load w of
        (Inl e, w) \<Rightarrow> (Inl e, w)
      | (Inr cfg, w) \<Rightarrow>
          (case with_eff time_now w of (now, w) \<Rightarrow>
             (case index_of (\<lambda>p. ps_id p = session_id) (cfg_sessions cfg) of
                None \<Rightarrow> (Inl (ErrMsg ''session not found''), w)
              | Some i \<Rightarrow>
                  if \<not> ps_expires_at (cfg_sessions cfg ! i) > now then (Inl ErrSessionExpired, w)
                  else (Inr (session_of (cfg_sessions cfg ! i)), w))))"

text \<open>The client an approval or a pairing registers.\<close>

definition new_client :: "string \<Rightarrow> string \<Rightarrow> string \<Rightarrow> string list \<Rightarrow> token_claims \<Rightarrow> go_time \<Rightarrow> client" where
  "new_client cid name type scopes claims now =
     \<lparr>cl_id = cid, cl_name = name, cl_type = type, cl_scopes = scopes, cl_token_jti = tc_jti claims,
      cl_created_at = now, cl_last_seen = now, cl_revoked = False\<rparr>"

definition approve_session_fn ::
  "auth_service \<Rightarrow> string \<Rightarrow> string list \<Rightarrow> config \<Rightarrow> (config \<times> session) res eff" where
  "approve_session_fn sv session_id requested cfg e =
     (case time_now e of (now, e) \<Rightarrow>
        let cfg = prune_expired_sessions cfg now in
        (case index_of (\<lambda>p. ps_id p = session_id) (cfg_sessions cfg) of
           None \<Rightarrow> (Inl (ErrMsg ''session not found''), e)
         | Some i \<Rightarrow>
             let session = cfg_sessions cfg ! i in
             if \<not> ps_expires_at session > now then (Inl ErrSessionExpired, e)
             else
               (case random_id ''c'' e of (client_id, e) \<Rightarrow>
                case mint (sv_tokens sv) client_id requested (24 * hour) e of ((token, claims), e) \<Rightarrow>
                  let approved = session\<lparr>ps_status := ''approved'', ps_token := token,
                        ps_client_id := client_id, ps_scopes := requested,
                        ps_expires_at := expiry_time claims\<rparr> in
                  (Inr (cfg\<lparr>cfg_clients := cfg_clients cfg @
                          [new_client client_id (ps_client_name session) (ps_client_type session)
                             requested claims now],
                        cfg_sessions := (cfg_sessions cfg)[i := approved]\<rparr>,
                      session_of approved), e))))"

definition approve_session ::
  "auth_service \<Rightarrow> string \<Rightarrow> token_claims \<Rightarrow> string list \<Rightarrow> session op" where
  "approve_session sv session_id approver scopes w =
     (let session_id = trim_space session_id;
          requested = clean_scopes scopes;
          requested = (if length requested = 0 then [''read'', ''send''] else requested) in
      if \<not> scopes_subset requested (tc_scopes approver) then (Inl ErrForbidden, w)
      else
        (case store_update (approve_session_fn sv session_id requested) w of
           (Inl e, w) \<Rightarrow> (Inl e, w)
         | (Inr (_, result), w) \<Rightarrow> (Inr result, w)))"

section \<open>Pairing codes\<close>

definition bootstrap_fn :: "auth_service \<Rightarrow> string \<Rightarrow> config \<Rightarrow> (config \<times> string) res eff" where
  "bootstrap_fn sv server_name cfg e =
     (let cfg = cfg\<lparr>cfg_server_name := server_name\<rparr> in
      case time_now e of (now, e) \<Rightarrow>
        let cfg = prune_expired_codes cfg now in
        if list_ex (\<lambda>c. \<not> cl_revoked c) (cfg_clients cfg) then (Inr (cfg, []), e)
        else if length (cfg_pairing_codes cfg) > 0
        then (Inr (cfg, pc_code (cfg_pairing_codes cfg ! 0)), e)
        else
          (case random_code 6 e of (created, e) \<Rightarrow>
           case time_now e of (now, e) \<Rightarrow>
             (Inr (cfg\<lparr>cfg_pairing_codes := cfg_pairing_codes cfg @
                [\<lparr>pc_code = created, pc_scopes = sv_default_scope sv,
                  pc_expires_at = now + sv_pairing_ttl sv\<rparr>]\<rparr>, created), e)))"

definition ensure_bootstrap :: "auth_service \<Rightarrow> string \<Rightarrow> string op" where
  "ensure_bootstrap sv server_name w =
     (case store_update (bootstrap_fn sv server_name) w of
        (Inl e, w) \<Rightarrow> (Inl e, w)
      | (Inr (_, created), w) \<Rightarrow> (Inr created, w))"

definition generate_code_fn :: "pairing_code \<Rightarrow> config \<Rightarrow> (config \<times> unit) res eff" where
  "generate_code_fn result cfg e =
     (case time_now e of (now, e) \<Rightarrow>
        let cfg = prune_expired_codes cfg now in
        (Inr (cfg\<lparr>cfg_pairing_codes := cfg_pairing_codes cfg @
           [\<lparr>pc_code = pg_code result, pc_scopes = pg_scopes result,
             pc_expires_at = pg_expires_at result\<rparr>]\<rparr>, ()), e))"

definition generate_pairing_code :: "auth_service \<Rightarrow> int \<Rightarrow> string list \<Rightarrow> pairing_code op" where
  "generate_pairing_code sv ttl scopes w =
     (let ttl = (if ttl \<le> 0 then sv_pairing_ttl sv else ttl);
          scopes = (if length scopes = 0 then sv_default_scope sv else scopes) in
      case with_eff (random_code 6) w of (code, w) \<Rightarrow>
      case with_eff time_now w of (now, w) \<Rightarrow>
        let result = \<lparr>pg_code = code, pg_expires_at = now + ttl, pg_scopes = clean_scopes scopes\<rparr> in
        (case store_update (generate_code_fn result) w of
           (Inl e, w) \<Rightarrow> (Inl e, w)
         | (Inr _, w) \<Rightarrow> (Inr result, w)))"

definition pair_fn ::
  "auth_service \<Rightarrow> string \<Rightarrow> string \<Rightarrow> string \<Rightarrow> config \<Rightarrow> (config \<times> pair_result) res eff" where
  "pair_fn sv code client_name client_type cfg e =
     (case time_now e of (now, e) \<Rightarrow>
        let cfg = prune_expired_codes cfg now in
        (case index_of (\<lambda>p. pc_code p = code) (cfg_pairing_codes cfg) of
           None \<Rightarrow> (Inl ErrInvalidCode, e)
         | Some index \<Rightarrow>
             let pending = cfg_pairing_codes cfg ! index;
                 cfg = cfg\<lparr>cfg_pairing_codes := remove_at index (cfg_pairing_codes cfg)\<rparr> in
             (case random_id ''c'' e of (client_id, e) \<Rightarrow>
              case mint (sv_tokens sv) client_id (pc_scopes pending) (sv_default_ttl sv) e of
                ((token, claims), e) \<Rightarrow>
                  (Inr (cfg\<lparr>cfg_clients := cfg_clients cfg @
                      [new_client client_id client_name client_type (pc_scopes pending) claims now]\<rparr>,
                    \<lparr>pr_token = token, pr_client_id = client_id, pr_expires_at = expiry_time claims,
                     pr_scopes = pc_scopes pending\<rparr>), e))))"

definition pair :: "auth_service \<Rightarrow> string \<Rightarrow> string \<Rightarrow> string \<Rightarrow> pair_result op" where
  "pair sv code client_name client_type w =
     (let code = to_upper (trim_space code);
          client_name = trim_space client_name;
          client_type = trim_space client_type in
      if code = [] \<or> client_name = [] \<or> client_type = [] then (Inl ErrInvalidCode, w)
      else
        (case store_update (pair_fn sv code client_name client_type) w of
           (Inl e, w) \<Rightarrow> (Inl e, w)
         | (Inr (_, result), w) \<Rightarrow> (Inr result, w)))"

section \<open>Clients\<close>

text \<open>The client the loop of \<open>Authenticate\<close> stops at.\<close>

definition matches_claims :: "token_claims \<Rightarrow> client \<Rightarrow> bool" where
  "matches_claims claims c \<longleftrightarrow>
     \<not> (cl_id c \<noteq> tc_sub claims \<or> cl_token_jti c \<noteq> tc_jti claims \<or> cl_revoked c)"

definition authenticate_fn :: "token_claims \<Rightarrow> config \<Rightarrow> (config \<times> auth_client) res eff" where
  "authenticate_fn claims cfg e =
     (case index_of (matches_claims claims) (cfg_clients cfg) of
        None \<Rightarrow> (Inl ErrUnauthorized, e)
      | Some i \<Rightarrow>
          (case time_now e of (now, e) \<Rightarrow>
             let client = (cfg_clients cfg ! i)\<lparr>cl_last_seen := now\<rparr> in
             (Inr (cfg\<lparr>cfg_clients := (cfg_clients cfg)[i := client]\<rparr>,
                \<lparr>ac_id = cl_id client, ac_name = cl_name client, ac_type = cl_type client,
                 ac_scopes = cl_scopes client\<rparr>), e)))"

definition authenticate :: "auth_service \<Rightarrow> string \<Rightarrow> (auth_client \<times> token_claims) op" where
  "authenticate sv token w =
     (case with_eff (verify (sv_tokens sv) (trim_space token)) w of
        (Inl _, w) \<Rightarrow> (Inl ErrUnauthorized, w)
      | (Inr claims, w) \<Rightarrow>
          (case store_update (authenticate_fn claims) w of
             (Inl _, w) \<Rightarrow> (Inl ErrUnauthorized, w)
           | (Inr (_, authed), w) \<Rightarrow> (Inr (authed, claims), w)))"

definition list_clients :: "auth_service \<Rightarrow> client list op" where
  "list_clients sv w =
     (case store_load w of
        (Inl e, w) \<Rightarrow> (Inl e, w)
      | (Inr cfg, w) \<Rightarrow> (Inr (cfg_clients cfg), w))"

definition revoke_fn :: "string \<Rightarrow> config \<Rightarrow> (config \<times> bool) res eff" where
  "revoke_fn client_id cfg e =
     (case index_of (\<lambda>c. cl_id c = client_id) (cfg_clients cfg) of
        None \<Rightarrow> (Inr (cfg, False), e)
      | Some i \<Rightarrow>
          (Inr (cfg\<lparr>cfg_clients :=
             (cfg_clients cfg)[i := (cfg_clients cfg ! i)\<lparr>cl_revoked := True\<rparr>]\<rparr>, True), e))"

definition revoke_client :: "auth_service \<Rightarrow> string \<Rightarrow> bool op" where
  "revoke_client sv client_id w =
     (let client_id = trim_space client_id in
      if client_id = [] then (Inr False, w)
      else
        (case store_update (revoke_fn client_id) w of
           (Inl e, w) \<Rightarrow> (Inl e, w)
         | (Inr (_, revoked), w) \<Rightarrow> (Inr revoked, w)))"

definition pairing_message :: "string \<Rightarrow> go_time \<Rightarrow> string" where
  "pairing_message code expires_at =
     ''bootstrap pairing code: '' @ code @ '' (expires '' @ fmt_rfc3339 expires_at @ '')''"

section \<open>What the operations do\<close>

definition live_codes :: "go_time \<Rightarrow> config \<Rightarrow> pending_pair_code list" where
  "live_codes now cfg = filter (\<lambda>p. pc_expires_at p > now) (cfg_pairing_codes cfg)"

definition live_sessions :: "go_time \<Rightarrow> config \<Rightarrow> pending_session list" where
  "live_sessions now cfg =
     filter (\<lambda>s. ps_expires_at s > now \<or> ps_status s = ''approved'') (cfg_sessions cfg)"

lemma prune_simps [cfg_simps]:
  "prune_expired_codes cfg now = cfg\<lparr>cfg_pairing_codes := live_codes now cfg\<rparr>"
  "prune_expired_sessions cfg now = cfg\<lparr>cfg_sessions := live_sessions now cfg\<rparr>"
  by (simp_all add: prune_expired_codes_def prune_expired_sessions_def live_codes_def live_sessions_def)

lemma live_update [simp]:
  "live_codes now (cfg\<lparr>cfg_pairing_codes := cs\<rparr>) = filter (\<lambda>p. pc_expires_at p > now) cs"
  "live_codes now (cfg\<lparr>cfg_sessions := ss\<rparr>) = live_codes now cfg"
  "live_codes now (cfg\<lparr>cfg_clients := xs\<rparr>) = live_codes now cfg"
  "live_codes now (cfg\<lparr>cfg_server_name := nm\<rparr>) = live_codes now cfg"
  "live_sessions now (cfg\<lparr>cfg_pairing_codes := cs\<rparr>) = live_sessions now cfg"
  "live_sessions now (cfg\<lparr>cfg_clients := xs\<rparr>) = live_sessions now cfg"
  by (simp_all add: live_codes_def live_sessions_def)

lemma set_live_codes: "set (live_codes now cfg) \<subseteq> set (cfg_pairing_codes cfg)"
  by (auto simp: live_codes_def)

lemma set_live_sessions: "set (live_sessions now cfg) \<subseteq> set (cfg_sessions cfg)"
  by (auto simp: live_sessions_def)

lemma create_session_fn_ok:
  assumes "create_session_fn session n t cfg e = (r, e')"
  shows "r = Inr (cfg\<lparr>cfg_pairing_codes := live_codes (clock e 0) cfg,
     cfg_sessions := live_sessions (clock e 1) cfg @
       [zero_session\<lparr>ps_id := sn_id session, ps_code := sn_code session, ps_client_name := n,
          ps_client_type := t, ps_status := ''pending'', ps_expires_at := sn_expires_at session\<rparr>]\<rparr>, ())"
  using assms by (auto simp: create_session_fn_def time_now_def Let_def cfg_simps)

lemma generate_code_fn_ok:
  assumes "generate_code_fn g cfg e = (r, e')"
  shows "r = Inr (cfg\<lparr>cfg_pairing_codes := live_codes (clock e 0) cfg @
       [\<lparr>pc_code = pg_code g, pc_scopes = pg_scopes g, pc_expires_at = pg_expires_at g\<rparr>]\<rparr>, ())"
  using assms by (auto simp: generate_code_fn_def time_now_def Let_def cfg_simps)

lemma bootstrap_fn_cases:
  assumes "bootstrap_fn sv name cfg e = (r, e')"
  obtains (active) "list_ex (\<lambda>c. \<not> cl_revoked c) (cfg_clients cfg)"
      "r = Inr (cfg\<lparr>cfg_server_name := name, cfg_pairing_codes := live_codes (clock e 0) cfg\<rparr>, [])"
  | (reused) p ps where "\<not> list_ex (\<lambda>c. \<not> cl_revoked c) (cfg_clients cfg)"
      "live_codes (clock e 0) cfg = p # ps"
      "r = Inr (cfg\<lparr>cfg_server_name := name, cfg_pairing_codes := live_codes (clock e 0) cfg\<rparr>, pc_code p)"
  | (fresh) code where "\<not> list_ex (\<lambda>c. \<not> cl_revoked c) (cfg_clients cfg)"
      "live_codes (clock e 0) cfg = []" "code = fst (random_code 6 e)"
      "r = Inr (cfg\<lparr>cfg_server_name := name, cfg_pairing_codes :=
         [\<lparr>pc_code = code, pc_scopes = sv_default_scope sv,
           pc_expires_at = clock e 1 + sv_pairing_ttl sv\<rparr>]\<rparr>, code)"
proof (cases "list_ex (\<lambda>c. \<not> cl_revoked c) (cfg_clients cfg)")
  case True
  with assms active show thesis
    by (auto simp: bootstrap_fn_def time_now_def Let_def cfg_simps)
next
  case False
  show thesis
  proof (cases "live_codes (clock e 0) cfg")
    case Nil
    with False assms show thesis
      by (intro fresh) (auto simp: bootstrap_fn_def time_now_def random_code_def rand_read_def
          Let_def cfg_simps)
  next
    case (Cons p ps)
    with False assms reused show thesis
      by (auto simp: bootstrap_fn_def time_now_def Let_def cfg_simps)
  qed
qed

text \<open>The client and the token that an approval or a pairing at \<open>now\<close> makes.\<close>

definition grants ::
  "auth_service \<Rightarrow> string list \<Rightarrow> int \<Rightarrow> effects \<Rightarrow> string \<Rightarrow> string \<Rightarrow> token_claims \<Rightarrow> bool" where
  "grants sv scopes ttl e cid token claims \<longleftrightarrow>
     token = token_of (sv_tokens sv) claims \<and> tc_sub claims = cid \<and>
     tc_scopes claims = clean_scopes scopes \<and>
     tc_expiry claims = word_of_int (unix_of (clock e 1 + ttl))"

lemma pair_fn_cases:
  assumes "pair_fn sv code name type cfg e = (r, e')"
  obtains (refused) "index_of (\<lambda>p. pc_code p = code) (live_codes (clock e 0) cfg) = None"
      "r = Inl ErrInvalidCode"
  | (paired) i p cid token claims where
      "index_of (\<lambda>p. pc_code p = code) (live_codes (clock e 0) cfg) = Some i"
      "p = live_codes (clock e 0) cfg ! i"
      "grants sv (pc_scopes p) (sv_default_ttl sv) e cid token claims"
      "r = Inr (cfg\<lparr>cfg_pairing_codes := remove_at i (live_codes (clock e 0) cfg),
             cfg_clients := cfg_clients cfg @ [new_client cid name type (pc_scopes p) claims (clock e 0)]\<rparr>,
           \<lparr>pr_token = token, pr_client_id = cid, pr_expires_at = expiry_time claims,
            pr_scopes = pc_scopes p\<rparr>)"
      "clock e' = (\<lambda>i. clock e (i + 2))"
proof (cases "index_of (\<lambda>p. pc_code p = code) (live_codes (clock e 0) cfg)")
  case None
  with assms show thesis
    by (intro refused) (auto simp: pair_fn_def time_now_def Let_def cfg_simps)
next
  case (Some i)
  define e1 where "e1 = snd (time_now e)"
  define cid where "cid = fst (random_id ''c'' e1)"
  define e2 where "e2 = snd (random_id ''c'' e1)"
  define p where "p = live_codes (clock e 0) cfg ! i"
  obtain token claims e3
    where m: "mint (sv_tokens sv) cid (pc_scopes p) (sv_default_ttl sv) e2 = ((token, claims), e3)"
    by (metis surj_pair)
  have e2: "clock e2 = (\<lambda>i. clock e (Suc i))"
    by (simp add: e2_def e1_def time_now_def)
  have t: "time_now e = (clock e 0, e1)" by (simp add: e1_def time_now_def)
  have c: "random_id ''c'' e1 = (cid, e2)" by (simp add: cid_def e2_def)
  have g: "grants sv (pc_scopes p) (sv_default_ttl sv) e cid token claims"
    using mint_result [OF m] by (simp add: grants_def e2)
  show thesis
    by (rule paired [OF Some p_def g])
      (use assms Some mint_result(7) [OF m] e2 in \<open>auto simp: pair_fn_def t c m [unfolded p_def] Let_def cfg_simps p_def\<close>)
qed

lemma approve_session_fn_cases:
  assumes "approve_session_fn sv sid requested cfg e = (r, e')"
  obtains (missing) "index_of (\<lambda>p. ps_id p = sid) (live_sessions (clock e 0) cfg) = None"
      "r = Inl (ErrMsg ''session not found'')"
  | (expired) i where "index_of (\<lambda>p. ps_id p = sid) (live_sessions (clock e 0) cfg) = Some i"
      "ps_expires_at (live_sessions (clock e 0) cfg ! i) \<le> clock e 0" "r = Inl ErrSessionExpired"
  | (approved) i s s' cid token claims where
      "index_of (\<lambda>p. ps_id p = sid) (live_sessions (clock e 0) cfg) = Some i"
      "s = live_sessions (clock e 0) cfg ! i" "clock e 0 < ps_expires_at s"
      "grants sv requested (24 * hour) e cid token claims"
      "s' = s\<lparr>ps_status := ''approved'', ps_token := token, ps_client_id := cid,
              ps_scopes := requested, ps_expires_at := expiry_time claims\<rparr>"
      "r = Inr (cfg\<lparr>cfg_clients := cfg_clients cfg @
               [new_client cid (ps_client_name s) (ps_client_type s) requested claims (clock e 0)],
             cfg_sessions := (live_sessions (clock e 0) cfg)[i := s']\<rparr>, session_of s')"
      "clock e' = (\<lambda>i. clock e (i + 2))"
proof (cases "index_of (\<lambda>p. ps_id p = sid) (live_sessions (clock e 0) cfg)")
  case None
  with assms show thesis
    by (intro missing) (auto simp: approve_session_fn_def time_now_def Let_def cfg_simps)
next
  case (Some i)
  define s where "s = live_sessions (clock e 0) cfg ! i"
  show thesis
  proof (cases "clock e 0 < ps_expires_at s")
    case False
    with assms Some show thesis
      by (intro expired) (auto simp: approve_session_fn_def time_now_def Let_def cfg_simps s_def)
  next
    case True
    define e1 where "e1 = snd (time_now e)"
    define cid where "cid = fst (random_id ''c'' e1)"
    define e2 where "e2 = snd (random_id ''c'' e1)"
    obtain token claims e3
      where m: "mint (sv_tokens sv) cid requested (24 * hour) e2 = ((token, claims), e3)"
      by (metis surj_pair)
    have e2: "clock e2 = (\<lambda>i. clock e (Suc i))"
      by (simp add: e2_def e1_def time_now_def)
    have t: "time_now e = (clock e 0, e1)" by (simp add: e1_def time_now_def)
    have c: "random_id ''c'' e1 = (cid, e2)" by (simp add: cid_def e2_def)
    have g: "grants sv requested (24 * hour) e cid token claims"
      using mint_result [OF m] by (simp add: grants_def e2)
    show thesis
      by (rule approved [OF Some s_def True g refl])
        (use assms Some True mint_result(7) [OF m] e2 in
          \<open>auto simp: approve_session_fn_def t c m [simplified] Let_def cfg_simps s_def\<close>)
  qed
qed

lemma authenticate_fn_cases:
  assumes "authenticate_fn claims cfg e = (r, e')"
  obtains (refused) "\<forall>c \<in> set (cfg_clients cfg). \<not> matches_claims claims c" "r = Inl ErrUnauthorized"
  | (found) i c where "index_of (matches_claims claims) (cfg_clients cfg) = Some i"
      "c = cfg_clients cfg ! i" "matches_claims claims c" "c \<in> set (cfg_clients cfg)"
      "r = Inr (cfg\<lparr>cfg_clients := (cfg_clients cfg)[i := c\<lparr>cl_last_seen := clock e 0\<rparr>]\<rparr>,
             \<lparr>ac_id = cl_id c, ac_name = cl_name c, ac_type = cl_type c, ac_scopes = cl_scopes c\<rparr>)"
proof (cases "index_of (matches_claims claims) (cfg_clients cfg)")
  case None
  with assms refused show thesis
    by (auto simp: authenticate_fn_def index_of_None_iff)
next
  case (Some i)
  show thesis
    by (rule found [OF Some refl])
      (use assms Some index_of_SomeD [OF Some] in \<open>auto simp: authenticate_fn_def time_now_def Let_def\<close>)
qed

lemma revoke_fn_cases:
  assumes "revoke_fn cid cfg e = (r, e')"
  obtains (unknown) "cid \<notin> cl_id ` set (cfg_clients cfg)" "r = Inr (cfg, False)"
  | (revoked) i where "index_of (\<lambda>c. cl_id c = cid) (cfg_clients cfg) = Some i"
      "r = Inr (cfg\<lparr>cfg_clients := (cfg_clients cfg)[i := (cfg_clients cfg ! i)\<lparr>cl_revoked := True\<rparr>]\<rparr>, True)"
proof (cases "index_of (\<lambda>c. cl_id c = cid) (cfg_clients cfg)")
  case None
  with assms unknown show thesis
    by (auto simp: revoke_fn_def index_of_None_iff)
next
  case (Some i)
  with assms revoked show thesis by (auto simp: revoke_fn_def)
qed

section \<open>The operations on the stored configuration\<close>

lemma stored_with_eff: "with_eff m w = (a, w') \<Longrightarrow> stored w' = stored w"
  using with_eff_disk [of m w a w'] by (simp add: stored_def)

lemma no_faults_with_eff: "with_eff m w = (a, w') \<Longrightarrow> no_faults w' = no_faults w"
  by (auto simp: with_eff_def no_faults_def split: prod.splits)

lemma with_eff_pair: "m (w_eff w) = (a, e') \<Longrightarrow> with_eff m w = (a, w\<lparr>w_eff := e'\<rparr>)"
  by (simp add: with_eff_def)

lemma with_eff_time:
  "with_eff time_now w = (t, w') \<Longrightarrow>
     t = clock (w_eff w) 0 \<and> clock (w_eff w') = (\<lambda>i. clock (w_eff w) (Suc i))"
  by (auto simp: with_eff_def time_now_def)

lemma with_eff_random:
  "with_eff (random_id pre) w = (x, w') \<Longrightarrow>
     x = fst (random_id pre (w_eff w)) \<and> clock (w_eff w') = clock (w_eff w)"
  "with_eff (random_digits n) w = (x, w') \<Longrightarrow>
     x = fst (random_digits n (w_eff w)) \<and> clock (w_eff w') = clock (w_eff w)"
  "with_eff (random_code n) w = (x, w') \<Longrightarrow>
     x = fst (random_code n (w_eff w)) \<and> clock (w_eff w') = clock (w_eff w)"
  by (auto simp: with_eff_def random_id_def random_digits_def random_code_def rand_read_def)

lemma pair_cases:
  assumes "pair sv code name type w = (r, w')"
  obtains (failed) err where "r = Inl err" "stored w' = stored w"
  | (paired) c0 i p cid token claims where "stored w = Some c0"
      "to_upper (trim_space code) \<noteq> []" "trim_space name \<noteq> []" "trim_space type \<noteq> []"
      "index_of (\<lambda>p. pc_code p = to_upper (trim_space code)) (live_codes (clock (w_eff w) 0) c0) = Some i"
      "p = live_codes (clock (w_eff w) 0) c0 ! i"
      "grants sv (pc_scopes p) (sv_default_ttl sv) (w_eff w) cid token claims"
      "r = Inr \<lparr>pr_token = token, pr_client_id = cid, pr_expires_at = expiry_time claims,
            pr_scopes = pc_scopes p\<rparr>"
      "stored w' = Some (c0\<lparr>cfg_pairing_codes := remove_at i (live_codes (clock (w_eff w) 0) c0),
         cfg_clients := cfg_clients c0 @
           [new_client cid (trim_space name) (trim_space type) (pc_scopes p) claims (clock (w_eff w) 0)]\<rparr>)"
      "clock (w_eff w') = (\<lambda>i. clock (w_eff w) (i + 2))"
proof (cases "to_upper (trim_space code) = [] \<or> trim_space name = [] \<or> trim_space type = []")
  case True
  with assms failed show thesis by (auto simp: pair_def Let_def)
next
  case False
  let ?fn = "pair_fn sv (to_upper (trim_space code)) (trim_space name) (trim_space type)"
  obtain u w1 where u: "store_update ?fn w = (u, w1)" by fastforce
  from state.update_cases [OF u] show thesis
  proof (elim disjE exE conjE)
    fix e assume "u = Inl e" "stored w1 = stored w"
    with assms False u failed show thesis by (auto simp: pair_def Let_def)
  next
    fix c0 c a
    assume h: "u = Inr (c, a)" "stored w = Some c0" "?fn c0 (w_eff w) = (Inr (c, a), w_eff w1)"
      "stored w1 = Some c"
    from assms False u h(1) have rw: "r = Inr a" "w' = w1" by (auto simp: pair_def Let_def)
    from h(3) show thesis
      by (cases rule: pair_fn_cases) (use h rw False in \<open>auto intro!: paired\<close>)
  qed
qed

lemma approve_session_cases:
  assumes "approve_session sv sid approver scopes w = (r, w')"
  obtains (forbidden) "r = Inl ErrForbidden" "w' = w"
  | (failed) err where "r = Inl err" "stored w' = stored w"
  | (approved) requested c0 i s s' cid token claims where
      "requested = (if clean_scopes scopes = [] then [''read'', ''send''] else clean_scopes scopes)"
      "set requested \<subseteq> set (tc_scopes approver)" "stored w = Some c0"
      "index_of (\<lambda>p. ps_id p = trim_space sid) (live_sessions (clock (w_eff w) 0) c0) = Some i"
      "s = live_sessions (clock (w_eff w) 0) c0 ! i" "clock (w_eff w) 0 < ps_expires_at s"
      "grants sv requested (24 * hour) (w_eff w) cid token claims"
      "s' = s\<lparr>ps_status := ''approved'', ps_token := token, ps_client_id := cid,
              ps_scopes := requested, ps_expires_at := expiry_time claims\<rparr>"
      "r = Inr (session_of s')"
      "stored w' = Some (c0\<lparr>cfg_clients := cfg_clients c0 @
               [new_client cid (ps_client_name s) (ps_client_type s) requested claims (clock (w_eff w) 0)],
             cfg_sessions := (live_sessions (clock (w_eff w) 0) c0)[i := s']\<rparr>)"
      "clock (w_eff w') = (\<lambda>i. clock (w_eff w) (i + 2))"
proof -
  let ?req = "if clean_scopes scopes = [] then [''read'', ''send''] else clean_scopes scopes"
  show thesis
  proof (cases "set ?req \<subseteq> set (tc_scopes approver)")
    case False
    with assms forbidden show thesis by (auto simp: approve_session_def Let_def scopes_subset_iff)
  next
    case True
    let ?fn = "approve_session_fn sv (trim_space sid) ?req"
    obtain u w1 where u: "store_update ?fn w = (u, w1)" by fastforce
    have r: "(r, w') = (case u of Inl e \<Rightarrow> (Inl e, w1) | Inr (_, a) \<Rightarrow> (Inr a, w1))"
      using assms True u by (simp add: approve_session_def Let_def scopes_subset_iff split: if_splits)
    from state.update_cases [OF u] show thesis
    proof (elim disjE exE conjE)
      fix e assume "u = Inl e" "stored w1 = stored w"
      with r failed show thesis by simp
    next
      fix c0 c a
      assume h: "u = Inr (c, a)" "stored w = Some c0" "?fn c0 (w_eff w) = (Inr (c, a), w_eff w1)"
        "stored w1 = Some c"
      from r h(1) have rw: "r = Inr a" "w' = w1" by auto
      from h(3) show thesis
      proof (cases rule: approve_session_fn_cases)
        case (approved i s s' cid token claims)
        with h rw show thesis
          by (intro that(3) [OF refl True h(2) approved(1-5)]) auto
      qed (use h rw in auto)
    qed
  qed
qed

lemma create_session_cases:
  assumes "create_session sv name type w = (r, w')"
  obtains (failed) err where "r = Inl err" "stored w' = stored w"
  | (created) c0 s t1 t2 where "stored w = Some c0" "r = Inr s"
      "trim_space name \<noteq> []" "trim_space type \<noteq> []"
      "sn_status s = ''pending''" "sn_token s = []" "sn_scopes s = []"
      "sn_expires_at s = clock (w_eff w) 0 + 3 * minute"
      "sn_id s = fst (random_id ''s'' (w_eff w))"
      "t1 = clock (w_eff w) 1" "t2 = clock (w_eff w) 2"
      "stored w' = Some (c0\<lparr>cfg_pairing_codes := live_codes t1 c0,
         cfg_sessions := live_sessions t2 c0 @
           [zero_session\<lparr>ps_id := sn_id s, ps_code := sn_code s, ps_client_name := trim_space name,
              ps_client_type := trim_space type, ps_status := ''pending'',
              ps_expires_at := sn_expires_at s\<rparr>]\<rparr>)"
proof (cases "trim_space name = [] \<or> trim_space type = []")
  case True
  with assms failed show thesis by (auto simp: create_session_def Let_def)
next
  case False
  obtain sid w1 where a1: "with_eff (random_id ''s'') w = (sid, w1)" by fastforce
  obtain code w2 where a2: "with_eff (random_digits 6) w1 = (code, w2)" by fastforce
  obtain now w3 where a3: "with_eff time_now w2 = (now, w3)" by fastforce
  define s where "s = \<lparr>sn_id = sid, sn_code = code, sn_status = ''pending'', sn_token = [],
                sn_client_id = [], sn_expires_at = now + 3 * minute, sn_scopes = []\<rparr>"
  let ?fn = "create_session_fn s (trim_space name) (trim_space type)"
  obtain u w4 where u: "store_update ?fn w3 = (u, w4)" by fastforce
  have r: "(r, w') = (case u of Inl e \<Rightarrow> (Inl e, w4) | Inr _ \<Rightarrow> (Inr s, w4))"
    using assms False u by (cases u) (simp_all add: create_session_def Let_def a1 a2 a3 s_def)
  have d: "stored w3 = stored w" "sid = fst (random_id ''s'' (w_eff w))" "now = clock (w_eff w) 0"
    "clock (w_eff w3) = (\<lambda>i. clock (w_eff w) (Suc i))"
    using stored_with_eff [OF a1] stored_with_eff [OF a2] stored_with_eff [OF a3]
      with_eff_random(1) [OF a1] with_eff_random(2) [OF a2] with_eff_time [OF a3]
    by simp_all
  from state.update_cases [OF u] show thesis
  proof (elim disjE exE conjE)
    fix e assume "u = Inl e" "stored w4 = stored w3"
    with r d failed show thesis by simp
  next
    fix c0 c a
    assume h: "u = Inr (c, a)" "stored w3 = Some c0" "?fn c0 (w_eff w3) = (Inr (c, a), w_eff w4)"
      "stored w4 = Some c"
    from r h(1) have rw: "r = Inr s" "w' = w4" by auto
    show thesis
      using create_session_fn_ok [OF h(3)] h rw d False
      by (intro created [of c0 s]) (simp_all add: s_def numeral_2_eq_2)
  qed
qed

lemma generate_pairing_code_cases:
  assumes "generate_pairing_code sv ttl scopes w = (r, w')"
  obtains (failed) err where "r = Inl err" "stored w' = stored w"
  | (generated) c0 g where "stored w = Some c0" "r = Inr g"
      "pg_code g = fst (random_code 6 (w_eff w))"
      "pg_scopes g = clean_scopes (if scopes = [] then sv_default_scope sv else scopes)"
      "pg_expires_at g = clock (w_eff w) 0 + (if ttl \<le> 0 then sv_pairing_ttl sv else ttl)"
      "stored w' = Some (c0\<lparr>cfg_pairing_codes := live_codes (clock (w_eff w) 1) c0 @
         [\<lparr>pc_code = pg_code g, pc_scopes = pg_scopes g, pc_expires_at = pg_expires_at g\<rparr>]\<rparr>)"
      "clock (w_eff w') = (\<lambda>i. clock (w_eff w) (i + 2))"
proof -
  obtain code w1 where a1: "with_eff (random_code 6) w = (code, w1)" by fastforce
  obtain now w2 where a2: "with_eff time_now w1 = (now, w2)" by fastforce
  define g where "g = \<lparr>pg_code = code,
     pg_expires_at = now + (if ttl \<le> 0 then sv_pairing_ttl sv else ttl),
     pg_scopes = clean_scopes (if scopes = [] then sv_default_scope sv else scopes)\<rparr>"
  obtain u w3 where u: "store_update (generate_code_fn g) w2 = (u, w3)" by fastforce
  have r: "(r, w') = (case u of Inl e \<Rightarrow> (Inl e, w3) | Inr _ \<Rightarrow> (Inr g, w3))"
    using assms u by (cases u) (simp_all add: generate_pairing_code_def Let_def a1 a2 g_def)
  have d: "stored w2 = stored w" "code = fst (random_code 6 (w_eff w))" "now = clock (w_eff w) 0"
    "clock (w_eff w2) = (\<lambda>i. clock (w_eff w) (Suc i))"
    using stored_with_eff [OF a1] stored_with_eff [OF a2]
      with_eff_random(3) [OF a1] with_eff_time [OF a2]
    by simp_all
  from state.update_cases [OF u] show thesis
  proof (elim disjE exE conjE)
    fix e assume "u = Inl e" "stored w3 = stored w2"
    with r d failed show thesis by simp
  next
    fix c0 c a
    assume h: "u = Inr (c, a)" "stored w2 = Some c0"
      "generate_code_fn g c0 (w_eff w2) = (Inr (c, a), w_eff w3)" "stored w3 = Some c"
    from r h(1) have rw: "r = Inr g" "w' = w3" by auto
    have "clock (w_eff w3) = (\<lambda>i. clock (w_eff w) (i + 2))"
      using h(3) d(4) by (auto simp: generate_code_fn_def time_now_def Let_def dest: sym)
    then show thesis
      using generate_code_fn_ok [OF h(3)] h rw d
      by (intro generated [of c0 g]) (simp_all add: g_def)
  qed
qed

lemma ensure_bootstrap_cases:
  assumes "ensure_bootstrap sv name w = (r, w')"
  obtains (failed) err where "r = Inl err" "stored w' = stored w"
  | (committed) c0 code c1 e' where "stored w = Some c0" "r = Inr code" "stored w' = Some c1"
      "bootstrap_fn sv name c0 (w_eff w) = (Inr (c1, code), e')"
proof -
  obtain u w1 where u: "store_update (bootstrap_fn sv name) w = (u, w1)" by fastforce
  have r: "(r, w') = (case u of Inl e \<Rightarrow> (Inl e, w1) | Inr (_, a) \<Rightarrow> (Inr a, w1))"
    using assms u by (simp add: ensure_bootstrap_def)
  from state.update_cases [OF u] r show thesis
    by (elim disjE exE conjE) (auto intro: failed committed)
qed

lemma authenticate_cases:
  assumes "authenticate sv token w = (r, w')"
  obtains (failed) "r = Inl ErrUnauthorized" "stored w' = stored w"
  | (found) claims c0 i c now where "signed_payload (sv_tokens sv) (trim_space token) \<noteq> None"
      "Option.bind (signed_payload (sv_tokens sv) (trim_space token)) parse_claims = Some claims"
      "unix_of (clock (w_eff w) 0) < sint (tc_expiry claims)" "stored w = Some c0"
      "index_of (matches_claims claims) (cfg_clients c0) = Some i" "c = cfg_clients c0 ! i"
      "matches_claims claims c" "c \<in> set (cfg_clients c0)"
      "r = Inr (\<lparr>ac_id = cl_id c, ac_name = cl_name c, ac_type = cl_type c, ac_scopes = cl_scopes c\<rparr>,
             claims)"
      "stored w' = Some (c0\<lparr>cfg_clients := (cfg_clients c0)[i := c\<lparr>cl_last_seen := now\<rparr>]\<rparr>)"
proof -
  obtain v w1 where v: "with_eff (verify (sv_tokens sv) (trim_space token)) w = (v, w1)" by fastforce
  show thesis
  proof (cases v)
    case (Inl e)
    with assms v failed show thesis
      using stored_with_eff [OF v] by (auto simp: authenticate_def)
  next
    case (Inr claims)
    obtain u w2 where u: "store_update (authenticate_fn claims) w1 = (u, w2)" by fastforce
    have r: "(r, w') = (case u of Inl e \<Rightarrow> (Inl ErrUnauthorized, w2) | Inr (_, a) \<Rightarrow> (Inr (a, claims), w2))"
      using assms v u Inr by (simp add: authenticate_def)
    have acc: "\<exists>payload. signed_payload (sv_tokens sv) (trim_space token) = Some payload \<and>
        parse_claims payload = Some claims \<and> unix_of (clock (w_eff w) 0) < sint (tc_expiry claims)"
      using with_eff_disk [OF v] Inr verify_iff by (metis fst_conv)
    from state.update_cases [OF u] show thesis
    proof (elim disjE exE conjE)
      fix e assume "u = Inl e" "stored w2 = stored w1"
      with r failed stored_with_eff [OF v] show thesis by simp
    next
      fix c0 c a
      assume h: "u = Inr (c, a)" "stored w1 = Some c0"
        "authenticate_fn claims c0 (w_eff w1) = (Inr (c, a), w_eff w2)" "stored w2 = Some c"
      from r h(1) have rw: "r = Inr (a, claims)" "w' = w2" by auto
      from h(3) show thesis
      proof (cases rule: authenticate_fn_cases)
        case (found i x)
        with acc rw h stored_with_eff [OF v] show thesis
          by (intro that(2) [OF _ _ _ _ found(1) found(2-4)]) auto
      qed simp
    qed
  qed
qed

lemma revoke_client_cases:
  assumes "revoke_client sv client_id w = (r, w')"
  obtains (same) "r \<noteq> Inr True" "stored w' = stored w"
  | (revoked) c0 i where "stored w = Some c0" "trim_space client_id \<noteq> []"
      "index_of (\<lambda>c. cl_id c = trim_space client_id) (cfg_clients c0) = Some i" "r = Inr True"
      "stored w' = Some (c0\<lparr>cfg_clients :=
         (cfg_clients c0)[i := (cfg_clients c0 ! i)\<lparr>cl_revoked := True\<rparr>]\<rparr>)"
proof (cases "trim_space client_id = []")
  case True
  with assms same show thesis by (auto simp: revoke_client_def Let_def)
next
  case False
  obtain u w1 where u: "store_update (revoke_fn (trim_space client_id)) w = (u, w1)" by fastforce
  have r: "(r, w') = (case u of Inl e \<Rightarrow> (Inl e, w1) | Inr (_, a) \<Rightarrow> (Inr a, w1))"
    using assms u False by (simp add: revoke_client_def Let_def)
  from state.update_cases [OF u] show thesis
  proof (elim disjE exE conjE)
    fix e assume "u = Inl e" "stored w1 = stored w"
    with r same show thesis by simp
  next
    fix c0 c a
    assume h: "u = Inr (c, a)" "stored w = Some c0"
      "revoke_fn (trim_space client_id) c0 (w_eff w) = (Inr (c, a), w_eff w1)" "stored w1 = Some c"
    from h(3) show thesis
      by (cases rule: revoke_fn_cases) (use h r False in \<open>auto intro: same revoked\<close>)
  qed
qed

lemma read_only_cases:
  "get_session sv sid w = (r, w') \<Longrightarrow> stored w' = stored w"
  "list_clients sv w = (rs, w') \<Longrightarrow> stored w' = stored w"
  by (auto simp: get_session_def list_clients_def Let_def split: sum.splits prod.splits
      option.splits if_splits dest!: stored_with_eff state.load_frame)

end
