(* ===== verification/PairingProps.thy ===== *)
theory PairingProps
  imports Pairing
begin

text \<open>
  What the pairing service promises: a pairing code is redeemed once, before it expires and for
  exactly its scopes; the token it gives authenticates; an approval grants no more than the
  approver has; a session hands the approved device its token.
\<close>

section \<open>Operations that meet no fault\<close>

lemma time_in_range_unix: "time_in_range t \<Longrightarrow> in_int64 (unix_of t)"
  by (auto simp: time_in_range_def unix_of_def in_int64_def min_int64_def max_int64_def
      epoch_day_def day_ns_def)

lemma marshalable_pair [simp]:
  "marshalable (c\<lparr>cfg_pairing_codes := cs, cfg_clients := xs\<rparr>) \<longleftrightarrow>
     marshalable (c\<lparr>cfg_clients := xs\<rparr>) \<and> list_all (\<lambda>p. time_in_range (pc_expires_at p)) cs"
  if "marshalable c"
  using that by (auto simp: marshalable_def)

lemma marshalable_clients_append:
  "marshalable c \<Longrightarrow> marshalable (c\<lparr>cfg_clients := cfg_clients c @ [x]\<rparr>) \<longleftrightarrow>
     time_in_range (cl_created_at x) \<and> time_in_range (cl_last_seen x)"
  by (auto simp: marshalable_def)

lemma marshalable_codes:
  "marshalable c \<Longrightarrow> p \<in> set (cfg_pairing_codes c) \<Longrightarrow> time_in_range (pc_expires_at p)"
  by (auto simp: marshalable_def list_all_iff)

lemma marshalable_seen:
  "marshalable c \<Longrightarrow> i < length (cfg_clients c) \<Longrightarrow> time_in_range now \<Longrightarrow>
     marshalable (c\<lparr>cfg_clients := (cfg_clients c)[i := (cfg_clients c ! i)\<lparr>cl_last_seen := now\<rparr>]\<rparr>)"
  by (auto simp: marshalable_def list_all_length nth_list_update)

lemma authenticate_healthy:
  assumes "no_faults w" and "stored w = Some c" and "marshalable c"
    and "signed_payload (sv_tokens sv) (trim_space token) = Some payload"
    and "parse_claims payload = Some claims"
    and "unix_of (clock (w_eff w) 0) < sint (tc_expiry claims)"
    and "x \<in> set (cfg_clients c)" and "matches_claims claims x"
    and "time_in_range (clock (w_eff w) 1)"
  shows "\<exists>ac w'. authenticate sv token w = (Inr (ac, claims), w') \<and> ac_id ac = tc_sub claims \<and>
    no_faults w'"
proof -
  obtain v w1 where v: "with_eff (verify (sv_tokens sv) (trim_space token)) w = (v, w1)" by fastforce
  have ok: "fst (verify (sv_tokens sv) (trim_space token) (w_eff w)) = Inr claims"
    using assms(4-6) verify_iff by blast
  then have vc: "verify (sv_tokens sv) (trim_space token) (w_eff w) = (Inr claims, w_eff w1)" "v = Inr claims"
    using with_eff_disk [OF v] by auto
  have w1: "stored w1 = Some c" "no_faults w1" "clock (w_eff w1) 0 = clock (w_eff w) 1"
    using stored_with_eff [OF v] no_faults_with_eff [OF v] verify_ok_clock [OF vc(1)] assms(1,2)
    by simp_all
  obtain r e' where f: "authenticate_fn claims c (w_eff w1) = (r, e')" by fastforce
  from f show ?thesis
  proof (cases rule: authenticate_fn_cases)
    case refused
    with assms(7,8) show ?thesis by blast
  next
    case (found i y)
    let ?c = "c\<lparr>cfg_clients := (cfg_clients c)[i := y\<lparr>cl_last_seen := clock (w_eff w1) 0\<rparr>]\<rparr>"
    have "marshalable ?c"
      using marshalable_seen [OF assms(3)] index_of_SomeD [OF found(1)] found(2) assms(9) w1(3)
      by simp
    from state.update_healthy [where fn = "authenticate_fn claims", OF w1(2,1) f [unfolded found(5)] this]
    show ?thesis
      using found(3) by (auto simp: authenticate_def v vc(2) matches_claims_def)
  qed
qed

lemma pair_healthy:
  assumes "no_faults w" and "stored w = Some c" and "marshalable c"
    and "p \<in> set (live_codes (clock (w_eff w) 0) c)" and "pc_code p = to_upper (trim_space code)"
    and "to_upper (trim_space code) \<noteq> []" and "trim_space name \<noteq> []" and "trim_space type \<noteq> []"
    and "time_in_range (clock (w_eff w) 0)"
  shows "\<exists>r w'. pair sv code name type w = (Inr r, w') \<and> no_faults w'"
proof -
  let ?fn = "pair_fn sv (to_upper (trim_space code)) (trim_space name) (trim_space type)"
  obtain r e' where f: "?fn c (w_eff w) = (r, e')" by fastforce
  from f show ?thesis
  proof (cases rule: pair_fn_cases)
    case refused
    with assms(4,5) show ?thesis by (auto simp: index_of_None_iff)
  next
    case (paired i p cid token claims)
    have codes: "list_all (\<lambda>p. time_in_range (pc_expires_at p))
        (remove_at i (live_codes (clock (w_eff w) 0) c))"
      using marshalable_codes [OF assms(3)] set_remove_at set_live_codes
      by (fastforce simp: list_all_iff)
    show ?thesis
      using state.update_healthy [where fn = ?fn, OF assms(1,2) f [unfolded paired(4)]] codes assms
      by (auto simp: pair_def marshalable_clients_append new_client_def)
  qed
qed

lemma live_code_found:
  assumes "index_of P (live_codes now c) = Some i"
  shows "\<exists>p \<in> set (cfg_pairing_codes c). P p"
proof
  show "P (live_codes now c ! i)" using index_of_SomeD [OF assms] by blast
  show "live_codes now c ! i \<in> set (cfg_pairing_codes c)"
    using index_of_nth_mem [OF assms] set_live_codes by blast
qed

lemma pair_fn_refused:
  assumes "\<forall>q \<in> set (cfg_pairing_codes c). pc_code q \<noteq> code"
  shows "\<exists>e'. pair_fn sv code n t c e = (Inl ErrInvalidCode, e')"
proof -
  obtain r e' where f: "pair_fn sv code n t c e = (r, e')" by fastforce
  then show ?thesis
  proof (cases rule: pair_fn_cases)
    case (paired i p cid token claims)
    with assms show ?thesis
      using live_code_found [OF paired(1)] by blast
  qed (use f in simp)
qed

section \<open>Properties\<close>

text \<open>
  C14. Pairing is one transaction. If it succeeds, a pending code equal to the typed one up
  to case and surrounding whitespace had not expired at the clock reading; exactly that code and the
  expired ones leave the list, exactly one client is added, with the code's scopes and the
  trimmed name and type, and nothing else changes. If it fails, nothing changes.
\<close>

theorem pair_effect:
  "case pair sv code name type w of
     (Inl err, w') \<Rightarrow> stored w' = stored w
   | (Inr result, w') \<Rightarrow>
       \<exists>c0 c1 p x now. stored w = Some c0 \<and> stored w' = Some c1 \<and> now = clock (w_eff w) 0 \<and>
         p \<in> set (cfg_pairing_codes c0) \<and> pc_code p = to_upper (trim_space code) \<and>
         now < pc_expires_at p \<and>
         mset (filter (\<lambda>q. now < pc_expires_at q) (cfg_pairing_codes c0)) =
           add_mset p (mset (cfg_pairing_codes c1)) \<and>
         cfg_clients c1 = cfg_clients c0 @ [x] \<and> cl_id x = pr_client_id result \<and>
         cl_scopes x = pc_scopes p \<and> pr_scopes result = pc_scopes p \<and>
         cl_name x = trim_space name \<and> cl_type x = trim_space type \<and>
         cl_name x \<noteq> [] \<and> cl_type x \<noteq> [] \<and> \<not> cl_revoked x \<and>
         cfg_sessions c1 = cfg_sessions c0 \<and> cfg_webhooks c1 = cfg_webhooks c0 \<and>
         cfg_server_name c1 = cfg_server_name c0 \<and>
         cfg_last_watch_rowid c1 = cfg_last_watch_rowid c0"
proof -
  obtain r w' where p: "pair sv code name type w = (r, w')" by fastforce
  then show ?thesis
  proof (cases rule: pair_cases)
    case failed
    with p show ?thesis by simp
  next
    case (paired c0 i p cid token claims)
    note i = index_of_SomeD [OF paired(5)]
    have "p \<in> set (live_codes (clock (w_eff w) 0) c0)" using i paired(6) by simp
    moreover have "mset (live_codes (clock (w_eff w) 0) c0) =
        add_mset p (mset (remove_at i (live_codes (clock (w_eff w) 0) c0)))"
      using mset_remove_at i paired(6) by blast
    ultimately show ?thesis
      using \<open>pair sv code name type w = (r, w')\<close> paired i
      by (auto simp: live_codes_def new_client_def)
  qed
qed

text \<open>
  A code pairs once: if the code a pairing redeemed was pending only once, then typing
  it again, in any case and with any whitespace around it, is refused, whatever name and type
  come with it and however often.
\<close>

theorem pair_once:
  assumes "pair sv code name type w = (Inr result, w1)" and "stored w = Some c0"
    and "count_list (map pc_code (cfg_pairing_codes c0)) (to_upper (trim_space code)) = 1"
    and "to_upper (trim_space code') = to_upper (trim_space code)"
  shows "\<exists>err w2. pair sv code' name' type' w1 = (Inl err, w2) \<and> stored w2 = stored w1 \<and>
    (no_faults w1 \<longrightarrow> err = ErrInvalidCode)"
proof -
  from assms(1) obtain i p cid token claims where d:
    "index_of (\<lambda>p. pc_code p = to_upper (trim_space code)) (live_codes (clock (w_eff w) 0) c0) = Some i"
    "p = live_codes (clock (w_eff w) 0) c0 ! i"
    "stored w1 = Some (c0\<lparr>cfg_pairing_codes := remove_at i (live_codes (clock (w_eff w) 0) c0),
         cfg_clients := cfg_clients c0 @
           [new_client cid (trim_space name) (trim_space type) (pc_scopes p) claims (clock (w_eff w) 0)]\<rparr>)"
    by (cases rule: pair_cases) (use assms(2) in auto)
  let ?live = "live_codes (clock (w_eff w) 0) c0"
  let ?is = "\<lambda>p. pc_code p = to_upper (trim_space code)"
  have "size (filter_mset ?is (mset ?live)) \<le> size (filter_mset ?is (mset (cfg_pairing_codes c0)))"
    by (intro size_mset_mono multiset_filter_mono) (simp add: live_codes_def)
  also have "\<dots> = 1"
    using assms(3) by (simp add: count_list_eq_length_filter filter_map comp_def eq_commute flip: mset_filter)
  finally have "size (filter_mset ?is (mset ?live)) \<le> 1" .
  moreover have "mset ?live = add_mset p (mset (remove_at i ?live))" "?is p"
    using mset_remove_at index_of_SomeD [OF d(1)] d(2) by blast+
  ultimately have none: "\<forall>q \<in> set (remove_at i ?live). \<not> ?is q"
    by (auto simp: filter_empty_conv simp flip: mset_filter)
  obtain c1 where c1: "stored w1 = Some c1" "\<forall>q \<in> set (cfg_pairing_codes c1). \<not> ?is q"
    using d(3) none by auto
  obtain r2 w2 where p2: "pair sv code' name' type' w1 = (r2, w2)" by fastforce
  then obtain err where e: "r2 = Inl err" "stored w2 = stored w1"
  proof (cases rule: pair_cases)
    case (paired c0' j q cid' token' claims')
    with c1(1) have "\<exists>p \<in> set (cfg_pairing_codes c1). pc_code p = to_upper (trim_space code')"
      using live_code_found [OF paired(5)] by simp
    with c1(2) assms(4) show thesis by simp
  qed
  have "err = ErrInvalidCode" if h: "no_faults w1"
  proof (cases "to_upper (trim_space code') = [] \<or> trim_space name' = [] \<or> trim_space type' = []")
    case True
    with p2 e(1) show ?thesis by (auto simp: pair_def Let_def)
  next
    case False
    obtain e' where "pair_fn sv (to_upper (trim_space code')) (trim_space name') (trim_space type') c1 (w_eff w1)
        = (Inl ErrInvalidCode, e')"
      using pair_fn_refused c1(2) assms(4) by metis
    from state.update_healthy_error [where fn = "pair_fn sv (to_upper (trim_space code')) (trim_space name') (trim_space type')",
        OF h c1(1) this] show ?thesis
      using False p2 e(1) by (auto simp: pair_def Let_def)
  qed
  with p2 e show ?thesis by blast
qed

text \<open>The token of a grant authenticates until its claims expire.\<close>

lemma granted_token:
  assumes "grants sv scopes ttl e cid token claims" and "sound_scheme (sv_tokens sv)"
    and "in_int64 (unix_of (clock e 1 + ttl))"
  shows "signed_payload (sv_tokens sv) (trim_space token) = Some (claims_text claims)"
    "sint (tc_expiry claims) = unix_of (clock e 1 + ttl)"
    "tc_sub claims = cid" "tc_scopes claims = clean_scopes scopes"
  using assms signed_payload_token_of by (simp_all add: grants_def sint_word_of_int64)

lemma grant_authenticates:
  assumes "grants sv scopes ttl e cid token claims" and "sound_scheme (sv_tokens sv)"
    and "in_int64 (unix_of (clock e 1 + ttl))"
    and "no_faults w" and "stored w = Some c" and "marshalable c"
    and "new_client cid name type scopes claims now \<in> set (cfg_clients c)"
    and "unix_of (clock (w_eff w) 0) < unix_of (clock e 1 + ttl)"
    and "time_in_range (clock (w_eff w) 1)"
  shows "\<exists>ac w'. authenticate sv token w = (Inr (ac, claims), w') \<and> ac_id ac = cid"
proof -
  note g = granted_token [OF assms(1-3)]
  have "matches_claims claims (new_client cid name type scopes claims now)"
    using g(3) by (simp add: matches_claims_def new_client_def)
  from authenticate_healthy [OF assms(4-6) g(1) parse_claims_text _ assms(7) this assms(9)]
  show ?thesis using g(2,3) assms(8) by auto
qed

text \<open>
  C16. The token a pairing returns authenticates as the client it registered, with the code's
  scopes, until the token's time to live, counted from the pairing's second clock reading, is
  over - as long as no system call fails.
\<close>

theorem paired_token_authenticates:
  assumes "pair sv code name type w = (Inr result, w1)" and "sound_scheme (sv_tokens sv)"
    and "no_faults w1" and "in_int64 (unix_of (clock (w_eff w) 1 + sv_default_ttl sv))"
    and "unix_of (clock (w_eff w) 2) < unix_of (clock (w_eff w) 1 + sv_default_ttl sv)"
    and "time_in_range (clock (w_eff w) 3)"
  shows "\<exists>ac claims w2. authenticate sv (pr_token result) w1 = (Inr (ac, claims), w2) \<and>
    ac_id ac = pr_client_id result \<and> tc_sub claims = pr_client_id result \<and>
    tc_scopes claims = clean_scopes (pr_scopes result) \<and>
    pr_expires_at result = unix_of (clock (w_eff w) 1 + sv_default_ttl sv) * second"
  using assms(1)
proof (cases rule: pair_cases)
  case (paired c0 i p cid token claims)
  note g = granted_token [OF paired(7) assms(2,4)]
  have m: "marshalable c1" if "stored w1 = Some c1" for c1
    using assms(1) that by (auto simp: pair_def Let_def split: if_splits sum.splits prod.splits
        dest!: state.update_commit)
  have clock: "clock (w_eff w1) 0 = clock (w_eff w) 2" "clock (w_eff w1) 1 = clock (w_eff w) 3"
    by (simp_all add: paired(10) numeral_2_eq_2 numeral_3_eq_3)
  show ?thesis
    using grant_authenticates [OF paired(7) assms(2,4,3) paired(9) m [OF paired(9)], where
        name = "trim_space name" and type = "trim_space type" and now = "clock (w_eff w) 0"]
      assms(5,6) g paired(8) clock
    by (auto simp: expiry_time_def)
qed simp

text \<open>A live code that no other pending one shares pairs, however it is typed, with its scopes.\<close>

lemma pending_code_pairs:
  assumes "no_faults w" and "stored w = Some c" and "marshalable c"
    and "p \<in> set (live_codes (clock (w_eff w) 0) c)"
    and "\<forall>q \<in> set (cfg_pairing_codes c). pc_code q = pc_code p \<longrightarrow> q = p"
    and "to_upper (trim_space typed) = pc_code p" and "pc_code p \<noteq> []"
    and "trim_space name \<noteq> []" and "trim_space type \<noteq> []" and "time_in_range (clock (w_eff w) 0)"
  shows "\<exists>result w2. pair sv typed name type w = (Inr result, w2) \<and> pr_scopes result = pc_scopes p"
proof -
  obtain result w2 where pr: "pair sv typed name type w = (Inr result, w2)"
    using pair_healthy [OF assms(1-4) _ _ assms(8-10), of typed sv] assms(6,7) by auto
  then show ?thesis
  proof (cases rule: pair_cases)
    case (paired c1 i q cid token claims)
    have "q \<in> set (live_codes (clock (w_eff w) 0) c1)" "pc_code q = pc_code p"
      using index_of_SomeD [OF paired(5)] paired(6) assms(6) by simp_all
    then have "q = p" using paired(1) assms(2,5) set_live_codes by fastforce
    with pr paired(8) show ?thesis by auto
  qed simp
qed

lemma generated_pending:
  assumes "generate_pairing_code sv ttl scopes w = (Inr g, w1)" and "stored w = Some c0"
    and "\<forall>p \<in> set (cfg_pairing_codes c0). pc_code p \<noteq> pg_code g"
  shows "\<exists>p c. stored w1 = Some c \<and> marshalable c \<and> p \<in> set (cfg_pairing_codes c) \<and>
      p = \<lparr>pc_code = pg_code g, pc_scopes = pg_scopes g, pc_expires_at = pg_expires_at g\<rparr> \<and>
      (\<forall>q \<in> set (cfg_pairing_codes c). pc_code q = pc_code p \<longrightarrow> q = p) \<and>
      clock (w_eff w1) = (\<lambda>i. clock (w_eff w) (i + 2)) \<and>
      length (pg_code g) = 6 \<and> set (pg_code g) \<subseteq> set code_alphabet \<and>
      pg_scopes g = clean_scopes (if scopes = [] then sv_default_scope sv else scopes) \<and>
      pg_expires_at g = clock (w_eff w) 0 + (if ttl \<le> 0 then sv_pairing_ttl sv else ttl)"
  using assms(1)
proof (cases rule: generate_pairing_code_cases)
  case (generated c g')
  have g: "g' = g" "c = c0" using generated(1,2) assms(2) by simp_all
  have code: "length (pg_code g) = 6" "set (pg_code g) \<subseteq> set code_alphabet"
  proof -
    have "pick_char code_alphabet x \<in> set code_alphabet" for x
      unfolding pick_char_def by (rule nth_mem) (simp add: code_alphabet_def)
    then show "length (pg_code g) = 6" "set (pg_code g) \<subseteq> set code_alphabet"
      using generated(3) by (auto simp: random_code_def rand_read_def g)
  qed
  have m: "marshalable c1" if "stored w1 = Some c1" for c1
    using assms(1) that by (auto simp: generate_pairing_code_def Let_def
        split: sum.splits prod.splits dest!: state.update_commit)
  have "\<forall>q \<in> set (live_codes (clock (w_eff w) 1) c0). pc_code q \<noteq> pg_code g"
    using assms(3) set_live_codes by fastforce
  then show ?thesis using generated code m [OF generated(6)] by (auto simp: g)
qed simp

text \<open>
  A generated code can be redeemed: as long as it has not expired, was not pending
  already and no system call fails, whoever types it, in either case and with whitespace
  around it, and gives a name and a type, is paired with exactly the scopes the code was
  generated for, the default ones if none were asked.
\<close>

theorem generated_code_pairs:
  assumes "generate_pairing_code sv ttl scopes w = (Inr g, w1)" and "stored w = Some c0"
    and "\<forall>p \<in> set (cfg_pairing_codes c0). pc_code p \<noteq> pg_code g"
    and "to_upper (trim_space typed) = pg_code g"
    and "trim_space name \<noteq> []" and "trim_space type \<noteq> []"
    and "no_faults w1" and "clock (w_eff w) 2 < pg_expires_at g" and "time_in_range (clock (w_eff w) 2)"
  shows "length (pg_code g) = 6 \<and> set (pg_code g) \<subseteq> set code_alphabet \<and>
    pg_scopes g = clean_scopes (if scopes = [] then sv_default_scope sv else scopes) \<and>
    (\<exists>result w2. pair sv typed name type w1 = (Inr result, w2) \<and> pr_scopes result = pg_scopes g)"
proof -
  from generated_pending [OF assms(1-3)] obtain p c where g: "stored w1 = Some c" "marshalable c"
    "p \<in> set (cfg_pairing_codes c)" "p = \<lparr>pc_code = pg_code g, pc_scopes = pg_scopes g, pc_expires_at = pg_expires_at g\<rparr>"
    "\<forall>q \<in> set (cfg_pairing_codes c). pc_code q = pc_code p \<longrightarrow> q = p"
    "clock (w_eff w1) = (\<lambda>i. clock (w_eff w) (i + 2))" "length (pg_code g) = 6" "set (pg_code g) \<subseteq> set code_alphabet"
    "pg_scopes g = clean_scopes (if scopes = [] then sv_default_scope sv else scopes)" by blast
  have now: "clock (w_eff w1) 0 = clock (w_eff w) 2" by (simp add: g(6) numeral_2_eq_2)
  then have "p \<in> set (live_codes (clock (w_eff w1) 0) c)" using g(3,4) assms(8) by (simp add: live_codes_def)
  from pending_code_pairs [OF assms(7) g(1,2) this g(5) _ _ assms(5,6), of typed sv]
  have "\<exists>result w2. pair sv typed name type w1 = (Inr result, w2) \<and> pr_scopes result = pg_scopes g"
    using g(4,7) assms(4,9) now by fastforce
  with g(7-9) show ?thesis by blast
qed

section \<open>Sessions and approvals\<close>

text \<open>The scopes an approval asks for.\<close>

definition asked_scopes :: "string list \<Rightarrow> string list" where
  "asked_scopes scopes =
     (if clean_scopes scopes = [] then [''read'', ''send''] else clean_scopes scopes)"

text \<open>
  C15. An approval hands out nothing the approver does not have: if it succeeds, the granted
  scopes are among those of the approver's token, the requested ones (read and send if none),
  the session was waiting and unexpired, and one client is registered with exactly those
  scopes; if a requested scope is missing, it is refused as forbidden and not even the state
  file is read.
\<close>

theorem approve_no_escalation:
  "(set (asked_scopes scopes) \<subseteq> set (tc_scopes approver) \<or>
      approve_session sv sid approver scopes w = (Inl ErrForbidden, w)) \<and>
   (case approve_session sv sid approver scopes w of
      (Inl err, w') \<Rightarrow> stored w' = stored w
    | (Inr s, w') \<Rightarrow>
        set (sn_scopes s) \<subseteq> set (tc_scopes approver) \<and> sn_scopes s = asked_scopes scopes \<and>
        sn_status s = ''approved'' \<and> sn_id s = trim_space sid \<and>
        (\<exists>c0 c1 p x. stored w = Some c0 \<and> stored w' = Some c1 \<and> p \<in> set (cfg_sessions c0) \<and>
           ps_id p = trim_space sid \<and> clock (w_eff w) 0 < ps_expires_at p \<and>
           cfg_clients c1 = cfg_clients c0 @ [x] \<and> cl_id x = sn_client_id s \<and>
           cl_scopes x = sn_scopes s \<and> cl_name x = ps_client_name p \<and> cl_type x = ps_client_type p \<and>
           cfg_pairing_codes c1 = cfg_pairing_codes c0))"
proof
  show "set (asked_scopes scopes) \<subseteq> set (tc_scopes approver) \<or>
      approve_session sv sid approver scopes w = (Inl ErrForbidden, w)"
    by (auto simp: approve_session_def asked_scopes_def scopes_subset_iff Let_def)
  obtain r w' where a: "approve_session sv sid approver scopes w = (r, w')" by fastforce
  then show "case approve_session sv sid approver scopes w of
      (Inl err, w') \<Rightarrow> stored w' = stored w
    | (Inr s, w') \<Rightarrow>
        set (sn_scopes s) \<subseteq> set (tc_scopes approver) \<and> sn_scopes s = asked_scopes scopes \<and>
        sn_status s = ''approved'' \<and> sn_id s = trim_space sid \<and>
        (\<exists>c0 c1 p x. stored w = Some c0 \<and> stored w' = Some c1 \<and> p \<in> set (cfg_sessions c0) \<and>
           ps_id p = trim_space sid \<and> clock (w_eff w) 0 < ps_expires_at p \<and>
           cfg_clients c1 = cfg_clients c0 @ [x] \<and> cl_id x = sn_client_id s \<and>
           cl_scopes x = sn_scopes s \<and> cl_name x = ps_client_name p \<and> cl_type x = ps_client_type p \<and>
           cfg_pairing_codes c1 = cfg_pairing_codes c0)"
  proof (cases rule: approve_session_cases)
    case (approved requested c0 i s s' cid token claims)
    note i = index_of_SomeD [OF approved(4)]
    have s: "s \<in> set (cfg_sessions c0)" "ps_id s = trim_space sid"
      using subsetD [OF set_live_sessions index_of_nth_mem [OF approved(4)]] i approved(5) by auto
    show ?thesis
      using \<open>approve_session sv sid approver scopes w = (r, w')\<close> approved(1-3,6-10) s
      by (fastforce simp: session_of_def asked_scopes_def new_client_def)
  qed (use \<open>approve_session sv sid approver scopes w = (r, w')\<close> in simp_all)
qed

lemma get_session_healthy:
  assumes "no_faults w" and "stored w = Some c"
    and "index_of (\<lambda>p. ps_id p = trim_space sid) (cfg_sessions c) = Some i"
    and "clock (w_eff w) 0 < ps_expires_at (cfg_sessions c ! i)"
  shows "\<exists>w'. get_session sv sid w = (Inr (session_of (cfg_sessions c ! i)), w')"
proof -
  obtain w1 where l: "store_load w = (Inr c, w1)" using state.load_healthy [OF assms(1,2)] by blast
  obtain now w2 where t: "with_eff time_now w1 = (now, w2)" by fastforce
  have "now = clock (w_eff w) 0"
    using with_eff_time [OF t] state.load_frame [OF l] by simp
  then show ?thesis
    using assms(3,4) by (simp add: get_session_def Let_def l t)
qed

lemma index_of_update:
  "index_of P xs = Some i \<Longrightarrow> P x \<Longrightarrow> index_of P (xs[i := x]) = Some i"
  by (induction xs arbitrary: i) (auto split: if_splits nat.splits)

text \<open>
  C17. The device that asked for a session gets its access from it: after an approval of the
  session, and while no system call fails, asking for the session before the token expires
  returns exactly what the approval returned, and the token in it authenticates as the
  registered client with the approved scopes.
\<close>

theorem approved_session_delivers:
  assumes "approve_session sv sid approver scopes w = (Inr s, w1)"
    and "sound_scheme (sv_tokens sv)" and "no_faults w1"
    and "time_in_range (clock (w_eff w) 1 + 24 * hour)" and "time_in_range (clock (w_eff w) 3)"
    and "unix_of (clock (w_eff w) 2) < unix_of (clock (w_eff w) 1 + 24 * hour)"
  shows "(\<exists>w2. get_session sv sid w1 = (Inr s, w2)) \<and>
    (\<exists>ac claims w2. authenticate sv (sn_token s) w1 = (Inr (ac, claims), w2) \<and>
       ac_id ac = sn_client_id s \<and> tc_scopes claims = asked_scopes scopes)"
  using assms(1)
proof (cases rule: approve_session_cases)
  case (approved requested c0 i p p' cid token claims)
  let ?c = "c0\<lparr>cfg_clients := cfg_clients c0 @
               [new_client cid (ps_client_name p) (ps_client_type p) requested claims (clock (w_eff w) 0)],
             cfg_sessions := (live_sessions (clock (w_eff w) 0) c0)[i := p']\<rparr>"
  note range = time_in_range_unix [OF assms(4)]
  note g = granted_token [OF approved(7) assms(2) range]
  have clock: "clock (w_eff w1) 0 = clock (w_eff w) 2" "clock (w_eff w1) 1 = clock (w_eff w) 3"
    by (simp_all add: approved(11) numeral_2_eq_2 numeral_3_eq_3)
  note i = index_of_SomeD [OF approved(4)]
  have exp: "ps_expires_at p' = unix_of (clock (w_eff w) 1 + 24 * hour) * second"
    by (simp add: approved(8) expiry_time_def g(2))
  have ind: "index_of (\<lambda>q. ps_id q = trim_space sid) (cfg_sessions ?c) = Some i"
    using index_of_update [OF approved(4), of p'] i approved(5,8) by simp
  have at: "cfg_sessions ?c ! i = p'" using i by simp
  have "clock (w_eff w1) 0 < ps_expires_at p'"
    unfolding exp clock using assms(6) by (simp add: unix_of_def)
  then have "\<exists>w2. get_session sv sid w1 = (Inr s, w2)"
    using get_session_healthy [OF assms(3) approved(10) ind] at approved(9) by auto
  moreover have m: "marshalable ?c"
    using assms(1) approved(10) by (auto simp: approve_session_def Let_def
        split: sum.splits prod.splits if_splits dest!: state.update_commit)
  have "\<exists>ac w'. authenticate sv token w1 = (Inr (ac, claims), w') \<and> ac_id ac = cid"
    using grant_authenticates [OF approved(7) assms(2) range assms(3) approved(10) m, where
        name = "ps_client_name p" and type = "ps_client_type p" and now = "clock (w_eff w) 0"]
      assms(5,6) clock by auto
  moreover have "clean_scopes requested = asked_scopes scopes" "sn_token s = token" "sn_client_id s = cid"
  proof -
    have "clean_scopes [''read'', ''send''] = [''read'', ''send'']" by code_simp
    then show "clean_scopes requested = asked_scopes scopes"
      by (simp add: approved(1) asked_scopes_def)
  qed (use approved(8,9) in \<open>simp_all add: session_of_def\<close>)
  ultimately show ?thesis using g(4) by auto
qed simp_all

section \<open>The first pairing code\<close>

text \<open>
  C29. At start-up the daemon offers a code exactly while no client is active: with an active
  client there is none; otherwise the code is one that is pending and unexpired, a new one of
  six characters for the default scopes only if there was none. The clients are untouched, the
  server name is recorded, and a restart while that code is unexpired offers the same code.
\<close>

theorem bootstrap_offers_code:
  assumes "ensure_bootstrap sv name w = (Inr code, w1)" and "stored w = Some c0"
    and "ensure_bootstrap sv name' w1 = (Inr code', w2)"
  shows "\<exists>c1. stored w1 = Some c1 \<and> cfg_clients c1 = cfg_clients c0 \<and> cfg_server_name c1 = name \<and>
    (if \<exists>x \<in> set (cfg_clients c0). \<not> cl_revoked x then code = [] \<and> code' = []
     else \<exists>p ps. cfg_pairing_codes c1 = p # ps \<and> pc_code p = code \<and>
       (if live_codes (clock (w_eff w) 0) c0 = []
        then length code = 6 \<and> pc_scopes p = sv_default_scope sv \<and>
          pc_expires_at p = clock (w_eff w) 1 + sv_pairing_ttl sv \<and> ps = []
        else p = hd (live_codes (clock (w_eff w) 0) c0)) \<and>
       (if clock (w_eff w1) 0 < pc_expires_at p then code' = code else True))"
proof -
  from assms(1) obtain c1 e1 where b1: "stored w1 = Some c1"
      "bootstrap_fn sv name c0 (w_eff w) = (Inr (c1, code), e1)"
    by (cases rule: ensure_bootstrap_cases) (use assms(2) in auto)
  from assms(3) obtain c2 e2 where b2: "bootstrap_fn sv name' c1 (w_eff w1) = (Inr (c2, code'), e2)"
    by (cases rule: ensure_bootstrap_cases) (use b1 in auto)
  have len: "length (fst (random_code 6 e)) = 6" for e
    by (simp add: random_code_def rand_read_def)
  from b1(2) show ?thesis
  proof (cases rule: bootstrap_fn_cases)
    case active
    with b2 have "code' = []" by (cases rule: bootstrap_fn_cases) auto
    with active b1(1) show ?thesis by (auto simp: list_ex_iff)
  next
    case (reused p ps)
    have "code' = code" if "clock (w_eff w1) 0 < pc_expires_at p"
      using b2 that reused by (cases rule: bootstrap_fn_cases) auto
    with reused b1(1) show ?thesis by (auto simp: list_ex_iff)
  next
    case (fresh new)
    have "code' = code" if "clock (w_eff w1) 0 < clock (w_eff w) 1 + sv_pairing_ttl sv"
      using b2 that fresh by (cases rule: bootstrap_fn_cases) auto
    with fresh b1(1) len show ?thesis by (auto simp: list_ex_iff)
  qed
qed

section \<open>Examples\<close>

text \<open>A world in which nothing fails, with the configuration on disk.\<close>

definition holding :: "config \<Rightarrow> world" where
  "holding cfg = fresh_world\<lparr>w_disk := \<lparr>config_file = Some (config_text cfg), config_tmp = None\<rparr>\<rparr>"

lemma holding_facts [simp]:
  "no_faults (holding cfg)" "clock (w_eff (holding cfg)) i = int i"
  "entropy (w_eff (holding cfg)) i = char_of i"
  "marshalable cfg \<Longrightarrow> stored (holding cfg) = Some cfg"
  by (simp_all add: holding_def fresh_world_def quiet_effects_def no_faults_def stored_def
      parse_config_text)

lemma time_in_range_small [simp]: "0 \<le> t \<Longrightarrow> t \<le> 8000000000000000000 \<Longrightarrow> time_in_range t"
  by (simp add: time_in_range_def epoch_day_def day_ns_def)

definition demo_service :: auth_service where
  "demo_service = new_service tag_manager"

definition demo_code :: pending_pair_code where
  "demo_code = \<lparr>pc_code = ''ABC234'', pc_scopes = [''read''], pc_expires_at = minute\<rparr>"

definition demo_session :: pending_session where
  "demo_session = zero_session\<lparr>ps_id := ''s_1'', ps_client_name := ''Tablet'',
     ps_client_type := ''ios'', ps_status := ''pending'', ps_expires_at := 3 * minute\<rparr>"

definition demo_config :: config where
  "demo_config = zero_config\<lparr>cfg_pairing_codes := [demo_code], cfg_sessions := [demo_session]\<rparr>"

lemma demo_marshalable [simp]: "marshalable demo_config" "marshalable zero_config"
  by (simp_all add: marshalable_def demo_config_def demo_code_def demo_session_def zero_config_def
      zero_session_def)

lemma demo_config_facts [simp]:
  "cfg_pairing_codes demo_config = [demo_code]" "cfg_clients demo_config = []"
  "live_codes 0 demo_config = [demo_code]" "pc_code demo_code = ''ABC234''"
  by (simp_all add: demo_config_def zero_config_def live_codes_def demo_code_def)

lemma demo_service_facts [simp]:
  "sound_scheme (sv_tokens demo_service)" "sv_default_ttl demo_service = 90 * 24 * hour"
  "sv_default_scope demo_service = [''read'', ''send'', ''attach'']"
  "sv_pairing_ttl demo_service = 2 * minute"
  by (simp_all add: demo_service_def new_service_def)

lemma demo_texts:
  "to_upper (trim_space '' abc234'') = ''ABC234''" "to_upper (trim_space ''ABC234'') = ''ABC234''"
  "trim_space ''Phone'' = ''Phone''" "trim_space ''ios'' = ''ios''"
  by code_simp+

lemma demo_pairs:
  "\<exists>r w1. pair demo_service '' abc234'' ''Phone'' ''ios'' (holding demo_config) = (Inr r, w1) \<and> no_faults w1"
  by (rule pair_healthy [where c = demo_config and p = demo_code])
    (simp_all add: demo_texts)

theorem pair_once_witness:
  "\<exists>r w1 w2. pair demo_service '' abc234'' ''Phone'' ''ios'' (holding demo_config) = (Inr r, w1) \<and>
     pair demo_service ''ABC234'' ''Phone'' ''ios'' w1 = (Inl ErrInvalidCode, w2)"
proof -
  obtain r w1 where p: "no_faults w1"
    "pair demo_service '' abc234'' ''Phone'' ''ios'' (holding demo_config) = (Inr r, w1)"
    using demo_pairs by blast
  have "count_list (map pc_code (cfg_pairing_codes demo_config)) (to_upper (trim_space '' abc234'')) = 1"
    by (simp add: demo_texts)
  from pair_once [OF p(2) _ this, of "''ABC234''" "''Phone''" "''ios''"] p
  show ?thesis by (auto simp: demo_texts)
qed

theorem paired_token_authenticates_witness:
  "\<exists>r w1 ac claims w2. pair demo_service '' abc234'' ''Phone'' ''ios'' (holding demo_config) = (Inr r, w1) \<and>
     authenticate demo_service (pr_token r) w1 = (Inr (ac, claims), w2) \<and> ac_id ac = pr_client_id r"
proof -
  obtain r w1 where p: "no_faults w1"
    "pair demo_service '' abc234'' ''Phone'' ''ios'' (holding demo_config) = (Inr r, w1)"
    using demo_pairs by blast
  from paired_token_authenticates [OF p(2) _ p(1)] p(2)
  show ?thesis by (auto simp: unix_of_def in_int64_def max_int64_def min_int64_def)
qed

lemma demo_approves:
  "\<exists>s w1. approve_session demo_service ''s_1'' (zero_claims\<lparr>tc_scopes := [''admin'', ''read'', ''send'']\<rparr>)
     [] (holding demo_config) = (Inr s, w1) \<and> no_faults w1"
proof -
  let ?fn = "approve_session_fn demo_service ''s_1'' [''read'', ''send'']"
  obtain r e' where f: "?fn demo_config (w_eff (holding demo_config)) = (r, e')" by fastforce
  have live: "live_sessions 0 demo_config = [demo_session]"
    by (simp add: live_sessions_def demo_config_def demo_session_def)
  have trim: "trim_space ''s_1'' = ''s_1''" by code_simp
  from f show ?thesis
  proof (cases rule: approve_session_fn_cases)
    case (approved i s s' cid token claims)
    have i: "i = 0" using approved(1) by (simp add: live split: if_splits)
    have "sint (tc_expiry claims) = 86400"
      using approved(4) by (simp add: grants_def unix_of_def)
    then have "marshalable (demo_config\<lparr>cfg_clients := cfg_clients demo_config @
               [new_client cid (ps_client_name s) (ps_client_type s) [''read'', ''send''] claims 0],
             cfg_sessions := [demo_session][i := s']\<rparr>)"
      using approved(2,5) by (simp add: i live demo_config_def demo_code_def marshalable_def new_client_def
          zero_config_def expiry_time_def)
    then have "\<exists>w1. store_update ?fn (holding demo_config) =
        (Inr (demo_config\<lparr>cfg_clients := cfg_clients demo_config @
               [new_client cid (ps_client_name s) (ps_client_type s) [''read'', ''send''] claims 0],
             cfg_sessions := [demo_session][i := s']\<rparr>, session_of s'), w1) \<and> no_faults w1"
      by (intro state.update_healthy [where fn = ?fn and ?c0.0 = demo_config and e' = e'])
        (use f approved(6) in \<open>simp_all add: live\<close>)
    then show ?thesis
      by (auto simp: approve_session_def trim clean_scopes_def scopes_subset_iff)
  qed (simp_all add: live, simp_all add: demo_session_def zero_session_def split: if_splits)
qed

theorem approved_session_delivers_witness:
  "\<exists>s w1 w2. approve_session demo_service ''s_1'' (zero_claims\<lparr>tc_scopes := [''admin'', ''read'', ''send'']\<rparr>)
     [] (holding demo_config) = (Inr s, w1) \<and> get_session demo_service ''s_1'' w1 = (Inr s, w2)"
proof -
  obtain s w1 where a: "approve_session demo_service ''s_1''
      (zero_claims\<lparr>tc_scopes := [''admin'', ''read'', ''send'']\<rparr>) [] (holding demo_config) = (Inr s, w1)"
    "no_faults w1" using demo_approves by blast
  from approved_session_delivers [OF a(1) _ a(2)] a(1) show ?thesis
    by (auto simp: unix_of_def)
qed

lemma demo_random_code: "fst (random_code 6 (w_eff (holding cfg))) = ''ABCDEF''"
  by (simp add: random_code_def rand_read_def pick_char_def code_alphabet_def upt_rec comp_def)

lemma generate_healthy:
  assumes "marshalable c" and "ttl \<in> {0, 2 * minute}"
  shows "\<exists>g w1. generate_pairing_code demo_service ttl scopes (holding c) = (Inr g, w1) \<and> no_faults w1 \<and>
    pg_code g = ''ABCDEF'' \<and> pg_expires_at g = 2 * minute"
proof -
  obtain code w1 where a1: "with_eff (random_code 6) (holding c) = (code, w1)" by fastforce
  obtain now w2 where a2: "with_eff time_now w1 = (now, w2)" by fastforce
  define g where "g = \<lparr>pg_code = code, pg_expires_at = now + 2 * minute,
     pg_scopes = clean_scopes (if scopes = [] then [''read'', ''send'', ''attach''] else scopes)\<rparr>"
  have w2: "stored w2 = Some c" "no_faults w2" "now = 0" "code = ''ABCDEF''"
    using stored_with_eff [OF a1] stored_with_eff [OF a2] no_faults_with_eff [OF a1]
      no_faults_with_eff [OF a2] with_eff_random(3) [OF a1] with_eff_time [OF a2] assms(1)
    by (simp_all add: demo_random_code)
  obtain r e' where f: "generate_code_fn g c (w_eff w2) = (r, e')" by fastforce
  note r = generate_code_fn_ok [OF f]
  have "list_all (\<lambda>p. time_in_range (pc_expires_at p)) (live_codes t c)" for t
    using marshalable_codes [OF assms(1)] set_live_codes by (fastforce simp: list_all_iff)
  then have "marshalable (c\<lparr>cfg_pairing_codes := live_codes (clock (w_eff w2) 0) c @
       [\<lparr>pc_code = pg_code g, pc_scopes = pg_scopes g, pc_expires_at = pg_expires_at g\<rparr>]\<rparr>)"
    using assms(1) w2(3) by (auto simp: marshalable_def g_def)
  from state.update_healthy [where fn = "generate_code_fn g", OF w2(2,1) f [unfolded r] this]
  show ?thesis using assms(2)
    by (auto simp: generate_pairing_code_def Let_def a1 a2 g_def w2)
qed

theorem generated_code_pairs_witness:
  "\<exists>g w1 r w2. generate_pairing_code demo_service 0 [] (holding zero_config) = (Inr g, w1) \<and>
     pair demo_service '' abCdef '' ''Phone'' ''ios'' w1 = (Inr r, w2)"
proof -
  obtain g w1 where g: "generate_pairing_code demo_service 0 [] (holding zero_config) = (Inr g, w1)"
    "no_faults w1" "pg_code g = ''ABCDEF''" "pg_expires_at g = 2 * minute"
    using generate_healthy [of zero_config 0 "[]"] by auto
  have typed: "to_upper (trim_space '' abCdef '') = ''ABCDEF''" by code_simp
  have "\<forall>p \<in> set (cfg_pairing_codes zero_config). pc_code p \<noteq> pg_code g"
    by (simp add: zero_config_def)
  from generated_code_pairs [OF g(1) _ this, of "'' abCdef ''" "''Phone''" "''ios''"] g
  show ?thesis by (auto simp: typed demo_texts)
qed

lemma bootstrap_healthy:
  assumes "no_faults w" and "stored w = Some c" and "marshalable c"
    and "time_in_range (clock (w_eff w) 1 + 2 * minute)"
  shows "\<exists>code w1. ensure_bootstrap demo_service name w = (Inr code, w1) \<and> no_faults w1"
proof -
  let ?fn = "bootstrap_fn demo_service name"
  obtain r e' where f: "?fn c (w_eff w) = (r, e')" by fastforce
  have live: "list_all (\<lambda>p. time_in_range (pc_expires_at p)) (live_codes t c)" for t
    using marshalable_codes [OF assms(3)] set_live_codes by (fastforce simp: list_all_iff)
  from f obtain c1 code where r: "r = Inr (c1, code)" "marshalable c1"
    by (cases rule: bootstrap_fn_cases) (use assms(3,4) live [of "clock (w_eff w) 0"] in \<open>auto simp: marshalable_def\<close>)
  from state.update_healthy [where fn = ?fn, OF assms(1,2) f [unfolded r(1)] r(2)]
  show ?thesis by (auto simp: ensure_bootstrap_def)
qed

theorem bootstrap_offers_code_witness:
  "\<exists>code w1 code' w2. ensure_bootstrap demo_service ''mac'' (holding demo_config) = (Inr code, w1) \<and>
     ensure_bootstrap demo_service ''mac'' w1 = (Inr code', w2) \<and> code = ''ABC234''"
proof -
  obtain code w1 where b1: "ensure_bootstrap demo_service ''mac'' (holding demo_config) = (Inr code, w1)"
    "no_faults w1" using bootstrap_healthy [of "holding demo_config" demo_config "''mac''"] by auto
  obtain c1 where c1: "stored w1 = Some c1" "marshalable c1"
      "bootstrap_fn demo_service ''mac'' demo_config (w_eff (holding demo_config)) =
         (Inr (c1, code), w_eff w1)"
    using b1(1) by (auto simp: ensure_bootstrap_def split: sum.splits prod.splits
        dest!: state.update_commit)
  have "clock (w_eff w1) = (\<lambda>i. int (Suc i))"
    using c1(3) by (auto simp: bootstrap_fn_def Let_def time_now_def cfg_simps dest!: sym [of _ "w_eff w1"])
  then obtain code' w2 where b2: "ensure_bootstrap demo_service ''mac'' w1 = (Inr code', w2)"
    using bootstrap_healthy [OF b1(2) c1(1,2), of "''mac''"] by auto
  have "code = ''ABC234''"
    using bootstrap_offers_code [OF b1(1) holding_facts(4) [OF demo_marshalable(1)] b2]
    by auto
  with b1(1) b2 show ?thesis by blast
qed

end
