(* ===== verification/GoFloat.thy ===== *)
theory GoFloat
  imports Complex_Main GoNumbers "HOL-Library.Log_Nat"
begin

text \<open>
  The \<open>float64\<close> arithmetic of the rate limiter: a finite double is the rational it stands for,
  and each operation is the exact one rounded to the nearest double, ties to even. No value
  of the program comes near the largest double, so overflow is left out.
\<close>

section \<open>Rounding\<close>

text \<open>The exponent of a positive rational: the integer part of its binary logarithm.\<close>

definition float_exp :: "rat \<Rightarrow> int" where
  "float_exp x =
     (if 1 \<le> x then int (floorlog 2 (nat \<lfloor>x\<rfloor>)) - 1
      else - int (floorlog 2 (nat \<lceil>1 / x\<rceil> - 1)))"

text \<open>The distance between doubles at \<open>x\<close>: 53 significant bits, down to the subnormal ones.\<close>

definition float_unit :: "rat \<Rightarrow> rat" where
  "float_unit x = 2 powi (max (float_exp x - 52) (- 1074))"

definition round_even :: "rat \<Rightarrow> int" where
  "round_even q =
     (let f = \<lfloor>q\<rfloor>; d = q - of_int f in
      if d < 1 / 2 then f else if d > 1 / 2 then f + 1 else if even f then f else f + 1)"

definition fl :: "rat \<Rightarrow> rat" where
  "fl x =
     (if x = 0 then 0
      else if x < 0 then - (of_int (round_even (- x / float_unit (- x))) * float_unit (- x))
      else of_int (round_even (x / float_unit x)) * float_unit x)"

text \<open>\<open>Duration.Seconds\<close>, of nanoseconds.\<close>

definition seconds_of :: "int \<Rightarrow> rat" where
  "seconds_of d =
     (if d < 0 then - fl (fl (of_int (- d div 1000000000)) + fl (fl (of_int (- d mod 1000000000)) / 1000000000))
      else fl (fl (of_int (d div 1000000000)) + fl (fl (of_int (d mod 1000000000)) / 1000000000)))"

text \<open>\<open>Time.Sub\<close> saturates.\<close>

definition time_sub :: "int \<Rightarrow> int \<Rightarrow> int" where
  "time_sub t u = max min_int64 (min max_int64 (t - u))"

section \<open>Error bounds\<close>

lemma round_even_error: "\<bar>of_int (round_even q) - q\<bar> \<le> 1 / 2"
  by (auto simp: round_even_def Let_def abs_if) linarith+

lemma round_even_int [simp]: "round_even (of_int n) = n"
  by (simp add: round_even_def)

lemma round_even_nonneg: "0 \<le> q \<Longrightarrow> 0 \<le> round_even q"
  by (auto simp: round_even_def Let_def)

lemma float_exp_lower:
  assumes "0 < x"
  shows "2 powi (float_exp x) \<le> x"
proof (cases "1 \<le> x")
  case True
  define n where "n = nat \<lfloor>x\<rfloor>"
  have n: "0 < n" "of_nat n \<le> x" using True by (auto simp: n_def)
  obtain k where k: "floorlog 2 n = Suc k"
    using n(1) floorlog_eq_zero_iff [of 2 n] by (cases "floorlog 2 n") auto
  have "2 ^ k \<le> n" using floorlog_bounds [of n 2] n(1) k by auto
  then have "(2 :: rat) ^ k \<le> of_nat n"
    by (metis of_nat_le_iff of_nat_numeral of_nat_power)
  then have "2 ^ k \<le> x" using n(2) by (rule order_trans)
  with True k show ?thesis by (simp add: float_exp_def n_def [symmetric])
next
  case False
  define n where "n = nat \<lceil>1 / x\<rceil> - 1"
  have one: "1 < 1 / x" using assms False by simp
  then have c: "1 < \<lceil>1 / x\<rceil>" by linarith
  have "n < 2 ^ floorlog 2 n"
    using floorlog_bounds [of n 2] by (cases "n = 0") auto
  then have "int n + 1 \<le> 2 ^ floorlog 2 n" by (metis Suc_leI of_nat_Suc of_nat_le_iff of_nat_numeral of_nat_power add.commute)
  moreover have "int n + 1 = \<lceil>1 / x\<rceil>" using c unfolding n_def by linarith
  ultimately have "\<lceil>1 / x\<rceil> \<le> 2 ^ floorlog 2 n" by simp
  then have "1 / x \<le> of_int (2 ^ floorlog 2 n)" using ceiling_le_iff by blast
  then have "1 / x \<le> 2 ^ floorlog 2 n" by simp
  then have "1 / 2 ^ floorlog 2 n \<le> x" using assms by (simp add: field_simps)
  then show ?thesis using False unfolding n_def
    by (simp add: float_exp_def power_int_minus field_simps)
qed

lemma float_unit_pos [simp]: "0 < float_unit x"
  by (simp add: float_unit_def)

lemma float_unit_not_0 [simp]: "float_unit x \<noteq> 0"
  using float_unit_pos [of x] by linarith

lemma float_unit_le:
  assumes "0 < x"
  shows "float_unit x \<le> (x + 1) / 2 ^ 52"
proof (cases "float_exp x - 52 \<ge> - 1074")
  case True
  then have "float_unit x = 2 powi (float_exp x) / 2 ^ 52"
    by (simp add: float_unit_def max_absorb1 power_int_diff)
  with float_exp_lower [OF assms] show ?thesis by (simp add: field_simps)
next
  case False
  then have "float_unit x = 1 / 2 ^ 1074"
    by (simp add: float_unit_def max_absorb2 power_int_minus field_simps)
  moreover have "(1 :: rat) / 2 ^ 1074 \<le> 1 / 2 ^ 52"
    by (intro divide_left_mono power_increasing) auto
  moreover have "1 / 2 ^ 52 \<le> (x + 1) / (2 :: rat) ^ 52"
    using assms by (intro divide_right_mono) auto
  ultimately show ?thesis by linarith
qed

lemma fl_error:
  assumes "0 \<le> x"
  shows "\<bar>fl x - x\<bar> \<le> (x + 1) / 2 ^ 53"
proof (cases "x = 0")
  case False
  with assms have x: "0 < x" by simp
  let ?u = "float_unit x"
  have "fl x - x = (of_int (round_even (x / ?u)) - x / ?u) * ?u"
    using x by (simp add: fl_def field_simps)
  then have "\<bar>fl x - x\<bar> = \<bar>of_int (round_even (x / ?u)) - x / ?u\<bar> * ?u"
    by (simp add: abs_mult less_imp_le)
  also have "\<dots> \<le> 1 / 2 * ?u"
    using round_even_error by (intro mult_right_mono) (auto simp: less_imp_le)
  also have "\<dots> \<le> 1 / 2 * ((x + 1) / 2 ^ 52)" using float_unit_le [OF x] by simp
  finally show ?thesis by (simp add: field_simps)
qed (simp add: fl_def)

lemma fl_upper: "0 \<le> x \<Longrightarrow> fl x \<le> x + (x + 1) / 2 ^ 53"
  using fl_error [of x] by linarith

lemma fl_lower:
  assumes "1 / 2 ^ 50 \<le> x"
  shows "x / 2 \<le> fl x"
proof -
  have "0 \<le> x" using assms by (rule order_trans [rotated]) simp
  then have "x - (x + 1) / 2 ^ 53 \<le> fl x" using fl_error [of x] by linarith
  moreover have "(x + 1) / 2 ^ 53 \<le> x / 2" using assms by (simp add: field_simps)
  ultimately show ?thesis by linarith
qed

lemma fl_pos:
  assumes "1 / 2 ^ 50 \<le> x"
  shows "0 < fl x"
proof -
  have "0 < x" using assms by (rule less_le_trans [rotated]) simp
  then have "0 < x / 2" by simp
  then show ?thesis using fl_lower [OF assms] by (rule less_le_trans)
qed

lemma fl_nonneg: "0 \<le> x \<Longrightarrow> 0 \<le> fl x"
  by (simp add: fl_def round_even_nonneg less_imp_le)

lemma fl_zero [simp]: "fl 0 = 0"
  by (simp add: fl_def)

text \<open>Integers of up to 53 bits are doubles.\<close>

lemma fl_of_nat:
  assumes "0 < n" and "n < 2 ^ 53"
  shows "fl (of_nat n) = of_nat n"
proof -
  obtain k where k: "floorlog 2 n = Suc k"
    using assms(1) floorlog_eq_zero_iff [of 2 n] by (cases "floorlog 2 n") auto
  have "2 ^ k \<le> n" using floorlog_bounds [of n 2] assms(1) k by auto
  then have "(2 :: nat) ^ k < 2 ^ 53" using assms(2) by linarith
  then have "k \<le> 52" using power_less_imp_less_exp [of "2 :: nat" k 53] by simp
  have "float_exp (of_nat n) = int k"
    using assms(1) k by (simp add: float_exp_def)
  then have u: "float_unit (of_nat n) = 1 / 2 ^ (52 - k)"
    using \<open>k \<le> 52\<close> by (simp add: float_unit_def power_int_def nat_diff_distrib' field_simps)
  have "(of_nat n :: rat) / float_unit (of_nat n) = of_int (int n * 2 ^ (52 - k))"
    by (simp add: u)
  then have "round_even (of_nat n / float_unit (of_nat n)) = int n * 2 ^ (52 - k)"
    by (simp only: round_even_int)
  then show ?thesis using assms(1) by (simp add: fl_def u)
qed

lemma fl_of_int: "0 \<le> i \<Longrightarrow> i < 2 ^ 53 \<Longrightarrow> fl (of_int i) = of_int i"
  using fl_of_nat [of "nat i"] by (cases "i = 0") auto

lemma seconds_of_upper:
  assumes "0 \<le> d" and "d < 2 ^ 53 * second"
  shows "seconds_of d \<le> of_int d / of_int second + (of_int d / of_int second + 6) / 2 ^ 53" and "0 \<le> seconds_of d"
proof -
  let ?a = "of_int (d div second) :: rat" and ?b = "of_int (d mod second) :: rat"
  have a: "fl ?a = ?a" "0 \<le> ?a" "fl ?b = ?b" "0 \<le> ?b" "?b < 1000000000"
    using assms by (auto intro!: fl_of_int simp: pos_imp_zdiv_nonneg_iff)
  let ?c = "fl (?b / 1000000000)"
  have q: "?b / 1000000000 < 1" using a(5) by simp
  have c: "?c \<le> ?b / 1000000000 + (?b / 1000000000 + 1) / 2 ^ 53" "0 \<le> ?c"
    using fl_upper [of "?b / 1000000000"] fl_nonneg [of "?b / 1000000000"] a(4) by simp_all
  have d: "?a + ?b / 1000000000 = of_int d / 1000000000"
  proof -
    have "of_int d = ?a * 1000000000 + ?b"
      by (metis div_mult_mod_eq of_int_add of_int_mult of_int_numeral)
    then show ?thesis by (simp add: field_simps)
  qed
  have s: "seconds_of d = fl (?a + ?c)" using assms(1) a by (simp add: seconds_of_def)
  show "0 \<le> seconds_of d" unfolding s using a(2) c(2) by (intro fl_nonneg) simp
  have "fl (?a + ?c) \<le> (?a + ?c) + (?a + ?c + 1) / 2 ^ 53"
    using a(2) c(2) by (intro fl_upper) simp
  also have "\<dots> \<le> of_int d / 1000000000 + (of_int d / 1000000000 + 6) / 2 ^ 53"
    using c(1) q d by (simp add: field_simps)
  finally show "seconds_of d \<le> of_int d / of_int second + (of_int d / of_int second + 6) / 2 ^ 53"
    unfolding s by simp
qed

end
