(* ===== verification/RateLimit.thy ===== *)
theory RateLimit
  imports GoPrelude GoFloat
begin

text \<open>
  The token buckets of the HTTP server (\<open>internal/api/ratelimit.go\<close>): one bucket per key in
  double precision, refilled by the wall clock, which may also step back. The lemmas bound how
  many calls of a key can pass in a window of time, rounding included.
\<close>

section \<open>Buckets\<close>

record bucket =
  bk_tokens :: rat
  bk_last_refill :: go_time

record rate_limiter =
  rl_buckets :: "string \<rightharpoonup> bucket"

definition new_rate_limiter :: rate_limiter where
  "new_rate_limiter = \<lparr>rl_buckets = Map.empty\<rparr>"

definition min_float :: "rat \<Rightarrow> rat \<Rightarrow> rat" where
  "min_float a b = (if a < b then a else b)"

definition rate_per_second :: "int \<Rightarrow> int \<Rightarrow> rat" where
  "rate_per_second limit per = fl (fl (of_int limit) / seconds_of per)"

definition refill :: "int \<Rightarrow> rat \<Rightarrow> go_time \<Rightarrow> bucket \<Rightarrow> bucket" where
  "refill limit rate now b =
     (let elapsed = seconds_of (time_sub now (bk_last_refill b)) in
      if elapsed > 0
      then \<lparr>bk_tokens = min_float (fl (of_int limit)) (fl (bk_tokens b + fl (elapsed * rate))),
            bk_last_refill = now\<rparr>
      else b)"

definition take_token :: "rat \<Rightarrow> bucket \<Rightarrow> (bool \<times> int) \<times> bucket" where
  "take_token rate b =
     (if bk_tokens b \<ge> 1 then ((True, 0), b\<lparr>bk_tokens := fl (bk_tokens b - 1)\<rparr>)
      else
        let need = fl (1 - bk_tokens b);
            wait = wrap_int64 (\<lceil>fl (need / rate)\<rceil> * second);
            wait = (if wait < second then second else wait)
        in ((False, wait), b))"

definition allow ::
  "string \<Rightarrow> int \<Rightarrow> int \<Rightarrow> rate_limiter \<Rightarrow> ((bool \<times> int) \<times> rate_limiter) eff" where
  "allow key limit per l e =
     (if limit \<le> 0 \<or> per \<le> 0 \<or> key = [] then (((True, 0), l), e)
      else
        case time_now e of (now, e) \<Rightarrow>
          let rate = rate_per_second limit per in
          (case rl_buckets l key of
             None \<Rightarrow>
               (((True, 0), l\<lparr>rl_buckets := (rl_buckets l)(key \<mapsto>
                   \<lparr>bk_tokens = fl (of_int (limit - 1)), bk_last_refill = now\<rparr>)\<rparr>), e)
           | Some b \<Rightarrow>
               (case take_token rate (refill limit rate now b) of
                  (answer, b) \<Rightarrow> ((answer, l\<lparr>rl_buckets := (rl_buckets l)(key \<mapsto> b)\<rparr>), e))))"

section \<open>Facts\<close>

lemma seconds_of_pos:
  assumes "0 < d"
  shows "0 < seconds_of d"
proof -
  let ?a = "fl (of_int (d div 1000000000))" and ?c = "fl (fl (of_int (d mod 1000000000)) / 1000000000)"
  have lower: "x / 2 \<le> fl x" if "1 / 1000000000 \<le> x" for x
    using fl_lower [OF order_trans [OF _ that]] by simp
  have "1 / 4000000000 \<le> ?a + ?c"
  proof (cases "d mod 1000000000 = 0")
    case True
    then have "1000000000 \<le> d" using assms by (intro zdvd_imp_le) (auto simp: dvd_eq_mod_eq_0)
    then have "0 < d div 1000000000" by (simp add: pos_imp_zdiv_pos_iff)
    then have "(1 :: rat) \<le> of_int (d div 1000000000)" by linarith
    then have "1 / 2 \<le> ?a" using lower [of "of_int (d div 1000000000)"] by linarith
    with True show ?thesis by simp
  next
    case False
    then have "1 \<le> d mod 1000000000" using pos_mod_sign [of 1000000000 d] by linarith
    moreover have "fl (of_int (d mod 1000000000)) = of_int (d mod 1000000000)"
      by (intro fl_of_int) (use assms in \<open>auto intro: less_trans [OF pos_mod_bound]\<close>)
    ultimately have "1 / 1000000000 \<le> fl (of_int (d mod 1000000000)) / 1000000000" by simp
    then have "1 / 2000000000 \<le> ?c" using lower [of "fl (of_int (d mod 1000000000)) / 1000000000"] by linarith
    moreover have "0 \<le> ?a" using assms by (intro fl_nonneg) (simp add: pos_imp_zdiv_nonneg_iff)
    ultimately show ?thesis by linarith
  qed
  then have "0 < fl (?a + ?c)" by (intro fl_pos) (rule order_trans [rotated], assumption, simp)
  then show ?thesis using assms by (simp add: seconds_of_def)
qed

lemma seconds_of_nonpos: "d \<le> 0 \<Longrightarrow> seconds_of d \<le> 0"
proof (cases "d = 0")
  case False
  assume "d \<le> 0"
  with False have "d < 0" by simp
  then have "0 \<le> fl (fl (of_int (- d div 1000000000)) + fl (fl (of_int (- d mod 1000000000)) / 1000000000))"
    by (intro fl_nonneg add_nonneg_nonneg divide_nonneg_pos) (auto simp: pos_imp_zdiv_nonneg_iff)
  with \<open>d < 0\<close> show ?thesis by (simp add: seconds_of_def)
qed (simp add: seconds_of_def)

lemma rate_nonneg: "0 \<le> limit \<Longrightarrow> 0 < per \<Longrightarrow> 0 \<le> rate_per_second limit per"
  using seconds_of_pos [of per]
  by (auto simp: rate_per_second_def intro!: fl_nonneg divide_nonneg_pos)

lemma min_float_le: "min_float a b \<le> a" "min_float a b \<le> b" "0 \<le> a \<Longrightarrow> 0 \<le> b \<Longrightarrow> 0 \<le> min_float a b"
  by (auto simp: min_float_def)

definition bucket_ok :: "int \<Rightarrow> bucket \<Rightarrow> bool" where
  "bucket_ok limit b \<longleftrightarrow> 0 \<le> bk_tokens b \<and> bk_tokens b \<le> of_int limit"

lemma refill_ok:
  assumes "bucket_ok limit b" and "0 \<le> rate" and "0 < limit" and "limit < 2 ^ 53"
  shows "bucket_ok limit (refill limit rate now b)"
  using assms fl_of_int [of limit]
  by (auto simp: bucket_ok_def refill_def Let_def intro!: min_float_le fl_nonneg add_nonneg_nonneg
      order_trans [OF min_float_le(1)])

lemma take_token_ok:
  assumes "bucket_ok limit b" and "limit < 2 ^ 53"
  shows "bucket_ok limit (snd (take_token rate b))"
proof (cases "1 \<le> bk_tokens b")
  case True
  have "fl (bk_tokens b - 1) \<le> bk_tokens b - 1 + bk_tokens b / 2 ^ 53"
    using fl_upper [of "bk_tokens b - 1"] True by simp
  also have "\<dots> \<le> bk_tokens b"
  proof -
    have "bk_tokens b \<le> of_int limit" using assms by (simp add: bucket_ok_def)
    also have "of_int limit \<le> (2 :: rat) ^ 53" using assms(2) by simp
    finally show ?thesis by simp
  qed
  finally show ?thesis
    using assms(1) True by (auto simp: take_token_def bucket_ok_def fl_nonneg)
qed (use assms in \<open>simp add: take_token_def Let_def\<close>)

section \<open>Credit\<close>

text \<open>
  What a key can still be granted up to \<open>t0 + T\<close>: the tokens of its bucket and what the
  refills can add, or a full bucket if its next refill is the first one in the window.
\<close>

abbreviation secs :: "int \<Rightarrow> rat" where
  "secs d \<equiv> of_int d / 1000000000"

definition credit :: "int \<Rightarrow> rat \<Rightarrow> go_time \<Rightarrow> int \<Rightarrow> bucket option \<Rightarrow> rat" where
  "credit limit rate t0 T ob =
     (case ob of
        None \<Rightarrow> of_int limit + rate * secs T
      | Some b \<Rightarrow>
          if bk_last_refill b < t0 then of_int limit + rate * secs T
          else bk_tokens b + rate * secs (max 0 (t0 + T - bk_last_refill b)))"

text \<open>The magnitudes a window may reach.\<close>

definition window_bounds :: "rat \<Rightarrow> int \<Rightarrow> rat \<Rightarrow> int \<Rightarrow> bool" where
  "window_bounds M limit rate T \<longleftrightarrow>
     6 \<le> M \<and> M \<le> 2 ^ 20 \<and> 0 < limit \<and> of_int limit \<le> M \<and> 0 \<le> rate \<and> rate \<le> M \<and>
     0 \<le> T \<and> secs T \<le> M"

lemma window_boundsD:
  assumes "window_bounds M limit rate T"
  shows "6 \<le> M" "M \<le> 2 ^ 20" "0 < limit" "of_int limit \<le> M" "0 \<le> rate" "rate \<le> M" "0 \<le> T"
    "secs T \<le> M" "limit < 2 ^ 53" "T < 2 ^ 53 * second" "T \<le> max_int64"
proof -
  show *: "6 \<le> M" "M \<le> 2 ^ 20" "0 < limit" "of_int limit \<le> M" "0 \<le> rate" "rate \<le> M" "0 \<le> T"
    "secs T \<le> M" using assms by (simp_all add: window_bounds_def)
  have "of_int limit \<le> (2 ^ 20 :: rat)" using *(2,4) by linarith
  then have "of_int limit \<le> (of_int (2 ^ 20) :: rat)" by simp
  then show "limit < 2 ^ 53" unfolding of_int_le_iff by simp
  have "of_int T \<le> (2 ^ 20 * 1000000000 :: rat)" using *(2,8) by (simp add: field_simps)
  then have "of_int T \<le> (of_int (2 ^ 20 * 1000000000) :: rat)" by simp
  then have "T \<le> 2 ^ 20 * 1000000000" unfolding of_int_le_iff .
  then show "T < 2 ^ 53 * second" "T \<le> max_int64" by (simp_all add: max_int64_def)
qed

text \<open>One refill, with every rounding at its worst.\<close>

lemma refill_upper:
  assumes d: "0 < d" "d \<le> T" and w: "window_bounds M limit rate T"
    and tok: "0 \<le> tok" "tok \<le> of_int limit"
  shows "fl (tok + fl (seconds_of d * rate)) \<le> tok + rate * secs d + 8 * M\<^sup>2 / 2 ^ 53"
proof -
  note W = window_boundsD [OF w]
  define el where "el = seconds_of d"
  have el: "el \<le> secs d + (secs d + 6) / 2 ^ 53" "0 \<le> el"
    using seconds_of_upper [of d] d W(10) by (simp_all add: el_def)
  have ds: "secs d \<le> M" "0 \<le> secs d"
  proof -
    have "secs d \<le> secs T" using d(2) by (simp add: divide_right_mono)
    then show "secs d \<le> M" using W(8) by linarith
    show "0 \<le> secs d" using d(1) by simp
  qed
  have MM: "6 * M \<le> M\<^sup>2" using W(1) by (simp add: power2_eq_square mult_right_mono)
  have e1: "el \<le> secs d + 2 * M / 2 ^ 53"
  proof -
    have "(secs d + 6) / (2 :: rat) ^ 53 \<le> 2 * M / 2 ^ 53"
      using ds W(1) by (intro divide_right_mono) auto
    with el(1) show ?thesis by linarith
  qed
  have e2: "el * rate \<le> rate * secs d + 2 * M\<^sup>2 / 2 ^ 53"
  proof -
    have "el * rate \<le> (secs d + 2 * M / 2 ^ 53) * rate"
      using e1 W(5) by (rule mult_right_mono)
    also have "\<dots> = rate * secs d + 2 * (M * rate) / 2 ^ 53" by (simp add: field_simps)
    also have "M * rate \<le> M\<^sup>2"
      unfolding power2_eq_square using W(1,6) by (intro mult_left_mono) auto
    finally show ?thesis by (simp add: divide_right_mono)
  qed
  have rd: "rate * secs d \<le> M\<^sup>2" "0 \<le> rate * secs d"
    unfolding power2_eq_square
    using mult_mono [OF W(6) ds(1) _ ds(2)] mult_nonneg_nonneg [OF W(5) ds(2)] W(1) by simp_all
  define x where "x = el * rate"
  have x: "0 \<le> x" using el(2) W(5) by (simp add: x_def)
  have small: "2 * M\<^sup>2 / 2 ^ 53 \<le> (1 :: rat)"
  proof -
    have "M\<^sup>2 \<le> (2 ^ 20)\<^sup>2" using W(1,2) by (intro power_mono) auto
    then show ?thesis by simp
  qed
  have x2: "x \<le> rate * secs d + 2 * M\<^sup>2 / 2 ^ 53" "x \<le> M\<^sup>2 + 1"
    using e2 rd(1) small by (auto simp: x_def)
  define y where "y = fl x"
  have y: "0 \<le> y" "y \<le> x + (M\<^sup>2 + 2) / 2 ^ 53"
  proof -
    show "0 \<le> y" using x by (simp add: y_def fl_nonneg)
    have "(x + 1) / (2 :: rat) ^ 53 \<le> (M\<^sup>2 + 2) / 2 ^ 53"
      using x2(2) by (intro divide_right_mono) auto
    with fl_upper [OF x] show "y \<le> x + (M\<^sup>2 + 2) / 2 ^ 53"
      unfolding y_def by (rule order_trans [OF _ add_left_mono])
  qed
  have y2: "y \<le> M\<^sup>2 + 2"
  proof -
    have "(M\<^sup>2 + 2) / (2 :: rat) ^ 53 \<le> 1" using small by (simp add: field_simps)
    with y(2) x2(2) show ?thesis by linarith
  qed
  have "fl (tok + y) \<le> tok + y + (tok + y + 1) / 2 ^ 53"
    using tok(1) y(1) by (intro fl_upper) simp
  also have "(tok + y + 1) / (2 :: rat) ^ 53 \<le> (M + M\<^sup>2 + 3) / 2 ^ 53"
    using tok(2) W(4) y2 by (intro divide_right_mono) auto
  finally have "fl (tok + y) \<le> tok + rate * secs d +
      (2 * M\<^sup>2 / 2 ^ 53 + (M\<^sup>2 + 2) / 2 ^ 53 + (M + M\<^sup>2 + 3) / 2 ^ 53)"
    using y(2) x2(1) by linarith
  also have "2 * M\<^sup>2 / 2 ^ 53 + (M\<^sup>2 + 2) / 2 ^ 53 + (M + M\<^sup>2 + 3) / 2 ^ 53 =
      (4 * M\<^sup>2 + M + 5) / (2 :: rat) ^ 53"
    by (simp add: field_simps)
  also have "\<dots> \<le> 8 * M\<^sup>2 / 2 ^ 53"
    using MM W(1) by (intro divide_right_mono) auto
  finally show ?thesis by (simp add: y_def x_def el_def)
qed

lemma refill_credit:
  assumes ok: "bucket_ok limit b" and now: "t0 \<le> now" "now \<le> t0 + T"
    and w: "window_bounds M limit rate T"
  shows "credit limit rate t0 T (Some (refill limit rate now b)) \<le>
      credit limit rate t0 T (Some b) + 8 * M\<^sup>2 / 2 ^ 53"
    and "t0 \<le> bk_last_refill (refill limit rate now b)"
proof -
  note W = window_boundsD [OF w]
  have L: "fl (of_int limit) = of_int limit" using W(3,9) by (intro fl_of_int) auto
  have slack: "0 \<le> 8 * M\<^sup>2 / (2 :: rat) ^ 53" by simp
  define d where "d = now - bk_last_refill b"
  have sign: "0 < time_sub now (bk_last_refill b) \<longleftrightarrow> 0 < d"
    by (auto simp: time_sub_def d_def max_int64_def min_int64_def)
  have el_pos: "0 < seconds_of (time_sub now (bk_last_refill b)) \<longleftrightarrow> 0 < d"
    unfolding sign [symmetric]
    using seconds_of_pos [of "time_sub now (bk_last_refill b)"]
      seconds_of_nonpos [of "time_sub now (bk_last_refill b)"] by linarith
  have main: "credit limit rate t0 T (Some (refill limit rate now b)) \<le>
      credit limit rate t0 T (Some b) + 8 * M\<^sup>2 / 2 ^ 53 \<and>
      t0 \<le> bk_last_refill (refill limit rate now b)"
  proof (cases "0 < d")
    case False
    then have "refill limit rate now b = b" "t0 \<le> bk_last_refill b"
      using el_pos now by (auto simp: refill_def Let_def d_def)
    then show ?thesis using slack by simp
  next
    case True
    let ?t = "min_float (of_int limit) (fl (bk_tokens b + fl (seconds_of (time_sub now (bk_last_refill b)) * rate)))"
    have r: "refill limit rate now b = \<lparr>bk_tokens = ?t, bk_last_refill = now\<rparr>"
      using True el_pos by (simp add: refill_def Let_def L)
    have c: "credit limit rate t0 T (Some (refill limit rate now b)) = ?t + rate * secs (t0 + T - now)"
      using now by (simp add: r credit_def max_def)
    show ?thesis
    proof (cases "bk_last_refill b < t0")
      case True
      have "rate * secs (t0 + T - now) \<le> rate * secs T"
        using W(5) now by (intro mult_left_mono) auto
      then have "credit limit rate t0 T (Some (refill limit rate now b)) \<le> of_int limit + rate * secs T"
        unfolding c by (intro add_mono min_float_le(1))
      moreover have "credit limit rate t0 T (Some b) = of_int limit + rate * secs T"
        using True by (simp add: credit_def)
      ultimately have "credit limit rate t0 T (Some (refill limit rate now b)) \<le>
          credit limit rate t0 T (Some b) + 8 * M\<^sup>2 / 2 ^ 53"
        using slack by linarith
      then show ?thesis using r now by simp
    next
      case False
      then have d: "0 < d" "d \<le> T" using \<open>0 < d\<close> now by (auto simp: d_def)
      have ts: "time_sub now (bk_last_refill b) = d"
        using d W(11) by (simp add: time_sub_def d_def [symmetric] min_int64_def)
      have "?t \<le> bk_tokens b + rate * secs d + 8 * M\<^sup>2 / 2 ^ 53"
        using refill_upper [OF d w, of "bk_tokens b"] ok min_float_le(2)
        unfolding ts bucket_ok_def by (meson order_trans)
      moreover have "credit limit rate t0 T (Some b) = bk_tokens b + (rate * secs d + rate * secs (t0 + T - now))"
        using False now d by (simp add: credit_def d_def max_def field_simps)
      ultimately show ?thesis using c r now by simp
    qed
  qed
  show "credit limit rate t0 T (Some (refill limit rate now b)) \<le>
      credit limit rate t0 T (Some b) + 8 * M\<^sup>2 / 2 ^ 53"
    and "t0 \<le> bk_last_refill (refill limit rate now b)" using main by blast+
qed

lemma take_credit:
  assumes "bucket_ok limit b" and "t0 \<le> bk_last_refill b" and "window_bounds M limit rate T"
    and "take_token rate b = ((ok, wait), b')"
  shows "credit limit rate t0 T (Some b') + (if ok then 1 else 0) \<le>
    credit limit rate t0 T (Some b) + M\<^sup>2 / 2 ^ 53"
proof (cases "1 \<le> bk_tokens b")
  case True
  note W = window_boundsD [OF assms(3)]
  have "fl (bk_tokens b - 1) \<le> bk_tokens b - 1 + bk_tokens b / 2 ^ 53"
    using fl_upper [of "bk_tokens b - 1"] True by simp
  moreover have "bk_tokens b / 2 ^ 53 \<le> M\<^sup>2 / (2 :: rat) ^ 53"
  proof (intro divide_right_mono)
    have "M * 1 \<le> M * M" using W(1) by (intro mult_left_mono) auto
    then show "bk_tokens b \<le> M\<^sup>2" using assms(1) W(4) by (simp add: bucket_ok_def power2_eq_square)
  qed simp
  ultimately show ?thesis
    using assms(2,4) True by (auto simp: take_token_def credit_def)
qed (use assms in \<open>auto simp: take_token_def Let_def\<close>)

section \<open>Counting what passes\<close>

text \<open>
  A potential argument as an interface: a step answers yes or no; every counted yes is paid
  for by the potential, which no step raises by more than the slack.
\<close>

locale metered =
  fixes step :: "'c \<Rightarrow> 's \<Rightarrow> bool \<times> 's"
    and good :: "'c \<Rightarrow> bool"
    and counted :: "'c \<Rightarrow> bool"
    and inv :: "'s \<Rightarrow> bool"
    and pot :: "'s \<Rightarrow> rat"
    and slack :: rat
  assumes inv_step: "inv s \<Longrightarrow> good c \<Longrightarrow> step c s = (ok, s') \<Longrightarrow> inv s'"
    and pot_nonneg: "inv s \<Longrightarrow> 0 \<le> pot s"
    and pays: "inv s \<Longrightarrow> good c \<Longrightarrow> step c s = (ok, s') \<Longrightarrow>
      (if counted c \<and> ok then 1 else 0) + pot s' \<le> pot s + slack"
begin

lemma run_inv:
  "run_steps step cs s = (oks, s') \<Longrightarrow> inv s \<Longrightarrow> \<forall>c \<in> set cs. good c \<Longrightarrow> inv s'"
proof (induction cs arbitrary: s oks)
  case (Cons c cs)
  then show ?case by (auto split: prod.splits intro: inv_step)
qed simp

lemma run_count:
  "run_steps step cs s = (oks, s') \<Longrightarrow> inv s \<Longrightarrow> \<forall>c \<in> set cs. good c \<Longrightarrow>
     of_nat (yes_count counted cs oks) + pot s' \<le> pot s + of_nat (length cs) * slack"
proof (induction cs arbitrary: s oks)
  case (Cons c cs)
  obtain ok s1 where st: "step c s = (ok, s1)" by fastforce
  obtain oks1 where r: "run_steps step cs s1 = (oks1, s')" "oks = ok # oks1"
    using Cons.prems(1) st by (auto split: prod.splits)
  have "of_nat (yes_count counted cs oks1) + pot s' \<le> pot s1 + of_nat (length cs) * slack"
    using Cons.IH [OF r(1)] inv_step [OF Cons.prems(2) _ st] Cons.prems(3) by simp
  moreover have "(if counted c \<and> ok then 1 else 0) + pot s1 \<le> pot s + slack"
    using pays [OF Cons.prems(2) _ st] Cons.prems(3) by simp
  ultimately show ?case
    using r(2) by (auto simp: yes_count_Cons algebra_simps split: if_splits)
qed (simp add: yes_count_def)

end

text \<open>One call of the limiter, with its own reading of the clock.\<close>

type_synonym limiter_call = "string \<times> int \<times> int \<times> effects"

fun allow_step :: "limiter_call \<Rightarrow> rate_limiter \<Rightarrow> bool \<times> rate_limiter" where
  "allow_step (key, limit, per, e) l =
     (case allow key limit per l e of (((ok, retry), l'), e') \<Rightarrow> (ok, l'))"

text \<open>Calls with the key use its limit and fall into the window; others are arbitrary.\<close>

definition window_call :: "string \<Rightarrow> int \<Rightarrow> int \<Rightarrow> go_time \<Rightarrow> int \<Rightarrow> limiter_call \<Rightarrow> bool" where
  "window_call key limit per t0 T c =
     (case c of (k, l, p, e) \<Rightarrow>
        k = key \<longrightarrow> l = limit \<and> p = per \<and> t0 \<le> clock e 0 \<and> clock e 0 \<le> t0 + T)"

definition limiter_ok :: "string \<Rightarrow> int \<Rightarrow> int \<Rightarrow> rat \<Rightarrow> int \<Rightarrow> rate_limiter \<Rightarrow> bool" where
  "limiter_ok key limit per M T l \<longleftrightarrow>
     key \<noteq> [] \<and> 0 < per \<and> window_bounds M limit (rate_per_second limit per) T \<and>
     (\<forall>b. rl_buckets l key = Some b \<longrightarrow> bucket_ok limit b)"

lemma allow_step_other:
  assumes "k \<noteq> key" and "allow_step (k, limit, per, e) l = (ok, l')"
  shows "rl_buckets l' key = rl_buckets l key"
  using assms by (auto simp: allow_def time_now_def Let_def split: if_splits option.splits prod.splits)

lemma allow_step_same:
  assumes "limiter_ok key limit per M T l" and "t0 \<le> clock e 0" "clock e 0 \<le> t0 + T"
    and "allow_step (key, limit, per, e) l = (ok, l')"
  shows "\<exists>b'. rl_buckets l' key = Some b' \<and> bucket_ok limit b' \<and>
    (if ok then 1 else 0) + credit limit (rate_per_second limit per) t0 T (Some b') \<le>
      credit limit (rate_per_second limit per) t0 T (rl_buckets l key) + 9 * M\<^sup>2 / 2 ^ 53"
proof -
  let ?r = "rate_per_second limit per"
  from assms(1) have key: "key \<noteq> []" "0 < per" and w: "window_bounds M limit ?r T"
    and ok: "\<And>b. rl_buckets l key = Some b \<Longrightarrow> bucket_ok limit b" by (auto simp: limiter_ok_def)
  note W = window_boundsD [OF w]
  show ?thesis
  proof (cases "rl_buckets l key")
    case None
    let ?b = "\<lparr>bk_tokens = fl (of_int (limit - 1)), bk_last_refill = clock e 0\<rparr>"
    have f: "fl (of_int (limit - 1)) = of_int (limit - 1)" using W(3,9) by (intro fl_of_int) auto
    have "?r * secs (t0 + T - clock e 0) \<le> ?r * secs T"
      using W(5) assms(2) by (intro mult_left_mono) auto
    moreover have "credit limit ?r t0 T (Some ?b) = of_int limit - 1 + ?r * secs (t0 + T - clock e 0)"
      unfolding credit_def option.case bucket.select_convs f using assms(2,3) by (simp add: max_def)
    ultimately have "1 + credit limit ?r t0 T (Some ?b) \<le> of_int limit + ?r * secs T"
      by linarith
    moreover have "credit limit ?r t0 T None = of_int limit + ?r * secs T" by (simp add: credit_def)
    moreover have "0 \<le> 9 * M\<^sup>2 / (2 :: rat) ^ 53" by simp
    ultimately have "1 + credit limit ?r t0 T (Some ?b) \<le> credit limit ?r t0 T None + 9 * M\<^sup>2 / 2 ^ 53"
      by linarith
    moreover have "bucket_ok limit ?b" unfolding bucket_ok_def bucket.select_convs f using W(3) by simp
    moreover have "ok \<and> rl_buckets l' key = Some ?b"
      using assms(4) None key W(3) by (auto simp: allow_def time_now_def Let_def)
    ultimately show ?thesis using None by auto
  next
    case (Some b)
    note b = ok [OF Some]
    obtain wait b' where t: "take_token ?r (refill limit ?r (clock e 0) b) = ((ok, wait), b')"
      and l': "rl_buckets l' key = Some b'"
      using assms(4) Some key W(3) by (auto simp: allow_def time_now_def Let_def split: prod.splits)
    have r: "bucket_ok limit (refill limit ?r (clock e 0) b)" using refill_ok [OF b W(5,3,9)] .
    have "bucket_ok limit b'" using take_token_ok [OF r W(9), of ?r] t by simp
    moreover have "(if ok then 1 else 0) + credit limit ?r t0 T (Some b') \<le>
        credit limit ?r t0 T (Some b) + 9 * M\<^sup>2 / 2 ^ 53"
      using take_credit [OF r refill_credit(2) [OF b assms(2,3) w] w t]
        refill_credit(1) [OF b assms(2,3) w] by simp
    ultimately show ?thesis using l' Some by auto
  qed
qed

lemma credit_nonneg:
  assumes "window_bounds M limit rate T" and "\<And>b. ob = Some b \<Longrightarrow> bucket_ok limit b"
  shows "0 \<le> credit limit rate t0 T ob"
  using window_boundsD(3,5,7) [OF assms(1)] assms(2)
  by (auto simp: credit_def bucket_ok_def split: option.splits intro!: add_nonneg_nonneg mult_nonneg_nonneg)

interpretation limiter: metered allow_step "window_call key limit per t0 T" "\<lambda>c. fst c = key"
  "limiter_ok key limit per M T"
  "\<lambda>l. credit limit (rate_per_second limit per) t0 T (rl_buckets l key)" "9 * M\<^sup>2 / 2 ^ 53"
  for key limit per t0 T M
proof
  fix l c ok l'
  assume a: "limiter_ok key limit per M T l" "window_call key limit per t0 T c" "allow_step c l = (ok, l')"
  obtain k lim p e where c: "c = (k, lim, p, e)" by (cases c)
  let ?cr = "credit limit (rate_per_second limit per) t0 T"
  have "limiter_ok key limit per M T l' \<and>
      (if fst c = key \<and> ok then 1 else 0) + ?cr (rl_buckets l' key) \<le>
        ?cr (rl_buckets l key) + 9 * M\<^sup>2 / 2 ^ 53"
  proof (cases "k = key")
    case True
    then have "t0 \<le> clock e 0" "clock e 0 \<le> t0 + T" "allow_step (key, limit, per, e) l = (ok, l')"
      using a(2,3) by (auto simp: window_call_def c)
    from allow_step_same [OF a(1) this] a(1) True show ?thesis
      by (auto simp: limiter_ok_def c)
  next
    case False
    have same: "rl_buckets l' key = rl_buckets l key"
      using allow_step_other [OF False] a(3) by (simp add: c del: allow_step.simps)
    then show ?thesis using a(1) False by (simp add: limiter_ok_def c)
  qed
  then show "limiter_ok key limit per M T l'"
    "(if fst c = key \<and> ok then 1 else 0) + ?cr (rl_buckets l' key) \<le>
        ?cr (rl_buckets l key) + 9 * M\<^sup>2 / 2 ^ 53" by blast+
next
  fix l assume "limiter_ok key limit per M T l"
  then show "0 \<le> credit limit (rate_per_second limit per) t0 T (rl_buckets l key)"
    by (intro credit_nonneg [of M]) (auto simp: limiter_ok_def)
qed

lemma window_bound:
  assumes "run_steps allow_step before new_rate_limiter = (oks0, l)"
    and "run_steps allow_step cs l = (oks, l')"
    and "\<forall>c \<in> set before. fst c = key \<longrightarrow> fst (snd c) = limit \<and> fst (snd (snd c)) = per"
    and "\<forall>c \<in> set cs. window_call key limit per t0 T c"
    and "key \<noteq> []" and "0 < per" and "window_bounds M limit (rate_per_second limit per) T"
  shows "of_nat (yes_count (\<lambda>c. fst c = key) cs oks) \<le>
    of_int limit + rate_per_second limit per * secs T + of_nat (length cs) * (9 * M\<^sup>2 / 2 ^ 53)"
proof -
  let ?r = "rate_per_second limit per"
  have all: "limiter_ok key limit per M T l1"
    if "run_steps allow_step xs l0 = (o1, l1)" "limiter_ok key limit per M T l0"
      "\<forall>c \<in> set xs. fst c = key \<longrightarrow> fst (snd c) = limit \<and> fst (snd (snd c)) = per" for xs l0 o1 l1
    using that
  proof (induction xs arbitrary: l0 o1)
    case (Cons c xs)
    obtain k lim p e where c: "c = (k, lim, p, e)" by (cases c)
    obtain ok l2 where st: "allow_step c l0 = (ok, l2)" by fastforce
    have "window_call key limit per (clock e 0) T c"
      using Cons.prems(3) window_boundsD(7) [OF assms(7)] by (auto simp: window_call_def c)
    from limiter.inv_step [OF Cons.prems(2) this st] show ?case
      using Cons st by (auto split: prod.splits)
  qed simp
  have "limiter_ok key limit per M T new_rate_limiter"
    using assms(5-7) by (simp add: limiter_ok_def new_rate_limiter_def)
  then have l: "limiter_ok key limit per M T l" using all [OF assms(1)] assms(3) by blast
  have "of_nat (yes_count (\<lambda>c. fst c = key) cs oks) \<le>
      credit limit ?r t0 T (rl_buckets l key) + of_nat (length cs) * (9 * M\<^sup>2 / 2 ^ 53)"
    using limiter.run_count [OF assms(2) l assms(4)]
      limiter.pot_nonneg [OF limiter.run_inv [OF assms(2) l assms(4)], of t0] by linarith
  also have "credit limit ?r t0 T (rl_buckets l key) \<le> of_int limit + ?r * secs T"
  proof (cases "rl_buckets l key")
    case (Some b)
    have b: "bk_tokens b \<le> of_int limit" using l Some by (simp add: limiter_ok_def bucket_ok_def)
    have "?r * secs (max 0 (t0 + T - bk_last_refill b)) \<le> ?r * secs T"
      if "t0 \<le> bk_last_refill b"
      using window_boundsD(5,7) [OF assms(7)] that by (intro mult_left_mono divide_right_mono) auto
    with b show ?thesis using Some by (auto simp: credit_def)
  qed (simp add: credit_def)
  finally show ?thesis by simp
qed

lemma seconds_of_minute: "seconds_of minute = 60"
  using fl_of_int [of 60] by (simp add: seconds_of_def)

lemma minute_rate:
  assumes "0 < limit" and "limit < 2 ^ 53"
  shows "0 \<le> rate_per_second limit minute"
    "rate_per_second limit minute \<le> of_int limit / 60 + (of_int limit / 60 + 1) / 2 ^ 53"
  using rate_nonneg [of limit minute] fl_upper [of "of_int limit / 60"] fl_of_int [of limit] assms
  by (simp_all add: rate_per_second_def seconds_of_minute)

section \<open>Properties\<close>

text \<open>
  C19. The limit holds in every window of time, rounding of the floating-point arithmetic and
  steps of the wall clock included: whatever calls came before, and whatever calls with other
  keys come between, the calls with a key that pass while the clock reads between
  \<open>t0\<close> and \<open>t0 + T\<close> are at most the limit plus the rate times \<open>T\<close>, up to a rounding error of
  less than \<open>M\<^sup>2 / 2 ^ 49\<close> per call, where \<open>M\<close> bounds the limit, the rate and \<open>T\<close> in seconds.
\<close>

theorem rate_window_bound:
  assumes "run_steps allow_step before new_rate_limiter = (oks0, l)"
    and "run_steps allow_step cs l = (oks, l')"
    and "\<forall>c \<in> set before. fst c = key \<longrightarrow> fst (snd c) = limit \<and> fst (snd (snd c)) = per"
    and "\<forall>c \<in> set cs. window_call key limit per t0 T c"
    and "key \<noteq> []" and "0 < per" and "window_bounds M limit (rate_per_second limit per) T"
  shows "of_nat (yes_count (\<lambda>c. fst c = key) cs oks) \<le>
    of_int limit + rate_per_second limit per * secs T + of_nat (length cs) * (9 * M\<^sup>2 / 2 ^ 53)"
  using window_bound [OF assms] .

definition reading :: "go_time \<Rightarrow> effects" where
  "reading t = \<lparr>clock = (\<lambda>i. t), entropy = (\<lambda>i. CHR ''A'')\<rparr>"

text \<open>Two calls at one instant with a limit of one: the second is turned away.\<close>

definition two_calls :: "limiter_call list" where
  "two_calls = [(''k'', 1, minute, reading 0), (''k'', 1, minute, reading 0)]"

theorem rate_window_bound_witness:
  "fst (run_steps allow_step two_calls new_rate_limiter) = [True, False] \<and>
   of_nat (yes_count (\<lambda>c. fst c = ''k'') two_calls [True, False]) \<le>
     1 + rate_per_second 1 minute * secs 0 + 2 * (9 * 6\<^sup>2 / 2 ^ 53)"
proof -
  have run: "fst (run_steps allow_step two_calls new_rate_limiter) = [True, False]"
    by (simp add: two_calls_def reading_def allow_def time_now_def Let_def new_rate_limiter_def
        take_token_def refill_def time_sub_def seconds_of_def min_int64_def max_int64_def split: prod.splits)
  have bounds: "window_bounds 6 1 (rate_per_second 1 minute) 0"
    using minute_rate [of 1] by (simp add: window_bounds_def)
  obtain l' where "run_steps allow_step two_calls new_rate_limiter = ([True, False], l')"
    using run by (metis fst_conv surj_pair)
  from rate_window_bound [OF _ this, of "[]" "[]" "''k''" 1 minute 0 0, OF _ _ _ _ _ bounds]
  show ?thesis using run by (simp add: window_call_def two_calls_def reading_def)
qed

text \<open>
  A refused caller is told to wait at least a whole second, a bucket never holds more
  than the limit or less than nothing, and a call leaves the buckets of all other keys as they
  were; the first call of a key passes.
\<close>

theorem allow_answers:
  assumes "0 < limit" and "limit \<le> 2 ^ 20" and "allow key limit minute l e = (((ok, retry), l'), e')"
    and "\<forall>b. rl_buckets l key = Some b \<longrightarrow> bucket_ok limit b"
  shows "(if ok then retry = 0 else second \<le> retry) \<and>
    (\<forall>k. k \<noteq> key \<longrightarrow> rl_buckets l' k = rl_buckets l k) \<and>
    (\<forall>b. rl_buckets l' key = Some b \<longrightarrow> bucket_ok limit b) \<and>
    (rl_buckets l key = None \<longrightarrow> ok)"
proof -
  let ?r = "rate_per_second limit minute"
  have L: "limit < 2 ^ 53" using assms(2) by simp
  have f: "fl (of_int (limit - 1)) = of_int (limit - 1)" using assms(1) L by (intro fl_of_int) auto
  have new: "bucket_ok limit \<lparr>bk_tokens = fl (of_int (limit - 1)), bk_last_refill = t\<rparr>" for t
    unfolding bucket_ok_def bucket.select_convs f using assms(1) by simp
  have ok: "bucket_ok limit (snd (take_token ?r (refill limit ?r t b)))" if "bucket_ok limit b" for t b
    using take_token_ok [OF refill_ok [OF that minute_rate(1) [OF assms(1) L] assms(1) L] L] .
  have wait: "if fst (fst (take_token ?r b)) then snd (fst (take_token ?r b)) = 0
      else second \<le> snd (fst (take_token ?r b))" for b
    by (simp add: take_token_def Let_def)
  show ?thesis
  proof (cases "rl_buckets l key")
    case None
    then show ?thesis using assms(1,3,4) new
      by (auto simp: allow_def time_now_def Let_def split: if_splits)
  next
    case (Some b)
    have b: "bucket_ok limit b" using assms(4) Some by blast
    show ?thesis using assms(1,3,4) Some ok [OF b, of "clock e 0"] wait [of "refill limit ?r (clock e 0) b"]
      by (auto simp: allow_def time_now_def Let_def split: if_splits prod.splits)
  qed
qed

theorem allow_answers_witness:
  "\<exists>l' e'. allow ''k'' 5 minute new_rate_limiter (reading 0) = (((True, 0), l'), e')"
proof -
  obtain ok retry l' e' where a: "allow ''k'' 5 minute new_rate_limiter (reading 0) = (((ok, retry), l'), e')"
    by (metis surj_pair)
  from allow_answers [OF _ _ this] have "ok" "retry = 0"
    by (auto simp: new_rate_limiter_def split: if_splits)
  with a show ?thesis by simp
qed

end
