(* ===== verification/HistoryCache.thy ===== *)
theory HistoryCache
  imports Imsg
begin

text \<open>
  The cache of message histories (\<open>internal/api/history_cache.go\<close>): entries by a key that is
  the JSON text of the chat and the options, each with the time it expires, dropped all at
  once for a chat. \<open>cloneMessages\<close> copies; in the model a message list is a value already, so
  what is left of it is that an empty list comes back as nil, which reads the same.
\<close>

section \<open>The cache\<close>

record cached_messages =
  cm_chat_id :: int64
  cm_expires_at :: go_time
  cm_messages :: "message list"

record message_history_cache =
  hc_ttl :: int
  hc_entries :: "string \<rightharpoonup> cached_messages"

definition new_message_history_cache :: "int \<Rightarrow> message_history_cache" where
  "new_message_history_cache ttl =
     \<lparr>hc_ttl = (if ttl \<le> 0 then 30 * minute else ttl), hc_entries = Map.empty\<rparr>"

definition time_member :: "string \<Rightarrow> zoned option \<Rightarrow> (string \<times> json) list" where
  "time_member key z =
     (case z of None \<Rightarrow> [] | Some t \<Rightarrow> [(key, JStr (fmt_rfc3339nano (fst t)))])"

definition message_history_key :: "int64 \<Rightarrow> list_messages_options \<Rightarrow> string" where
  "message_history_key chat_id opts = json_text False (JObj
     ([(''chat_id'', int64_json chat_id), (''limit'', JInt (lo_limit opts))] @
      time_member ''before'' (lo_before opts) @ time_member ''after'' (lo_after opts) @
      [(''attachments'', JBool (lo_attachments opts))]))"

definition cache_get ::
  "int64 \<Rightarrow> list_messages_options \<Rightarrow> message_history_cache \<Rightarrow>
   (message list option \<times> message_history_cache) eff" where
  "cache_get chat_id opts c e =
     (let key = message_history_key chat_id opts in
      case hc_entries c key of
        None \<Rightarrow> ((None, c), e)
      | Some entry \<Rightarrow>
          (case time_now e of (now, e) \<Rightarrow>
             if now > cm_expires_at entry
             then ((None, c\<lparr>hc_entries := (hc_entries c)(key := None)\<rparr>), e)
             else ((Some (cm_messages entry), c), e)))"

definition cache_put ::
  "int64 \<Rightarrow> list_messages_options \<Rightarrow> message list \<Rightarrow> message_history_cache \<Rightarrow>
   message_history_cache eff" where
  "cache_put chat_id opts messages c e =
     (let key = message_history_key chat_id opts in
      case time_now e of (now, e) \<Rightarrow>
        (c\<lparr>hc_entries := (hc_entries c)(key \<mapsto>
             \<lparr>cm_chat_id = chat_id, cm_expires_at = now + hc_ttl c, cm_messages = messages\<rparr>)\<rparr>, e))"

definition invalidate_chat :: "int64 \<Rightarrow> message_history_cache \<Rightarrow> message_history_cache" where
  "invalidate_chat chat_id c =
     c\<lparr>hc_entries := (\<lambda>key. case hc_entries c key of
        None \<Rightarrow> None
      | Some entry \<Rightarrow> if cm_chat_id entry = chat_id then None else Some entry)\<rparr>"

section \<open>The key\<close>

text \<open>What a history query is about: the instants, not the zones they were written in.\<close>

definition query_of :: "int64 \<Rightarrow> list_messages_options \<Rightarrow> int64 \<times> int \<times> go_time option \<times> go_time option \<times> bool" where
  "query_of chat_id opts =
     (chat_id, lo_limit opts, map_option fst (lo_before opts), map_option fst (lo_after opts), lo_attachments opts)"

definition opts_in_range :: "list_messages_options \<Rightarrow> bool" where
  "opts_in_range opts \<longleftrightarrow>
     (\<forall>z. lo_before opts = Some z \<or> lo_after opts = Some z \<longrightarrow> time_in_range (fst z))"

lemma json_text_inject:
  assumes "writable j" and "writable k" and "json_text ind j = json_text ind k"
  shows "j = k"
  using parse_json_text [OF assms(1), of "[]" ind] parse_json_text [OF assms(2), of "[]" ind] assms(3) by simp

lemma fmt_rfc3339nano_inject:
  "time_in_range s \<Longrightarrow> time_in_range t \<Longrightarrow> fmt_rfc3339nano s = fmt_rfc3339nano t \<longleftrightarrow> s = t"
  using parse_fmt_rfc3339nano by (metis option.inject)

lemma key_inject:
  assumes "opts_in_range opts" and "opts_in_range opts'"
  shows "message_history_key chat_id opts = message_history_key chat_id' opts' \<longleftrightarrow>
    query_of chat_id opts = query_of chat_id' opts'"
proof
  have w: "writable (JObj ([(''chat_id'', int64_json c), (''limit'', JInt (lo_limit o1))] @
      time_member ''before'' (lo_before o1) @ time_member ''after'' (lo_after o1) @
      [(''attachments'', JBool (lo_attachments o1))]))" for c o1
    by (auto simp: time_member_def int64_json_def split: option.split)
  assume "message_history_key chat_id opts = message_history_key chat_id' opts'"
  from json_text_inject [OF w w this [unfolded message_history_key_def]]
  show "query_of chat_id opts = query_of chat_id' opts'"
    using assms by (auto simp: query_of_def time_member_def int64_json_def opts_in_range_def
        fmt_rfc3339nano_inject split: option.splits dest: signed_word_eqI)
qed (auto simp: query_of_def message_history_key_def time_member_def split: option.splits)

section \<open>The contract of a cache\<close>

text \<open>
  What is relied on: \<open>look\<close> finds under a query what was put last under the same one, and
  dropping a query or a group takes exactly those entries out. \<open>recent\<close> is the value a query
  should have after a sequence of operations, newest first, with the time it expires.
\<close>

datatype ('q, 'g, 'v) cache_op =
    Put 'q go_time 'v
  | Get 'q go_time
  | Drop 'g

fun recent :: "('q \<Rightarrow> 'q \<Rightarrow> bool) \<Rightarrow> ('q \<Rightarrow> 'g) \<Rightarrow> int \<Rightarrow> 'q \<Rightarrow> ('q, 'g, 'v) cache_op list \<Rightarrow> (go_time \<times> 'v) option" where
  "recent same grp ttl q [] = None"
| "recent same grp ttl q (Put q' t v # ops) =
     (if same q' q then Some (t + ttl, v) else recent same grp ttl q ops)"
| "recent same grp ttl q (Get q' t # ops) =
     (case recent same grp ttl q ops of
        None \<Rightarrow> None
      | Some (expiry, v) \<Rightarrow> if same q' q \<and> t > expiry then None else Some (expiry, v))"
| "recent same grp ttl q (Drop g # ops) =
     (if grp q = g then None else recent same grp ttl q ops)"

locale timed_cache =
  fixes look :: "'s \<Rightarrow> 'q \<Rightarrow> (go_time \<times> 'v) option"
    and put :: "'q \<Rightarrow> go_time \<Rightarrow> 'v \<Rightarrow> 's \<Rightarrow> 's"
    and get :: "'q \<Rightarrow> go_time \<Rightarrow> 's \<Rightarrow> 'v option \<times> 's"
    and drop_group :: "'g \<Rightarrow> 's \<Rightarrow> 's"
    and grp :: "'q \<Rightarrow> 'g"
    and same :: "'q \<Rightarrow> 'q \<Rightarrow> bool"
    and ok :: "'q \<Rightarrow> bool"
    and ttl :: "'s \<Rightarrow> int"
    and inv :: "'s \<Rightarrow> bool"
  assumes look_put: "ok q \<Longrightarrow> ok q' \<Longrightarrow>
      look (put q' t v s) q = (if same q' q then Some (t + ttl s, v) else look s q)"
    and look_drop: "inv s \<Longrightarrow> ok q \<Longrightarrow> look (drop_group g s) q = (if grp q = g then None else look s q)"
    and get_hit: "fst (get q t s) =
      (case look s q of None \<Rightarrow> None | Some (expiry, v) \<Rightarrow> if t > expiry then None else Some v)"
    and look_get: "ok q \<Longrightarrow> ok q' \<Longrightarrow> look (snd (get q' t s)) q =
      (case look s q of None \<Rightarrow> None
       | Some (expiry, v) \<Rightarrow> if same q' q \<and> t > expiry then None else Some (expiry, v))"
    and ttl_fixed: "ttl (put q t v s) = ttl s" "ttl (snd (get q t s)) = ttl s" "ttl (drop_group g s) = ttl s"
    and inv_kept: "inv s \<Longrightarrow> ok q \<Longrightarrow> inv (put q t v s)" "inv s \<Longrightarrow> inv (snd (get q t s))"
      "inv s \<Longrightarrow> inv (drop_group g s)"
begin

text \<open>The operations one after the other, the newest first in the list.\<close>

fun after :: "('q, 'g, 'v) cache_op list \<Rightarrow> 's \<Rightarrow> 's" where
  "after [] s = s"
| "after (Put q t v # ops) s = put q t v (after ops s)"
| "after (Get q t # ops) s = snd (get q t (after ops s))"
| "after (Drop g # ops) s = drop_group g (after ops s)"

fun op_ok :: "('q, 'g, 'v) cache_op \<Rightarrow> bool" where
  "op_ok (Put q t v) = ok q"
| "op_ok (Get q t) = ok q"
| "op_ok (Drop g) = True"

lemma ttl_after [simp]: "ttl (after ops s) = ttl s"
  by (induction ops s rule: after.induct) (simp_all add: ttl_fixed)

lemma inv_after: "inv s \<Longrightarrow> list_all op_ok ops \<Longrightarrow> inv (after ops s)"
  by (induction ops s rule: after.induct) (simp_all add: inv_kept)

lemma look_after:
  assumes "inv s" and "\<And>q. look s q = None" and "list_all op_ok ops" and "ok q"
  shows "look (after ops s) q = recent same grp (ttl s) q ops"
  using assms(3)
proof (induction ops)
  case (Cons op ops)
  then show ?case
    using assms(4) inv_after [OF assms(1)]
    by (cases op) (simp_all add: look_put look_get look_drop)
qed (use assms(2) in simp)

text \<open>A hit is the value put last for the same query, unexpired and not dropped since.\<close>

lemma get_after:
  assumes "inv s" and "\<And>q. look s q = None" and "list_all op_ok ops" and "ok q"
  shows "fst (get q t (after ops s)) =
    (case recent same grp (ttl s) q ops of None \<Rightarrow> None
     | Some (expiry, v) \<Rightarrow> if t > expiry then None else Some v)"
  using look_after [OF assms] by (simp add: get_hit)

end

section \<open>The history cache keeps it\<close>

type_synonym query = "int64 \<times> list_messages_options"

definition at_time :: "go_time \<Rightarrow> effects" where
  "at_time t = \<lparr>clock = (\<lambda>i. t), entropy = (\<lambda>i. CHR 0x00)\<rparr>"

definition look_history :: "message_history_cache \<Rightarrow> query \<Rightarrow> (go_time \<times> message list) option" where
  "look_history c q =
     map_option (\<lambda>x. (cm_expires_at x, cm_messages x)) (hc_entries c (message_history_key (fst q) (snd q)))"

definition put_history :: "query \<Rightarrow> go_time \<Rightarrow> message list \<Rightarrow> message_history_cache \<Rightarrow> message_history_cache" where
  "put_history q t ms c = fst (cache_put (fst q) (snd q) ms c (at_time t))"

definition get_history :: "query \<Rightarrow> go_time \<Rightarrow> message_history_cache \<Rightarrow> message list option \<times> message_history_cache" where
  "get_history q t c = fst (cache_get (fst q) (snd q) c (at_time t))"

definition same_query :: "query \<Rightarrow> query \<Rightarrow> bool" where
  "same_query q q' \<longleftrightarrow> query_of (fst q) (snd q) = query_of (fst q') (snd q')"

text \<open>Every entry is filed under a key of its own chat.\<close>

definition filed :: "message_history_cache \<Rightarrow> bool" where
  "filed c \<longleftrightarrow> (\<forall>key entry. hc_entries c key = Some entry \<longrightarrow>
     (\<exists>opts. opts_in_range opts \<and> key = message_history_key (cm_chat_id entry) opts))"

lemma filed_query:
  assumes "filed c" and "hc_entries c (message_history_key chat_id opts) = Some entry" and "opts_in_range opts"
  shows "cm_chat_id entry = chat_id"
  using assms key_inject by (fastforce simp: filed_def query_of_def)

interpretation history: timed_cache look_history put_history get_history invalidate_chat fst same_query
  "\<lambda>q. opts_in_range (snd q)" hc_ttl filed
proof
  fix s :: message_history_cache and q q' :: query and t v and g :: int64
  show "look_history (put_history q' t v s) q = (if same_query q' q then Some (t + hc_ttl s, v) else look_history s q)"
    if "opts_in_range (snd q)" "opts_in_range (snd q')"
    using key_inject [OF that]
    by (auto simp: look_history_def put_history_def cache_put_def time_now_def at_time_def same_query_def Let_def)
  show "look_history (invalidate_chat g s) q = (if fst q = g then None else look_history s q)"
    if "filed s" "opts_in_range (snd q)"
    using filed_query [OF that(1) _ that(2), of "fst q"]
    by (auto simp: look_history_def invalidate_chat_def split: option.splits)
  show "fst (get_history q t s) =
      (case look_history s q of None \<Rightarrow> None | Some (expiry, v) \<Rightarrow> if t > expiry then None else Some v)"
    by (simp add: get_history_def cache_get_def look_history_def time_now_def at_time_def Let_def split: option.split)
  show "look_history (snd (get_history q' t s)) q =
      (case look_history s q of None \<Rightarrow> None
       | Some (expiry, v) \<Rightarrow> if same_query q' q \<and> t > expiry then None else Some (expiry, v))"
    if "opts_in_range (snd q)" "opts_in_range (snd q')"
    using key_inject [OF that, of "fst q" "fst q'"]
    by (cases "same_query q' q"; cases "hc_entries s (message_history_key (fst q) (snd q))";
        cases "hc_entries s (message_history_key (fst q') (snd q'))")
      (auto simp: get_history_def cache_get_def look_history_def time_now_def at_time_def same_query_def Let_def)
  show "hc_ttl (put_history q t v s) = hc_ttl s" "hc_ttl (snd (get_history q t s)) = hc_ttl s"
    "hc_ttl (invalidate_chat g s) = hc_ttl s"
    by (auto simp: put_history_def cache_put_def get_history_def cache_get_def invalidate_chat_def time_now_def
        Let_def split: option.splits)
  show "filed (put_history q t v s)" if "filed s" "opts_in_range (snd q)"
    using that by (auto simp: filed_def put_history_def cache_put_def time_now_def Let_def)
  show "filed (snd (get_history q t s))" if "filed s"
    using that by (auto simp: filed_def get_history_def cache_get_def time_now_def Let_def split: option.splits)
  show "filed (invalidate_chat g s)" if "filed s"
    using that by (auto simp: filed_def invalidate_chat_def split: option.splits if_splits)
qed

text \<open>The calls of a run, the newest first, each at its reading of the clock.\<close>

fun cache_run :: "(query, int64, message list) cache_op list \<Rightarrow> message_history_cache \<Rightarrow> message_history_cache" where
  "cache_run [] c = c"
| "cache_run (Put q t ms # ops) c = put_history q t ms (cache_run ops c)"
| "cache_run (Get q t # ops) c = snd (get_history q t (cache_run ops c))"
| "cache_run (Drop chat_id # ops) c = invalidate_chat chat_id (cache_run ops c)"

fun call_in_range :: "(query, int64, message list) cache_op \<Rightarrow> bool" where
  "call_in_range (Put q t ms) = opts_in_range (snd q)"
| "call_in_range (Get q t) = opts_in_range (snd q)"
| "call_in_range (Drop chat_id) = True"

lemma cache_run_after: "cache_run ops c = history.after ops c"
  by (induction ops c rule: cache_run.induct) simp_all

lemma call_in_range_ok: "call_in_range = history.op_ok"
proof
  show "call_in_range op = history.op_ok op" for op by (cases op) simp_all
qed

definition plain_query :: query where
  "plain_query = (3, \<lparr>lo_limit = 50, lo_before = None, lo_after = Some (0, 0), lo_attachments = True\<rparr>)"

definition zoned_query :: query where
  "zoned_query = (3, \<lparr>lo_limit = 50, lo_before = None, lo_after = Some (0, 7200), lo_attachments = True\<rparr>)"

lemma example_queries [simp]:
  "opts_in_range (snd plain_query)" "opts_in_range (snd zoned_query)" "same_query plain_query zoned_query"
  by (auto simp: plain_query_def zoned_query_def opts_in_range_def same_query_def query_of_def time_in_range_def
      epoch_day_def day_ns_def)

section \<open>Properties\<close>

text \<open>
  Two history queries share a cache entry exactly if they ask for the same chat, the same
  limit, the same instants whatever zone they are written in, and the same attachment flag.
\<close>

theorem history_key_unique:
  assumes "opts_in_range opts" and "opts_in_range opts'"
  shows "message_history_key chat_id opts = message_history_key chat_id' opts' \<longleftrightarrow>
    query_of chat_id opts = query_of chat_id' opts'"
  using key_inject [OF assms] .

theorem history_key_unique_witness:
  "message_history_key (fst plain_query) (snd plain_query) = message_history_key (fst zoned_query) (snd zoned_query)"
  by (subst history_key_unique) (simp_all add: same_query_def [symmetric])

text \<open>
  C25. After any sequence of reads, writes and invalidations the cache answers a query with the
  messages written last under the same query, unless they are older than the time to live, were
  found to be so by an earlier read, or the chat was invalidated since; then it does not answer.
\<close>

theorem cache_refines_recent:
  assumes "list_all call_in_range ops" and "opts_in_range (snd q)"
  shows "fst (get_history q t (cache_run ops (new_message_history_cache ttl))) =
    (case recent same_query fst (if ttl \<le> 0 then 30 * minute else ttl) q ops of None \<Rightarrow> None
     | Some (expiry, ms) \<Rightarrow> if t > expiry then None else Some ms)"
proof -
  have "hc_ttl (new_message_history_cache ttl) = (if ttl \<le> 0 then 30 * minute else ttl)"
    "filed (new_message_history_cache ttl)" "look_history (new_message_history_cache ttl) q = None" for q
    by (simp_all add: new_message_history_cache_def filed_def look_history_def)
  then show ?thesis
    using history.get_after [of "new_message_history_cache ttl" ops q t] assms
    by (simp only: cache_run_after call_in_range_ok)
qed

theorem cache_refines_recent_witness:
  "fst (get_history zoned_query minute (cache_run [Drop 4, Put plain_query 0 [demo_message]]
     (new_message_history_cache 0))) = Some [demo_message]"
  by (subst cache_refines_recent) (simp_all add: plain_query_def [THEN arg_cong [where f = fst]] zoned_query_def [THEN arg_cong [where f = fst]])

end
