(* ===== verification/Attachments.thy ===== *)
theory Attachments
  imports Imsg ConfigStore
begin

text \<open>
  Attachment ids and uploads (\<open>internal/attachment/service.go\<close>): an id is the sealed descriptor
  of a file, so that a client can fetch exactly the files the daemon has shown it. SHA-256 and
  AES-256-GCM are parameters, as are the system's table of MIME types and the content sniffer.
  The file system is a map from paths to contents; every system call may fail.
\<close>

section \<open>Sealing\<close>

text \<open>\<open>Seal\<close> and \<open>Open\<close> of AES-GCM under a key, with a nonce of 12 bytes.\<close>

record aead =
  ae_hash :: "string \<Rightarrow> string"
  ae_seal :: "string \<Rightarrow> string \<Rightarrow> string \<Rightarrow> string"
  ae_open :: "string \<Rightarrow> string \<Rightarrow> string \<Rightarrow> string option"

record attachment_service =
  as_aead :: aead
  as_key :: string
  as_tmp_dir :: string

record attachment_file =
  af_id :: string
  af_path :: string
  af_filename :: string
  af_mime_type :: string
  af_size_bytes :: int64

record descriptor =
  ds_path :: string
  ds_filename :: string
  ds_mime_type :: string
  ds_size_bytes :: int64

definition new_attachment_service :: "aead \<Rightarrow> string \<Rightarrow> string \<Rightarrow> attachment_service" where
  "new_attachment_service ae secret tmp_dir = \<lparr>as_aead = ae, as_key = ae_hash ae secret, as_tmp_dir = tmp_dir\<rparr>"

abbreviation nonce_size :: nat where "nonce_size \<equiv> 12"

definition zero_descriptor :: descriptor where
  "zero_descriptor = \<lparr>ds_path = [], ds_filename = [], ds_mime_type = [], ds_size_bytes = 0\<rparr>"

definition descriptor_json :: "descriptor \<Rightarrow> json" where
  "descriptor_json d = JObj
     ([(''path'', JStr (ds_path d)), (''filename'', JStr (ds_filename d))] @
      omit_string ''mime_type'' (ds_mime_type d) @
      omit_empty (ds_size_bytes d = 0) ''size_bytes'' (int64_json (ds_size_bytes d)))"

definition descriptor_fields :: "descriptor field list" where
  "descriptor_fields =
     [(''path'', string_field ds_path_update), (''filename'', string_field ds_filename_update),
      (''mime_type'', string_field ds_mime_type_update), (''size_bytes'', int64_field ds_size_bytes_update)]"

definition encode_descriptor :: "attachment_service \<Rightarrow> descriptor \<Rightarrow> string res eff" where
  "encode_descriptor s desc e =
     (let body = json_text False (descriptor_json desc) in
      case rand_read nonce_size e of (nonce, e) \<Rightarrow>
        (Inr (''a_'' @ b64_encode (nonce @ ae_seal (as_aead s) (as_key s) nonce body)), e))"

text \<open>A service that is not configured is a nil pointer.\<close>

definition encode :: "attachment_service option \<Rightarrow> attachment \<Rightarrow> string res eff" where
  "encode os att e =
     (case os of None \<Rightarrow> (Inl ErrInvalidID, e)
      | Some s \<Rightarrow>
          if trim_space (at_path att) = [] then (Inl ErrInvalidID, e)
          else encode_descriptor s
            \<lparr>ds_path = trim_space (at_path att), ds_filename = trim_space (at_filename att),
             ds_mime_type = trim_space (at_mime_type att), ds_size_bytes = at_size_bytes att\<rparr> e)"

definition sanitize_filename :: "string \<Rightarrow> string" where
  "sanitize_filename name =
     (let name = base_name (trim_space name) in
      if name = ''.'' \<or> name = [slash] then [] else name)"

definition decode_descriptor :: "attachment_service option \<Rightarrow> string \<Rightarrow> descriptor res" where
  "decode_descriptor os aid =
     (case os of None \<Rightarrow> Inl ErrInvalidID
      | Some s \<Rightarrow>
          if \<not> prefix ''a_'' aid then Inl ErrInvalidID
          else (case b64_decode (drop 2 aid) of
             None \<Rightarrow> Inl ErrInvalidID
           | Some token \<Rightarrow>
               if length token \<le> nonce_size then Inl ErrInvalidID
               else (case ae_open (as_aead s) (as_key s) (take nonce_size token) (drop nonce_size token) of
                  None \<Rightarrow> Inl ErrInvalidID
                | Some raw \<Rightarrow>
                    (case Option.bind (parse_json raw)
                        (\<lambda>j. unmarshal_struct descriptor_fields j zero_descriptor) of
                       None \<Rightarrow> Inl ErrInvalidID
                     | Some desc \<Rightarrow>
                         let desc = desc\<lparr>ds_path := trim_space (ds_path desc),
                                         ds_filename := sanitize_filename (ds_filename desc)\<rparr> in
                         if ds_path desc = [] \<or> ds_filename desc = [] then Inl ErrInvalidID
                         else Inr desc))))"

section \<open>Decorating a history\<close>

fun decorate_attachments :: "attachment_service option \<Rightarrow> attachment list \<Rightarrow> attachment list eff" where
  "decorate_attachments s [] e = ([], e)"
| "decorate_attachments s (a # as) e =
     (if at_id a \<noteq> [] then (case decorate_attachments s as e of (as, e) \<Rightarrow> (a # as, e))
      else
        (case encode s a e of
           (Inl err, e) \<Rightarrow> (case decorate_attachments s as e of (as, e) \<Rightarrow> (a # as, e))
         | (Inr aid, e) \<Rightarrow>
             (case decorate_attachments s as e of (as, e) \<Rightarrow> (a\<lparr>at_id := aid\<rparr> # as, e))))"

fun decorate_messages :: "attachment_service option \<Rightarrow> message list \<Rightarrow> message list eff" where
  "decorate_messages s [] e = ([], e)"
| "decorate_messages s (m # ms) e =
     (case decorate_attachments s (ms_attachments m) e of (as, e) \<Rightarrow>
      case decorate_messages s ms e of (ms, e) \<Rightarrow> (m\<lparr>ms_attachments := as\<rparr> # ms, e))"

section \<open>Files\<close>

type_synonym files = "string \<rightharpoonup> string"

text \<open>An operation on the files and the world.\<close>

type_synonym 'a file_op = "files \<times> world \<Rightarrow> 'a res \<times> files \<times> world"

definition random_name :: "string eff" where
  "random_name e = (case rand_read 12 e of (raw, e) \<Rightarrow> (b64_encode raw, e))"

text \<open>\<open>os.Remove\<close>, whose error the callers ignore.\<close>

definition remove_file :: "string \<Rightarrow> files \<times> world \<Rightarrow> files \<times> world" where
  "remove_file path fw =
     (case syscall (snd fw) of
        (Some f, w) \<Rightarrow> (fst fw, w)
      | (None, w) \<Rightarrow> ((fst fw)(path := None), w))"

text \<open>An upload: the bytes that arrive, and whether reading ends in an error.\<close>

record upload =
  up_bytes :: string
  up_error :: "string option"

record mime_tables =
  mt_by_extension :: "string \<Rightarrow> string"
  mt_detect :: "string \<Rightarrow> string"

definition upload_mime_type :: "mime_tables \<Rightarrow> string \<Rightarrow> string \<Rightarrow> string \<Rightarrow> string" where
  "upload_mime_type mt mime_type filename sniff =
     (let mime_type = trim_space mime_type in
      if mime_type = [] then
        (if mt_by_extension mt (path_ext filename) \<noteq> [] then mt_by_extension mt (path_ext filename)
         else if length sniff > 0 then mt_detect mt sniff else mime_type)
      else mime_type)"

text \<open>
  Creating, filling and closing the file. \<open>io.Copy\<close> may fail in writing the file, which then
  holds some torn contents, or in reading the body.
\<close>

definition write_upload :: "string \<Rightarrow> upload \<Rightarrow> unit file_op" where
  "write_upload path body fw =
     (case fw of (fs, w) \<Rightarrow>
        (case syscall w of
           (Some f, w) \<Rightarrow> (Inl (ErrMsg (''create attachment temp file: '' @ fault_text f)), fs, w)
         | (None, w) \<Rightarrow>
             if fs path \<noteq> None then (Inl (ErrMsg ''create attachment temp file: file exists''), fs, w)
             else
               (case syscall w of
                  (Some f, w) \<Rightarrow>
                    (Inl (ErrMsg (''store attachment upload: '' @ fault_text f)),
                     remove_file path (fs(path \<mapsto> (case fault_torn f of None \<Rightarrow> [] | Some t \<Rightarrow> t)), w))
                | (None, w) \<Rightarrow>
                    (case up_error body of
                       Some err \<Rightarrow>
                         (Inl (ErrMsg (''store attachment upload: '' @ err)),
                          remove_file path (fs(path \<mapsto> up_bytes body), w))
                     | None \<Rightarrow>
                         (case syscall w of
                            (Some f, w) \<Rightarrow>
                              (Inl (ErrMsg (''close attachment upload: '' @ fault_text f)),
                               remove_file path (fs(path \<mapsto> up_bytes body), w))
                          | (None, w) \<Rightarrow> (Inr (), fs(path \<mapsto> up_bytes body), w))))))"

definition save_upload ::
  "mime_tables \<Rightarrow> attachment_service option \<Rightarrow> string \<Rightarrow> string \<Rightarrow> upload \<Rightarrow> attachment_file file_op" where
  "save_upload mt os filename mime_type body fw =
     (case os of None \<Rightarrow> (Inl (ErrMsg ''attachment service is not configured''), fw)
      | Some s \<Rightarrow>
        (let filename = sanitize_filename filename in
         if filename = [] then (Inl (ErrMsg ''attachment filename is required''), fw)
         else
           (case fw of (fs, w) \<Rightarrow>
            case syscall w of
              (Some f, w) \<Rightarrow> (Inl (ErrMsg (''create attachment temp dir: '' @ fault_text f)), fs, w)
            | (None, w) \<Rightarrow>
              (case with_eff random_name w of (name, w) \<Rightarrow>
                 let path = path_join [as_tmp_dir s, name @ path_ext filename] in
                 case write_upload path body (fs, w) of
                   (Inl err, fw) \<Rightarrow> (Inl err, fw)
                 | (Inr u, fw) \<Rightarrow>
                     (Inr \<lparr>af_id = [], af_path = path, af_filename = filename,
                           af_mime_type = upload_mime_type mt mime_type filename (take 512 (up_bytes body)),
                           af_size_bytes = word_of_int (int (length (up_bytes body)))\<rparr>, fw)))))"

text \<open>\<open>Open\<close>: the contents behind the handle, and what is known of the file.\<close>

definition open_attachment :: "attachment_service option \<Rightarrow> string \<Rightarrow> (string \<times> attachment_file) file_op" where
  "open_attachment os aid fw =
     (case decode_descriptor os aid of
        Inl err \<Rightarrow> (Inl err, fw)
      | Inr desc \<Rightarrow>
          (case fw of (fs, w) \<Rightarrow>
             (case syscall w of
                (Some f, w) \<Rightarrow> (Inl (ErrMsg (''open attachment: '' @ fault_text f)), fs, w)
              | (None, w) \<Rightarrow>
                  (case fs (ds_path desc) of
                     None \<Rightarrow> (Inl ErrNotFound, fs, w)
                   | Some content \<Rightarrow>
                       (case syscall w of
                          (Some f, w) \<Rightarrow> (Inl (ErrMsg (''stat attachment: '' @ fault_text f)), fs, w)
                        | (None, w) \<Rightarrow>
                            (Inr (content, \<lparr>af_id = aid, af_path = ds_path desc, af_filename = ds_filename desc,
                               af_mime_type = ds_mime_type desc,
                               af_size_bytes = (if ds_size_bytes desc = 0
                                 then word_of_int (int (length content)) else ds_size_bytes desc)\<rparr>), fs, w))))))"

section \<open>Facts\<close>

text \<open>
  What AES-GCM promises: a sealed text opens under the same key and nonce, and, the tag being
  a function of key, nonce and text, what opens is the seal of what it opens to.
\<close>

definition sound_aead :: "aead \<Rightarrow> bool" where
  "sound_aead ae \<longleftrightarrow> (\<forall>k n c b. ae_open ae k n c = Some b \<longleftrightarrow> c = ae_seal ae k n b) \<and>
     (\<forall>k n b. ae_seal ae k n b \<noteq> [])"

lemma unmarshal_descriptor: "unmarshal_struct descriptor_fields (descriptor_json d) zero_descriptor = Some d"
  by (cases d) (simp add: descriptor_json_def descriptor_fields_def find_field_def unmarshal_simps zero_descriptor_def)

lemma writable_descriptor [simp]: "writable (descriptor_json d)"
  by (simp add: descriptor_json_def)

lemma parse_descriptor:
  "Option.bind (parse_json (json_text False (descriptor_json d)))
     (\<lambda>j. unmarshal_struct descriptor_fields j zero_descriptor) = Some d"
  using parse_json_text [of "descriptor_json d" "[]" False] by (simp add: unmarshal_descriptor)

lemma encode_cases:
  "encode os att e = (r, e') \<Longrightarrow>
     (case r of Inl err \<Rightarrow> err = ErrInvalidID \<and> (os = None \<or> trim_space (at_path att) = []) \<and> e' = e
      | Inr aid \<Rightarrow> \<exists>s nonce. os = Some s \<and> trim_space (at_path att) \<noteq> [] \<and> length nonce = nonce_size \<and>
          aid = ''a_'' @ b64_encode (nonce @ ae_seal (as_aead s) (as_key s) nonce (json_text False (descriptor_json
            \<lparr>ds_path = trim_space (at_path att), ds_filename = trim_space (at_filename att),
             ds_mime_type = trim_space (at_mime_type att), ds_size_bytes = at_size_bytes att\<rparr>))))"
  by (auto simp: encode_def encode_descriptor_def rand_read_def
      intro!: exI [of _ "map (entropy e) [0..<nonce_size]"] split: option.splits if_splits)

lemma decode_sealed:
  assumes "sound_aead (as_aead s)" and "length nonce = nonce_size"
    and "ds_path d = trim_space (ds_path d)" and "ds_path d \<noteq> []" and "sanitize_filename (ds_filename d) \<noteq> []"
  shows "decode_descriptor (Some s) (''a_'' @ b64_encode (nonce @ ae_seal (as_aead s) (as_key s) nonce
      (json_text False (descriptor_json d)))) = Inr (d\<lparr>ds_filename := sanitize_filename (ds_filename d)\<rparr>)"
proof -
  have "ae_open (as_aead s) (as_key s) nonce (ae_seal (as_aead s) (as_key s) nonce b) = Some b"
    "ae_seal (as_aead s) (as_key s) nonce b \<noteq> []" for b
    using assms(1) by (simp_all add: sound_aead_def)
  then show ?thesis
    using assms(2-) by (simp add: decode_descriptor_def parse_descriptor Let_def)
qed

lemma decode_descriptor_sealed:
  assumes "decode_descriptor os aid = Inr desc" and "os = Some s" and "sound_aead (as_aead s)"
  shows "\<exists>nonce raw d. b64_decode (drop 2 aid) = Some (nonce @ ae_seal (as_aead s) (as_key s) nonce raw) \<and>
    length nonce = nonce_size \<and>
    Option.bind (parse_json raw) (\<lambda>j. unmarshal_struct descriptor_fields j zero_descriptor) = Some d \<and>
    ds_path desc = trim_space (ds_path d) \<and> ds_path desc \<noteq> []"
proof -
  obtain token raw d where t: "b64_decode (drop 2 aid) = Some token" "nonce_size < length token"
    "ae_open (as_aead s) (as_key s) (take nonce_size token) (drop nonce_size token) = Some raw"
    "Option.bind (parse_json raw) (\<lambda>j. unmarshal_struct descriptor_fields j zero_descriptor) = Some d"
    "ds_path desc = trim_space (ds_path d)" "ds_path desc \<noteq> []"
    using assms(1,2)
    by (auto simp: decode_descriptor_def Let_def split: if_splits option.splits)
  define nonce where "nonce = take nonce_size token"
  have "drop nonce_size token = ae_seal (as_aead s) (as_key s) nonce raw"
    using t(3) assms(3) by (simp add: sound_aead_def nonce_def)
  then have "token = nonce @ ae_seal (as_aead s) (as_key s) nonce raw"
    by (metis append_take_drop_id nonce_def)
  moreover have "length nonce = nonce_size" using t(2) by (simp add: nonce_def)
  ultimately show ?thesis using t(1,4-6) by blast
qed

lemma trim_base_plain: "sanitize_filename (trim_space name) = sanitize_filename name"
  by (simp add: sanitize_filename_def)

lemma syscall_snd: "syscall w = (f, w') \<Longrightarrow> w_eff w' = w_eff w \<and> w_disk w' = w_disk w"
  by (auto simp: syscall_def)

text \<open>The descriptor an attachment is encoded as, as a decoder sees it.\<close>

definition descriptor_of :: "attachment \<Rightarrow> descriptor" where
  "descriptor_of a = \<lparr>ds_path = trim_space (at_path a), ds_filename = sanitize_filename (at_filename a),
     ds_mime_type = trim_space (at_mime_type a), ds_size_bytes = at_size_bytes a\<rparr>"

lemma decode_encode:
  assumes "encode (Some s) a e = (Inr aid, e')" and "sound_aead (as_aead s)"
    and "sanitize_filename (at_filename a) \<noteq> []"
  shows "decode_descriptor (Some s) aid = Inr (descriptor_of a)"
proof -
  let ?d = "\<lparr>ds_path = trim_space (at_path a), ds_filename = trim_space (at_filename a),
      ds_mime_type = trim_space (at_mime_type a), ds_size_bytes = at_size_bytes a\<rparr>"
  obtain nonce where n: "trim_space (at_path a) \<noteq> []" "length nonce = nonce_size"
    "aid = ''a_'' @ b64_encode (nonce @ ae_seal (as_aead s) (as_key s) nonce (json_text False (descriptor_json ?d)))"
    using encode_cases [OF assms(1)] by auto
  show ?thesis
    using decode_sealed [OF assms(2) n(2), of ?d] n(1) assms(3)
    by (simp add: n(3) descriptor_of_def trim_base_plain)
qed

text \<open>What decorating does to an attachment: at most its id changes.\<close>

definition decorated :: "attachment_service \<Rightarrow> attachment \<Rightarrow> attachment \<Rightarrow> bool" where
  "decorated s a a' \<longleftrightarrow> a' = a\<lparr>at_id := at_id a'\<rparr> \<and>
     (at_id a \<noteq> [] \<or> trim_space (at_path a) = [] \<longrightarrow> at_id a' = at_id a) \<and>
     (at_id a = [] \<and> trim_space (at_path a) \<noteq> [] \<and> sanitize_filename (at_filename a) \<noteq> [] \<longrightarrow>
        decode_descriptor (Some s) (at_id a') = Inr (descriptor_of a))"

lemma decorate_attachments_spec:
  "decorate_attachments (Some s) as e = (as', e') \<Longrightarrow> sound_aead (as_aead s) \<Longrightarrow> list_all2 (decorated s) as as'"
proof (induction as arbitrary: e as' e')
  case (Cons a as)
  show ?case
  proof (cases "at_id a = []")
    case False
    then show ?thesis using Cons by (auto simp: decorated_def split: prod.splits)
  next
    case True
    obtain r e1 where en: "encode (Some s) a e = (r, e1)" by fastforce
    show ?thesis
    proof (cases r)
      case (Inl err)
      then show ?thesis using Cons True en encode_cases [OF en] by (auto simp: decorated_def split: prod.splits)
    next
      case (Inr aid)
      then show ?thesis
        using Cons True en encode_cases [OF en] decode_encode [OF en [unfolded Inr] Cons.prems(2)]
        by (auto simp: decorated_def split: prod.splits)
    qed
  qed
qed simp

lemma decorate_messages_spec:
  "decorate_messages (Some s) ms e = (ms', e') \<Longrightarrow> sound_aead (as_aead s) \<Longrightarrow>
     list_all2 (\<lambda>m m'. m' = m\<lparr>ms_attachments := ms_attachments m'\<rparr> \<and>
       list_all2 (decorated s) (ms_attachments m) (ms_attachments m')) ms ms'"
  by (induction ms arbitrary: e ms' e') (auto split: prod.splits dest: decorate_attachments_spec)

lemma open_attachment_healthy:
  assumes "decode_descriptor os aid = Inr d" and "no_faults w" and "fs (ds_path d) = Some content"
  shows "\<exists>w'. open_attachment os aid (fs, w) = (Inr (content, \<lparr>af_id = aid, af_path = ds_path d,
      af_filename = ds_filename d, af_mime_type = ds_mime_type d,
      af_size_bytes = (if ds_size_bytes d = 0 then word_of_int (int (length content)) else ds_size_bytes d)\<rparr>), fs, w')"
  using assms by (simp add: open_attachment_def syscall_def no_faults_def)

lemma b64_no_slash: "slash \<notin> set (b64_encode s)"
proof -
  have "\<not> b64_alphabet slash" by (simp add: b64_alphabet_def b64_val_def slash_def)
  then show ?thesis using b64_encode_alphabet [of s] by (auto simp: list_all_iff)
qed

lemma path_ext_no_slash: "slash \<notin> set (path_ext p)"
proof -
  define r where "r = rev (takeWhile (\<lambda>c. c \<noteq> slash) (rev p))"
  have "slash \<notin> set r" by (auto simp: r_def dest: set_takeWhileD)
  then have "slash \<notin> set (rev (takeWhile P (rev r)))" for P by (auto dest: set_takeWhileD)
  then show ?thesis
    unfolding path_ext_def Let_def r_def [symmetric] by (simp add: slash_def split: if_split)
qed

lemma syscall_healthy: "no_faults w \<Longrightarrow> syscall w = (f, w') \<Longrightarrow> f = None \<and> no_faults w'"
  by (auto simp: syscall_def no_faults_def)

lemma remove_file_healthy: "no_faults w \<Longrightarrow> fst (remove_file path (fs, w)) = fs(path := None)"
  by (auto simp: remove_file_def syscall_def no_faults_def)

lemma remove_file_frame: "\<exists>c. fst (remove_file path (fs, w)) = fs(path := c)"
  by (cases "fst (syscall w)") (auto simp: remove_file_def intro: exI [of _ "fs path"] exI [of _ None] split: prod.split)

lemma write_upload_cases:
  assumes "write_upload path body (fs, w) = (r, fs', w')"
  shows "if r = Inr () then fs path = None \<and> fs' = fs(path \<mapsto> up_bytes body) \<and> up_error body = None
    else fs' = fs \<or> fs path = None \<and> (\<exists>c. fs' = fs(path := c)) \<and> (no_faults w \<longrightarrow> fs' = fs)"
proof -
  obtain f1 w1 where s1: "syscall w = (f1, w1)" by fastforce
  obtain f2 w2 where s2: "syscall w1 = (f2, w2)" by fastforce
  obtain f3 w3 where s3: "syscall w2 = (f3, w3)" by fastforce
  have ok: "no_faults w \<Longrightarrow> f1 = None \<and> f2 = None \<and> f3 = None \<and> no_faults w2"
    using syscall_healthy s1 s2 s3 by blast
  have clean: "fs' = fst (remove_file path (fs(path \<mapsto> c), w0)) \<Longrightarrow> fs path = None \<Longrightarrow>
      (\<exists>c. fs' = fs(path := c)) \<and> (no_faults w0 \<longrightarrow> fs' = fs)" for c w0
    using remove_file_frame [of path "fs(path \<mapsto> c)" w0] remove_file_healthy [of w0 path "fs(path \<mapsto> c)"]
    by (auto simp: fun_upd_idem)
  show ?thesis
  proof (cases "f1 \<noteq> None \<or> fs path \<noteq> None")
    case True
    then show ?thesis using assms s1 by (cases f1) (auto simp: write_upload_def split: if_splits)
  next
    case False
    then have new: "f1 = None" "fs path = None" by auto
    show ?thesis
    proof (cases "f2 = None \<and> up_error body = None \<and> f3 = None")
      case True
      then show ?thesis using assms s1 s2 s3 new by (simp add: write_upload_def)
    next
      case False
      have "r \<noteq> Inr () \<and> (\<exists>c w0. fs' = fst (remove_file path (fs(path \<mapsto> c), w0)) \<and> (no_faults w \<longrightarrow> no_faults w0))"
      proof (cases f2)
        case (Some f)
        have e: "(fs', w') = remove_file path (fs(path \<mapsto> (case fault_torn f of None \<Rightarrow> [] | Some t \<Rightarrow> t)), w2)" "r \<noteq> Inr ()"
          using assms s1 s2 new Some by (auto simp: write_upload_def)
        then show ?thesis using ok by (metis fst_conv)
      next
        case None
        show ?thesis
        proof (cases "up_error body")
          case (Some err)
          have e: "(fs', w') = remove_file path (fs(path \<mapsto> up_bytes body), w2)" "r \<noteq> Inr ()"
            using assms s1 s2 new None Some by (auto simp: write_upload_def)
          then show ?thesis using ok by (metis fst_conv)
        next
          case no_error: None
          then obtain f where f: "f3 = Some f" using False None by auto
          have e: "(fs', w') = remove_file path (fs(path \<mapsto> up_bytes body), w3)" "r \<noteq> Inr ()"
            using assms s1 s2 s3 new None no_error f by (auto simp: write_upload_def)
          then show ?thesis using ok f by (metis fst_conv option.distinct(1))
        qed
      qed
      then show ?thesis using clean new(2) by auto
    qed
  qed
qed

lemma save_upload_cases:
  assumes "save_upload mt os filename mime_type body (fs, w) = (r, fs', w')"
  shows "fs' = fs \<and> (\<exists>err. r = Inl err) \<or>
    (\<exists>s name. os = Some s \<and> name \<noteq> [] \<and> slash \<notin> set name \<and>
      fs (path_join [as_tmp_dir s, name]) = None \<and>
      (case r of
         Inl err \<Rightarrow> (\<exists>c. fs' = fs(path_join [as_tmp_dir s, name] := c)) \<and> (no_faults w \<longrightarrow> fs' = fs)
       | Inr file \<Rightarrow>
           fs' = fs(path_join [as_tmp_dir s, name] \<mapsto> up_bytes body) \<and> up_error body = None \<and>
           af_path file = path_join [as_tmp_dir s, name] \<and> af_filename file = sanitize_filename filename \<and>
           af_filename file \<noteq> [] \<and> af_size_bytes file = word_of_int (int (length (up_bytes body)))))"
proof (cases "os = None \<or> sanitize_filename filename = []")
  case True
  then show ?thesis using assms by (auto simp: save_upload_def Let_def split: option.splits)
next
  case False
  then obtain s where s: "os = Some s" "sanitize_filename filename \<noteq> []" by auto
  obtain f1 w1 where s1: "syscall w = (f1, w1)" by fastforce
  show ?thesis
  proof (cases f1)
    case (Some f)
    then show ?thesis using assms s s1 by (auto simp: save_upload_def Let_def)
  next
    case None
    obtain raw w2 where rn: "with_eff random_name w1 = (raw, w2)" by fastforce
    define name where "name = raw @ path_ext (sanitize_filename filename)"
    obtain r1 fs1 w3 where wr: "write_upload (path_join [as_tmp_dir s, name]) body (fs, w2) = (r1, fs1, w3)"
      by (metis surj_pair)
    have raw: "slash \<notin> set raw" "raw \<noteq> []"
      using rn b64_no_slash by (auto simp: with_eff_def random_name_def rand_read_def)
    then have name: "name \<noteq> []" "slash \<notin> set name" by (simp_all add: name_def path_ext_no_slash)
    have nf: "no_faults w \<Longrightarrow> no_faults w2"
      using syscall_healthy [OF _ s1] rn by (auto simp: with_eff_def no_faults_def split: prod.splits)
    have fs': "fs' = fs1" and r: "(\<exists>u. r1 = Inr u \<and> (\<exists>file. r = Inr file \<and> af_path file = path_join [as_tmp_dir s, name] \<and>
        af_filename file = sanitize_filename filename \<and>
        af_size_bytes file = word_of_int (int (length (up_bytes body))))) \<or> (\<exists>err. r1 = Inl err \<and> r = Inl err)"
      using assms s s1 None rn wr
      by (auto simp: save_upload_def Let_def name_def [symmetric] split: sum.splits)
    from r show ?thesis
    proof
      assume "\<exists>err. r1 = Inl err \<and> r = Inl err"
      moreover from this have "fs1 = fs \<or> fs (path_join [as_tmp_dir s, name]) = None \<and>
          (\<exists>c. fs1 = fs(path_join [as_tmp_dir s, name] := c)) \<and> (no_faults w \<longrightarrow> fs1 = fs)"
        using write_upload_cases [OF wr] nf by (auto split: if_splits)
      ultimately show ?thesis using s(1) name unfolding fs' by fastforce
    next
      assume "\<exists>u. r1 = Inr u \<and> (\<exists>file. r = Inr file \<and> af_path file = path_join [as_tmp_dir s, name] \<and>
        af_filename file = sanitize_filename filename \<and>
        af_size_bytes file = word_of_int (int (length (up_bytes body))))"
      then show ?thesis using write_upload_cases [OF wr] s name unfolding fs' by auto
    qed
  qed
qed

section \<open>An instance\<close>

text \<open>A scheme that keeps the laws: the text behind its key and nonce.\<close>

definition plain_aead :: aead where
  "plain_aead = \<lparr>ae_hash = (\<lambda>s. s), ae_seal = (\<lambda>k n b. CHR ''x'' # k @ n @ b),
     ae_open = (\<lambda>k n c. if prefix (CHR ''x'' # k @ n) c then Some (drop (length (CHR ''x'' # k @ n)) c) else None)\<rparr>"

lemma sound_plain_aead [simp]: "sound_aead plain_aead"
  by (auto simp: sound_aead_def plain_aead_def prefix_def)

definition cat_service :: attachment_service where
  "cat_service = new_attachment_service plain_aead ''key'' ''/data/tmp''"

definition cat :: attachment where
  "cat = \<lparr>at_id = [], at_filename = ''cat.png'', at_mime_type = [], at_size_bytes = 3, at_path = ''/pics/cat.png''\<rparr>"

definition cat_files :: files where
  "cat_files = [''/pics/cat.png'' \<mapsto> ''abc'']"

definition at_zero :: effects where
  "at_zero = \<lparr>clock = (\<lambda>i. 0), entropy = (\<lambda>i. CHR ''A'')\<rparr>"

definition calm_world :: world where
  "calm_world = \<lparr>w_eff = at_zero, w_faults = (\<lambda>i. None), w_disk = \<lparr>config_file = None, config_tmp = None\<rparr>\<rparr>"

lemma cat_simps [simp]:
  "trim_space (at_path cat) = ''/pics/cat.png''" "sanitize_filename (at_filename cat) = ''cat.png''"
  "no_faults calm_world" "sound_aead (as_aead cat_service)" "at_id cat = []"
  by (simp_all add: cat_def sanitize_filename_def trim_space_graphic graphic_def base_name_plain slash_def
      no_faults_def calm_world_def cat_service_def new_attachment_service_def)

lemma cat_encodes: "\<exists>aid e'. encode (Some cat_service) cat e = (Inr aid, e')"
  by (simp add: encode_def encode_descriptor_def rand_read_def)

section \<open>Properties\<close>

text \<open>
  C32. The ids a history is decorated with open the files it shows: when nothing in the file
  system fails, the id that was put on an attachment yields the contents of the file at its
  path, with its name, type and size.
\<close>

theorem attachment_id_opens:
  assumes "encode (Some s) a e = (Inr aid, e')" and "sound_aead (as_aead s)"
    and "sanitize_filename (at_filename a) \<noteq> []"
    and "no_faults w" and "fs (trim_space (at_path a)) = Some content"
  shows "\<exists>file w'. open_attachment (Some s) aid (fs, w) = (Inr (content, file), fs, w') \<and>
    af_filename file = sanitize_filename (at_filename a) \<and> af_mime_type file = trim_space (at_mime_type a) \<and>
    (at_size_bytes a \<noteq> 0 \<longrightarrow> af_size_bytes file = at_size_bytes a)"
  using open_attachment_healthy [OF decode_encode [OF assms(1-3)] assms(4), of fs content] assms(5)
  by (auto simp: descriptor_of_def)

theorem attachment_id_opens_witness:
  "\<exists>aid e' file w'. encode (Some cat_service) cat at_zero = (Inr aid, e') \<and>
     open_attachment (Some cat_service) aid (cat_files, calm_world) = (Inr (''abc'', file), cat_files, w') \<and>
     af_filename file = ''cat.png''"
proof -
  obtain aid e' where e: "encode (Some cat_service) cat at_zero = (Inr aid, e')" using cat_encodes by blast
  from attachment_id_opens [OF e, of calm_world cat_files "''abc''"] show ?thesis
    using e by (auto simp: cat_files_def)
qed





text \<open>
  Decorating a history changes nothing but ids: an attachment that has an id or no path
  keeps what it has, and every other one with a usable name gets an id that decodes to its own
  path, name, type and size.
\<close>

theorem decorate_only_ids:
  assumes "decorate_messages (Some s) ms e = (ms', e')" and "sound_aead (as_aead s)"
  shows "list_all2 (\<lambda>m m'. m' = m\<lparr>ms_attachments := ms_attachments m'\<rparr> \<and>
    list_all2 (decorated s) (ms_attachments m) (ms_attachments m')) ms ms'"
  using decorate_messages_spec [OF assms] .

theorem decorate_only_ids_witness:
  "\<exists>m' a'. fst (decorate_messages (Some cat_service) [zero_message\<lparr>ms_attachments := [cat]\<rparr>] at_zero) = [m'] \<and>
     ms_attachments m' = [a'] \<and> decode_descriptor (Some cat_service) (at_id a') = Inr (descriptor_of cat)"
proof -
  obtain ms' e' where d: "decorate_messages (Some cat_service) [zero_message\<lparr>ms_attachments := [cat]\<rparr>] at_zero = (ms', e')"
    by fastforce
  from decorate_only_ids [OF d] show ?thesis
    unfolding d by (auto simp: list_all2_Cons1 decorated_def)
qed

end
