(* ===== verification/GoNet.thy ===== *)
theory GoNet
  imports Addresses GoPath GoTime
begin

text \<open>
  Host and port texts as \<open>net.SplitHostPort\<close> and \<open>net.JoinHostPort\<close> treat them, dotted IPv4
  texts, and \<open>time.Parse\<close> with the layout of RFC 3339, which is more lenient than the reading
  of a JSON time: an hour of one digit, a comma before the fraction, and offsets of up to 24 hours
  and 60 minutes pass.
\<close>

section \<open>Host and port\<close>

text \<open>Before and after the last occurrence.\<close>

definition cut_last :: "char \<Rightarrow> string \<Rightarrow> (string \<times> string) option" where
  "cut_last sep s = map_option (\<lambda>(a, b). (rev b, rev a)) (cut_at sep (rev s))"

abbreviation colon_char :: char where "colon_char \<equiv> CHR '':''"
abbreviation open_bracket :: char where "open_bracket \<equiv> CHR ''[''"
abbreviation close_bracket :: char where "close_bracket \<equiv> CHR '']''"

definition split_host_port :: "string \<Rightarrow> (string \<times> string) option" where
  "split_host_port hp =
     (case cut_last colon_char hp of
        None \<Rightarrow> None
      | Some (before, port) \<Rightarrow>
          if prefix [open_bracket] hp then
            (case cut_at close_bracket hp of
               None \<Rightarrow> None
             | Some (inner, rest) \<Rightarrow>
                 if rest = [] \<or> before \<noteq> inner @ [close_bracket] then None
                 else if open_bracket \<in> set (tl hp) \<or> close_bracket \<in> set rest then None
                 else Some (tl inner, port))
          else if colon_char \<in> set before then None
          else if open_bracket \<in> set hp \<or> close_bracket \<in> set hp then None
          else Some (before, port))"

definition join_host_port :: "string \<Rightarrow> string \<Rightarrow> string" where
  "join_host_port host port =
     (if colon_char \<in> set host then open_bracket # host @ close_bracket # colon_char # port
      else host @ colon_char # port)"

lemma cut_last_append: "sep \<notin> set b \<Longrightarrow> cut_last sep (a @ sep # b) = Some (a, b)"
  by (simp add: cut_last_def cut_at_append)

lemma split_join_host_port:
  assumes "colon_char \<notin> set port" "open_bracket \<notin> set port" "close_bracket \<notin> set port"
    and "open_bracket \<notin> set host" "close_bracket \<notin> set host"
  shows "split_host_port (join_host_port host port) = Some (host, port)"
proof (cases "colon_char \<in> set host")
  case True
  have "cut_last colon_char (open_bracket # host @ close_bracket # colon_char # port) =
      Some (open_bracket # host @ [close_bracket], port)"
    using cut_last_append [OF assms(1), of "open_bracket # host @ [close_bracket]"] by simp
  moreover have "cut_at close_bracket (open_bracket # host @ close_bracket # colon_char # port) =
      Some (open_bracket # host, colon_char # port)"
    using cut_at_append [of close_bracket "open_bracket # host"] assms(5) by simp
  ultimately show ?thesis
    using True assms by (simp add: split_host_port_def join_host_port_def)
next
  case False
  then have "\<not> prefix [open_bracket] (host @ colon_char # port)"
    using assms(4) by (cases host) auto
  then show ?thesis
    using False assms cut_last_append [OF assms(1), of host]
    by (simp add: split_host_port_def join_host_port_def)
qed

definition v4_text :: "32 word \<Rightarrow> string" where
  "v4_text w = join_with ''.'' (map (\<lambda>i. nat_text (octet w i)) [0, 1, 2, 3])"

section \<open>Lenient times\<close>

definition hour_field :: "string \<Rightarrow> (nat \<times> string) option" where
  "hour_field s =
     (case s of
        [] \<Rightarrow> None
      | c # r \<Rightarrow>
          if \<not> is_digit c then None
          else
            (case r of
               [] \<Rightarrow> Some (digit_val c, [])
             | d # r' \<Rightarrow> if is_digit d then Some (digits_val [c, d], r') else Some (digit_val c, r)))"

definition parse_frac_lenient :: "string \<Rightarrow> nat \<times> string" where
  "parse_frac_lenient s =
     (case s of [] \<Rightarrow> (0, []) | c # r \<Rightarrow> parse_frac (if c = CHR '','' then CHR ''.'' # r else s))"

definition parse_zone_lenient :: "string \<Rightarrow> int option" where
  "parse_zone_lenient s =
     (if s = ''Z'' then Some 0
      else do {
        (sgn, r) \<leftarrow> (case s of [] \<Rightarrow> None
           | c # r \<Rightarrow> if c = CHR ''+'' then Some (1::int, r)
                      else if c = CHR ''-'' then Some (-1, r) else None);
        (h, r) \<leftarrow> num_field 2 r;
        r \<leftarrow> expect (CHR '':'') r;
        (mi, r) \<leftarrow> num_field 2 r;
        (if h \<le> 24 \<and> mi \<le> 60 \<and> r = [] then Some (sgn * (int h * 3600 + int mi * 60)) else None)
      })"

definition parse_time :: "string \<Rightarrow> zoned option" where
  "parse_time s = do {
     (y, s) \<leftarrow> num_field 4 s;
     s \<leftarrow> expect (CHR ''-'') s;
     (m, s) \<leftarrow> num_field 2 s;
     s \<leftarrow> expect (CHR ''-'') s;
     (d, s) \<leftarrow> num_field 2 s;
     s \<leftarrow> expect (CHR ''T'') s;
     (h, s) \<leftarrow> hour_field s;
     s \<leftarrow> expect (CHR '':'') s;
     (mi, s) \<leftarrow> num_field 2 s;
     s \<leftarrow> expect (CHR '':'') s;
     (se, s) \<leftarrow> num_field 2 s;
     let (ns, s) = parse_frac_lenient s;
     off \<leftarrow> parse_zone_lenient s;
     (if 1 \<le> m \<and> m \<le> 12 \<and> 1 \<le> d \<and> d \<le> month_lens y ! (m - 1) \<and> h < 24 \<and> mi < 60 \<and> se < 60
      then Some ((int (day_of_civil y m d) - epoch_day) * day_ns +
             (int (h * 3600 + mi * 60 + se) - off) * second + int ns, off)
      else None)
   }"

end
