(* ===== verification/Api.thy ===== *)
theory Api
  imports PairingProps RateLimit HistoryCache Attachments Webhooks GoNet
begin

text \<open>
  The HTTP server's frame (\<open>internal/api\<close>: \<open>router.go\<close>, \<open>ratelimit.go\<close>, \<open>auth.go\<close>,
  \<open>cors.go\<close>): requests and responses, JSON and error replies, bearer tokens, the gates in
  front of the handlers, and the interface of the authenticator. A handler gets the values the gate
  puts into the request's context.
\<close>

section \<open>Requests and responses\<close>

text \<open>A multipart form: its values, and the file part with its name and content type.\<close>

record form =
  fo_values :: "string \<Rightarrow> string"
  fo_file :: "(string \<times> string \<times> upload) option"

text \<open>
  A request whose path is clean (others \<open>ServeMux\<close> redirects before any handler): the unescaped
  segments of the path, the first value of a query parameter or header (empty if there is
  none), the peer's address, the body, and its reading as a form.
\<close>

record request =
  rq_method :: string
  rq_segments :: "string list"
  rq_query :: "string \<Rightarrow> string"
  rq_header :: "string \<Rightarrow> string"
  rq_remote_addr :: string
  rq_body :: string
  rq_form :: "form option"

record response =
  rs_status :: int
  rs_headers :: "(string \<times> string) list"
  rs_body :: string

definition url_path :: "request \<Rightarrow> string" where
  "url_path r = concat (map (\<lambda>s. slash # s) (rq_segments r))"

text \<open>\<open>writeJSON\<close> after the headers a handler has set: the encoder ends with a newline.\<close>

definition write_json :: "(string \<times> string) list \<Rightarrow> int \<Rightarrow> json \<Rightarrow> response" where
  "write_json headers status j =
     \<lparr>rs_status = status, rs_headers = headers @ [(''Content-Type'', ''application/json'')],
      rs_body = json_text False j @ [CHR 0x0A]\<rparr>"

definition error_json :: "string \<Rightarrow> string \<Rightarrow> json" where
  "error_json code message = JObj [(''error'', JObj [(''code'', JStr code), (''message'', JStr message)])]"

definition write_error :: "int \<Rightarrow> string \<Rightarrow> string \<Rightarrow> response" where
  "write_error status code message = write_json [] status (error_json code message)"

text \<open>\<open>err.Error()\<close>.\<close>

definition error_text :: "go_error \<Rightarrow> string" where
  "error_text err =
     (case err of
        ErrUnauthorized \<Rightarrow> ''unauthorized''
      | ErrInvalidCode \<Rightarrow> ''invalid code''
      | ErrSessionExpired \<Rightarrow> ''session expired''
      | ErrForbidden \<Rightarrow> ''forbidden''
      | ErrInvalidID \<Rightarrow> ''attachment id is invalid''
      | ErrNotFound \<Rightarrow> ''attachment file was not found''
      | ErrUnavailable m \<Rightarrow> ''imsg is unavailable: '' @ m
      | ErrMsg m \<Rightarrow> m)"

definition status_for_err :: "go_error \<Rightarrow> int" where
  "status_for_err err = (case err of ErrUnavailable m \<Rightarrow> 503 | _ \<Rightarrow> 500)"

section \<open>The server\<close>

record api_config =
  ap_server_name :: string
  ap_tailscale_ip :: string
  ap_version :: string
  ap_started_at :: go_time

text \<open>What of the server does not change; a component that is not configured is \<open>None\<close>.\<close>

record server =
  sr_cfg :: api_config
  sr_pairing :: "auth_service option"
  sr_runner :: runner
  sr_webhooks :: bool
  sr_attachments :: "attachment_service option"

text \<open>The state the handlers share.\<close>

record api_state =
  st_world :: world
  st_files :: files
  st_history :: message_history_cache
  st_limiter :: rate_limiter

text \<open>How the outside answers during one call.\<close>

record call_env =
  ce_exec :: exec
  ce_validator :: validator
  ce_mime :: mime_tables

type_synonym auth_context = "(auth_client \<times> token_claims) option"

type_synonym handler = "auth_context \<Rightarrow> request \<Rightarrow> api_state \<Rightarrow> response \<times> api_state"

definition on_world :: "'a op \<Rightarrow> api_state \<Rightarrow> 'a res \<times> api_state" where
  "on_world m st = (case m (st_world st) of (r, w) \<Rightarrow> (r, st\<lparr>st_world := w\<rparr>))"

definition on_eff :: "'a eff \<Rightarrow> api_state \<Rightarrow> 'a \<times> api_state" where
  "on_eff m st = (case with_eff m (st_world st) of (r, w) \<Rightarrow> (r, st\<lparr>st_world := w\<rparr>))"

definition on_files :: "'a file_op \<Rightarrow> api_state \<Rightarrow> 'a res \<times> api_state" where
  "on_files m st =
     (case m (st_files st, st_world st) of (r, fs, w) \<Rightarrow> (r, st\<lparr>st_files := fs, st_world := w\<rparr>))"

text \<open>One call of the limiter, with its reading of the clock.\<close>

definition limit_call :: "string \<Rightarrow> int \<Rightarrow> int \<Rightarrow> api_state \<Rightarrow> (bool \<times> int) \<times> api_state" where
  "limit_call key limit per st =
     (case on_eff (allow key limit per (st_limiter st)) st of
        ((answer, l), st) \<Rightarrow> (answer, st\<lparr>st_limiter := l\<rparr>))"

section \<open>Gates\<close>

text \<open>\<open>int(math.Ceil(retry.Seconds()))\<close>.\<close>

definition write_rate_limited :: "int \<Rightarrow> response" where
  "write_rate_limited retry =
     (let r = write_error 429 ''rate_limited'' ''rate limit exceeded'' in
      if retry > 0
      then r\<lparr>rs_headers := (''Retry-After'', int_text \<lceil>seconds_of retry\<rceil>) # rs_headers r\<rparr>
      else r)"

definition client_ip :: "request \<Rightarrow> string" where
  "client_ip r =
     (case split_host_port (trim_space (rq_remote_addr r)) of
        Some (host, port) \<Rightarrow> if host \<noteq> [] then host else trim_space (rq_remote_addr r)
      | None \<Rightarrow> trim_space (rq_remote_addr r))"

definition bearer_token :: "request \<Rightarrow> string" where
  "bearer_token r =
     (let header = trim_space (rq_header r ''Authorization'') in
      if header = [] then []
      else
        (case cut_at (CHR '' '') header of
           None \<Rightarrow> []
         | Some (scheme, token) \<Rightarrow> if equal_fold scheme ''Bearer'' then trim_space token else []))"

definition limit_for_action :: "string \<Rightarrow> int \<times> int" where
  "limit_for_action action =
     (if action = ''send'' then (20, minute)
      else if action = ''attach'' then (10, minute)
      else (120, minute))"

definition limit_by_ip :: "string \<Rightarrow> int \<Rightarrow> int \<Rightarrow> handler \<Rightarrow> handler" where
  "limit_by_ip name limit per next ctx r st =
     (let key = ''ip:'' @ name @ '':'' @ client_ip r in
      case limit_call key limit per st of
        ((ok, retry), st) \<Rightarrow> if \<not> ok then (write_rate_limited retry, st) else next ctx r st)"

text \<open>
  The interface \<open>Authenticator\<close> is the first two arguments: \<open>Authenticate\<close> and \<open>HasScope\<close>.
\<close>

definition request_token :: "request \<Rightarrow> string" where
  "request_token r =
     (let token = bearer_token r in
      if token = [] \<and> url_path r = ''/v1/events'' then trim_space (rq_query r ''token'') else token)"

definition require_auth ::
  "(string \<Rightarrow> (auth_client \<times> token_claims) op) \<Rightarrow> (token_claims \<Rightarrow> string \<Rightarrow> bool) \<Rightarrow>
   string \<Rightarrow> string \<Rightarrow> handler \<Rightarrow> handler" where
  "require_auth authn holds scope action next ctx r st =
     (case on_world (authn (request_token r)) st of
        (Inl err, st) \<Rightarrow> (write_error 401 ''unauthorized'' ''invalid or expired token'', st)
      | (Inr (client, claims), st) \<Rightarrow>
          if scope \<noteq> [] \<and> \<not> holds claims scope
          then (write_error 403 ''forbidden'' ''missing required scope'', st)
          else
            (let key = ''token:'' @ action @ '':'' @ tc_jti claims in
             case limit_for_action action of (limit, per) \<Rightarrow>
             case limit_call key limit per st of
               ((ok, retry), st) \<Rightarrow>
                 if \<not> ok then (write_rate_limited retry, st)
                 else next (Some (client, claims)) r st))"

definition claims_have_scope :: "token_claims \<Rightarrow> string \<Rightarrow> bool" where
  "claims_have_scope claims scope = has_scope (tc_scopes claims) scope"

text \<open>A server without a pairing service has no authenticator and lets every call through.\<close>

definition guarded :: "server \<Rightarrow> string \<Rightarrow> string \<Rightarrow> handler \<Rightarrow> handler" where
  "guarded s scope action next =
     (case sr_pairing s of
        None \<Rightarrow> next
      | Some sv \<Rightarrow> require_auth (authenticate sv) claims_have_scope scope action next)"

definition with_cors :: "handler \<Rightarrow> handler" where
  "with_cors next ctx r st =
     (let origin = rq_header r ''Origin'';
          cors = (if origin \<noteq> []
            then [(''Access-Control-Allow-Origin'', origin),
                  (''Access-Control-Allow-Headers'', ''Authorization, Content-Type''),
                  (''Access-Control-Allow-Methods'', ''GET, POST, DELETE, OPTIONS''),
                  (''Access-Control-Expose-Headers'', ''Retry-After''),
                  (''Access-Control-Max-Age'', ''600''),
                  (''Vary'', ''Origin'')]
            else []) in
      if rq_method r = ''OPTIONS''
      then (\<lparr>rs_status = 204, rs_headers = cors, rs_body = []\<rparr>, st)
      else
        (case next ctx r st of (resp, st) \<Rightarrow> (resp\<lparr>rs_headers := cors @ rs_headers resp\<rparr>, st)))"

end
