(* ===== verification/ApiHandlers.thy ===== *)
theory ApiHandlers
  imports Api
begin

text \<open>
  The handlers of the HTTP server (\<open>router.go\<close>, \<open>pair.go\<close>, \<open>sessions.go\<close>, \<open>webhooks.go\<close>,
  \<open>messages.go\<close>, \<open>attachments.go\<close> in \<open>internal/api\<close>) and the table of routes. The handler of the
  event stream hands the connection to the websocket library and is a parameter of the table.
\<close>

section \<open>Bodies\<close>

text \<open>\<open>json.NewDecoder(r.Body).Decode(&req)\<close>: the first document of the body.\<close>

definition decode_body :: "'r field list \<Rightarrow> 'r \<Rightarrow> request \<Rightarrow> 'r option" where
  "decode_body flds zero r =
     (case decode_first (rq_body r) of None \<Rightarrow> None
      | Some (j, rest) \<Rightarrow> unmarshal_struct flds j zero)"

definition bad_json :: response where
  "bad_json = write_error 400 ''bad_request'' ''request body must be valid json''"

text \<open>The one wildcard of the patterns is their third segment.\<close>

definition path_id :: "request \<Rightarrow> string" where
  "path_id r = (case rq_segments r of _ # _ # x # _ \<Rightarrow> x | _ \<Rightarrow> [])"

section \<open>Server and chats\<close>

definition handle_health :: handler where
  "handle_health ctx r st = (write_json [] 200 (JObj [(''status'', JStr ''ok'')]), st)"

text \<open>\<open>int64(d.Seconds())\<close>, which drops the fraction.\<close>

definition whole_seconds :: "int \<Rightarrow> int" where
  "whole_seconds d = (if d < 0 then \<lceil>seconds_of d\<rceil> else \<lfloor>seconds_of d\<rfloor>)"

definition handle_server :: "server \<Rightarrow> call_env \<Rightarrow> handler" where
  "handle_server s env ctx r st =
     (case version (ce_exec env) (sr_runner s) of
        Inl err \<Rightarrow> (write_error 500 ''internal'' (error_text err), st)
      | Inr imsg_version \<Rightarrow>
          (case on_eff time_now st of (now, st) \<Rightarrow>
             (write_json [] 200 (JObj
                ([(''name'', JStr (ap_server_name (sr_cfg s))), (''version'', JStr (ap_version (sr_cfg s))),
                  (''imsg_version'', JStr imsg_version),
                  (''uptime_seconds'', JInt (whole_seconds (time_sub now (ap_started_at (sr_cfg s)))))] @
                 omit_string ''tailscale_ip'' (ap_tailscale_ip (sr_cfg s)))), st)))"

definition bounded_int :: "string \<Rightarrow> int \<Rightarrow> int \<Rightarrow> int \<Rightarrow> int res" where
  "bounded_int raw fallback lo hi =
     (if trim_space raw = [] then Inr fallback
      else
        (case parse_int64 raw of
           None \<Rightarrow> Inl (ErrMsg ''limit must be an integer'')
         | Some v \<Rightarrow>
             if v < lo \<or> v > hi then Inl (ErrMsg ''limit is out of range'') else Inr v))"

definition handle_chats :: "server \<Rightarrow> call_env \<Rightarrow> handler" where
  "handle_chats s env ctx r st =
     (case bounded_int (rq_query r ''limit'') 50 1 200 of
        Inl err \<Rightarrow> (write_error 400 ''bad_request'' (error_text err), st)
      | Inr limit \<Rightarrow>
          (case list_chats (ce_exec env) (sr_runner s) limit of
             Inl err \<Rightarrow> (write_error (status_for_err err) ''internal'' (error_text err), st)
           | Inr chats \<Rightarrow> (write_json [] 200 (JObj [(''chats'', slice_json chat_json chats)]), st)))"

section \<open>Histories\<close>

definition bool_param :: "string \<Rightarrow> bool option" where
  "bool_param raw =
     (if raw \<in> {''1'', ''true'', ''yes''} then Some True
      else if raw \<in> {''0'', ''false'', ''no''} then Some False else None)"

definition time_param :: "string \<Rightarrow> string \<Rightarrow> zoned option res" where
  "time_param name raw =
     (if trim_space raw = [] then Inr None
      else
        (case parse_time (trim_space raw) of
           None \<Rightarrow> Inl (ErrMsg (name @ '' must be RFC3339''))
         | Some z \<Rightarrow> Inr (Some z)))"

text \<open>The chat and the options a request asks for, or what is wrong with it.\<close>

definition history_request :: "request \<Rightarrow> (int64 \<times> list_messages_options) res" where
  "history_request r =
     (case parse_int64 (path_id r) of
        None \<Rightarrow> Inl (ErrMsg ''chat id must be an integer'')
      | Some chat_id \<Rightarrow>
        (case bounded_int (rq_query r ''limit'') 50 1 500 of
           Inl err \<Rightarrow> Inl err
         | Inr limit \<Rightarrow>
           (let raw = to_lower (trim_space (rq_query r ''attachments'')) in
            case (if raw = [] then Some True else bool_param raw) of
              None \<Rightarrow> Inl (ErrMsg ''attachments must be a boolean'')
            | Some atts \<Rightarrow>
              (case time_param ''before'' (rq_query r ''before'') of
                 Inl err \<Rightarrow> Inl err
               | Inr before \<Rightarrow>
                 (case time_param ''after'' (rq_query r ''after'') of
                    Inl err \<Rightarrow> Inl err
                  | Inr after \<Rightarrow>
                    (let wrong = (case (before, after) of
                         (Some b, Some a) \<Rightarrow> \<not> fst a < fst b | _ \<Rightarrow> False) in
                     if wrong then Inl (ErrMsg ''after must be earlier than before'')
                     else Inr (word_of_int chat_id,
                       \<lparr>lo_limit = limit, lo_before = before, lo_after = after, lo_attachments = atts\<rparr>)))))))"

definition messages_json :: "message list \<Rightarrow> json" where
  "messages_json ms = JObj [(''messages'', slice_json message_json ms)]"

definition history_headers :: "string \<Rightarrow> string \<Rightarrow> (string \<times> string) list" where
  "history_headers how ms = [(''X-Bridge-History-Cache'', how), (''X-Bridge-History-Load-Ms'', ms)]"

definition on_history :: "(message_history_cache \<Rightarrow> ('a \<times> message_history_cache) eff) \<Rightarrow> api_state \<Rightarrow> 'a \<times> api_state" where
  "on_history f st =
     (case on_eff (f (st_history st)) st of ((a, c), st) \<Rightarrow> (a, st\<lparr>st_history := c\<rparr>))"

text \<open>\<open>Duration.Milliseconds\<close>.\<close>

definition whole_millis :: "int \<Rightarrow> int" where
  "whole_millis d = (if d < 0 then - (- d div millisecond) else d div millisecond)"

text \<open>The call on a cache miss: fetch, decorate, put.\<close>

definition load_history :: "server \<Rightarrow> call_env \<Rightarrow> int64 \<Rightarrow> list_messages_options \<Rightarrow> api_state \<Rightarrow> response \<times> api_state" where
  "load_history s env chat_id opts st =
     (case on_eff time_now st of (start, st) \<Rightarrow>
        (case list_messages (ce_exec env) (sr_runner s) chat_id opts of
           Inl err \<Rightarrow> (write_error (status_for_err err) ''internal'' (error_text err), st)
         | Inr ms \<Rightarrow>
             (case (if sr_attachments s \<noteq> None \<and> lo_attachments opts
                    then on_eff (decorate_messages (sr_attachments s) ms) st else (ms, st)) of
                (ms, st) \<Rightarrow>
                (case on_history (\<lambda>c e. case cache_put chat_id opts ms c e of (c, e) \<Rightarrow> (((), c), e)) st of
                   (u, st) \<Rightarrow>
                   (case on_eff time_now st of (now, st) \<Rightarrow>
                      (write_json (history_headers ''miss'' (int_text (whole_millis (time_sub now start)))) 200
                         (messages_json ms), st))))))"

definition handle_messages :: "server \<Rightarrow> call_env \<Rightarrow> handler" where
  "handle_messages s env ctx r st =
     (case history_request r of
        Inl err \<Rightarrow> (write_error 400 ''bad_request'' (error_text err), st)
      | Inr (chat_id, opts) \<Rightarrow>
          (case on_history (cache_get chat_id opts) st of
             (Some cached, st) \<Rightarrow>
               (write_json (history_headers ''hit'' ''0'') 200 (messages_json cached), st)
           | (None, st) \<Rightarrow> load_history s env chat_id opts st))"

text \<open>
  The goroutine of \<open>watchHistoryInvalidation\<close>, for one event. The daemon publishes messages
  only.
\<close>

definition invalidate_for :: "message event \<Rightarrow> message_history_cache \<Rightarrow> message_history_cache" where
  "invalidate_for event c =
     (if ms_chat_id (ev_data event) = 0 then c else invalidate_chat (ms_chat_id (ev_data event)) c)"

section \<open>Sending\<close>

record send_body =
  sb_to :: string
  sb_text :: string
  sb_service :: string

definition send_body_fields :: "send_body field list" where
  "send_body_fields =
     [(''to'', string_field sb_to_update), (''text'', string_field sb_text_update),
      (''service'', string_field sb_service_update)]"

definition service_of :: "string \<Rightarrow> string" where
  "service_of raw = (let service = to_lower (trim_space raw) in if service = [] then ''auto'' else service)"

definition known_service :: "string \<Rightarrow> bool" where
  "known_service service \<longleftrightarrow> service \<in> {''auto'', ''imessage'', ''sms''}"

definition bad_service :: response where
  "bad_service = write_error 400 ''bad_request'' ''service must be one of auto, imessage, or sms''"

definition handle_send_message :: "server \<Rightarrow> call_env \<Rightarrow> handler" where
  "handle_send_message s env ctx r st =
     (case decode_body send_body_fields \<lparr>sb_to = [], sb_text = [], sb_service = []\<rparr> r of
        None \<Rightarrow> (bad_json, st)
      | Some req \<Rightarrow>
          let to = trim_space (sb_to req);
              msg = trim_space (sb_text req);
              service = service_of (sb_service req) in
          if to = [] \<or> msg = [] then (write_error 400 ''bad_request'' ''to and text are required'', st)
          else if \<not> known_service service then (bad_service, st)
          else
            (case send_message (ce_exec env) (sr_runner s) \<lparr>smr_to = to, smr_text = msg, smr_service = service\<rparr> of
               Inl err \<Rightarrow> (write_error (status_for_err err) ''internal'' (error_text err), st)
             | Inr result \<Rightarrow> (write_json [] 202 (message_result_json result), st)))"

text \<open>What the reply falls back on for the attachment.\<close>

definition fill_attachment :: "attachment_file \<Rightarrow> attachment \<Rightarrow> attachment" where
  "fill_attachment kept a =
     a\<lparr>at_filename := (if at_filename a = [] then af_filename kept else at_filename a),
       at_mime_type := (if at_mime_type a = [] then af_mime_type kept else at_mime_type a),
       at_size_bytes := (if at_size_bytes a = 0 then af_size_bytes kept else at_size_bytes a)\<rparr>"

text \<open>The deferred \<open>os.Remove\<close> of the stored upload.\<close>

definition drop_upload :: "attachment_file \<Rightarrow> api_state \<Rightarrow> api_state" where
  "drop_upload kept st =
     (case remove_file (af_path kept) (st_files st, st_world st) of
        (fs, w) \<Rightarrow> st\<lparr>st_files := fs, st_world := w\<rparr>)"

definition handle_send_attachment :: "server \<Rightarrow> call_env \<Rightarrow> handler" where
  "handle_send_attachment s env ctx r st =
     (if sr_attachments s = None
      then (write_error 500 ''internal'' ''attachment service is not configured'', st)
      else
        (case rq_form r of
           None \<Rightarrow> (write_error 400 ''bad_request'' ''request must be multipart form data'', st)
         | Some form \<Rightarrow>
             let to = trim_space (fo_values form ''to'');
                 msg = trim_space (fo_values form ''text'');
                 service = service_of (fo_values form ''service'') in
             if to = [] then (write_error 400 ''bad_request'' ''to is required'', st)
             else if \<not> known_service service then (bad_service, st)
             else
               (case fo_file form of
                  None \<Rightarrow> (write_error 400 ''bad_request'' ''file is required'', st)
                | Some (filename, content_type, body) \<Rightarrow>
                    (case on_files (save_upload (ce_mime env) (sr_attachments s) filename content_type body) st of
                       (Inl err, st) \<Rightarrow> (write_error 500 ''internal'' (error_text err), st)
                     | (Inr kept, st) \<Rightarrow>
                         (case send_attachment (ce_exec env) (sr_runner s)
                              \<lparr>sar_to = to, sar_text = msg, sar_file_path = af_path kept, sar_service = service\<rparr> of
                            Inl err \<Rightarrow>
                              (write_error (status_for_err err) ''internal'' (error_text err), drop_upload kept st)
                          | Inr result \<Rightarrow>
                              (write_json [] 202 (attachment_result_json
                                 (result\<lparr>sax_attachment := fill_attachment kept (sax_attachment result)\<rparr>)),
                               drop_upload kept st))))))"

section \<open>Fetching an attachment\<close>

definition content_disposition :: "string \<Rightarrow> string" where
  "content_disposition name = ''attachment; filename='' @ dquote # filter (\<lambda>c. c \<noteq> dquote) name @ [dquote]"

definition content_type_of :: "mime_tables \<Rightarrow> attachment_file \<Rightarrow> string \<Rightarrow> string" where
  "content_type_of mt meta content =
     (let ct = trim_space (af_mime_type meta);
          ct = (if ct = [] then mt_by_extension mt (path_ext (af_filename meta)) else ct)
      in if ct = [] then mt_detect mt (take 512 content) else ct)"

definition handle_get_attachment :: "server \<Rightarrow> call_env \<Rightarrow> handler" where
  "handle_get_attachment s env ctx r st =
     (if sr_attachments s = None
      then (write_error 500 ''internal'' ''attachment service is not configured'', st)
      else
        (case on_files (open_attachment (sr_attachments s) (trim_space (path_id r))) st of
           (Inl err, st) \<Rightarrow>
             (if err = ErrInvalidID \<or> err = ErrNotFound
              then (write_error 404 ''not_found'' ''attachment was not found'', st)
              else (write_error 500 ''internal'' (error_text err), st))
         | (Inr (content, meta), st) \<Rightarrow>
             (\<lparr>rs_status = 200,
               rs_headers =
                 [(''Content-Type'', content_type_of (ce_mime env) meta content),
                  (''Content-Disposition'', content_disposition (af_filename meta))] @
                 (if sint (af_size_bytes meta) > 0
                  then [(''Content-Length'', int_text (sint (af_size_bytes meta)))] else []),
               rs_body = content\<rparr>, st)))"

section \<open>Pairing and sessions\<close>

record pair_body =
  pb_code :: string
  pb_client_name :: string
  pb_client_type :: string

definition pair_body_fields :: "pair_body field list" where
  "pair_body_fields =
     [(''code'', string_field pb_code_update), (''client_name'', string_field pb_client_name_update),
      (''client_type'', string_field pb_client_type_update)]"

definition pair_result_json :: "server \<Rightarrow> pair_result \<Rightarrow> json" where
  "pair_result_json s x = JObj
     [(''token'', JStr (pr_token x)), (''client_id'', JStr (pr_client_id x)),
      (''server_name'', JStr (ap_server_name (sr_cfg s))),
      (''expires_at'', JStr (fmt_rfc3339 (pr_expires_at x))), (''scopes'', slice_json JStr (pr_scopes x))]"

definition handle_pair :: "server \<Rightarrow> handler" where
  "handle_pair s ctx r st =
     (case sr_pairing s of
        None \<Rightarrow> (write_error 503 ''internal'' ''pairing is not available'', st)
      | Some sv \<Rightarrow>
          (case decode_body pair_body_fields \<lparr>pb_code = [], pb_client_name = [], pb_client_type = []\<rparr> r of
             None \<Rightarrow> (bad_json, st)
           | Some req \<Rightarrow>
               let code = trim_space (pb_code req);
                   client_name = trim_space (pb_client_name req);
                   client_type = trim_space (pb_client_type req) in
               if code = [] \<or> client_name = [] \<or> client_type = []
               then (write_error 400 ''bad_request'' ''code, client_name, and client_type are required'', st)
               else
                 (case on_world (pair sv code client_name client_type) st of
                    (Inl err, st) \<Rightarrow>
                      (if err = ErrInvalidCode
                       then (write_error 401 ''invalid_code'' ''pairing code is invalid or expired'', st)
                       else (write_error 500 ''internal'' (error_text err), st))
                  | (Inr result, st) \<Rightarrow> (write_json [] 200 (pair_result_json s result), st))))"

definition no_sessions :: response where
  "no_sessions = write_error 503 ''internal'' ''sessions are not available''"

definition session_body_fields :: "pair_body field list" where
  "session_body_fields =
     [(''client_name'', string_field pb_client_name_update), (''client_type'', string_field pb_client_type_update)]"

definition handle_create_session :: "server \<Rightarrow> handler" where
  "handle_create_session s ctx r st =
     (case sr_pairing s of
        None \<Rightarrow> (no_sessions, st)
      | Some sv \<Rightarrow>
          (case decode_body session_body_fields \<lparr>pb_code = [], pb_client_name = [], pb_client_type = []\<rparr> r of
             None \<Rightarrow> (bad_json, st)
           | Some req \<Rightarrow>
               (case on_world (create_session sv (pb_client_name req) (pb_client_type req)) st of
                  (Inl err, st) \<Rightarrow> (write_error 400 ''bad_request'' (error_text err), st)
                | (Inr sn, st) \<Rightarrow>
                    (write_json [] 200 (JObj [(''code'', JStr (sn_code sn)),
                       (''expires_at'', JStr (fmt_rfc3339 (sn_expires_at sn))),
                       (''session_id'', JStr (sn_id sn))]), st))))"

definition handle_get_session :: "server \<Rightarrow> handler" where
  "handle_get_session s ctx r st =
     (case sr_pairing s of
        None \<Rightarrow> (no_sessions, st)
      | Some sv \<Rightarrow>
          (case on_world (get_session sv (path_id r)) st of
             (Inl err, st) \<Rightarrow>
               (if err = ErrSessionExpired
                then (write_json [] 200 (JObj [(''status'', JStr ''expired'')]), st)
                else (write_error 404 ''not_found'' ''session was not found'', st))
           | (Inr sn, st) \<Rightarrow>
               (if sn_status sn = ''approved''
                then (write_json [] 200 (JObj
                   [(''client_id'', JStr (sn_client_id sn)),
                    (''expires_at'', JStr (fmt_rfc3339 (sn_expires_at sn))),
                    (''scopes'', slice_json JStr (sn_scopes sn)), (''status'', JStr ''approved''),
                    (''token'', JStr (sn_token sn))]), st)
                else (write_json [] 200 (JObj [(''status'', JStr ''pending'')]), st))))"

record scopes_body =
  xb_scopes :: "string list"

definition scopes_body_fields :: "scopes_body field list" where
  "scopes_body_fields = [(''scopes'', slice_field string_elem xb_scopes_update)]"

definition handle_approve_session :: "server \<Rightarrow> handler" where
  "handle_approve_session s ctx r st =
     (case sr_pairing s of
        None \<Rightarrow> (no_sessions, st)
      | Some sv \<Rightarrow>
          (case ctx of
             None \<Rightarrow> (write_error 401 ''unauthorized'' ''invalid or expired token'', st)
           | Some (client, claims) \<Rightarrow>
               (case decode_body scopes_body_fields \<lparr>xb_scopes = []\<rparr> r of
                  None \<Rightarrow> (bad_json, st)
                | Some req \<Rightarrow>
                    (case on_world (approve_session sv (path_id r) claims (map trim_space (xb_scopes req))) st of
                       (Inl err, st) \<Rightarrow>
                         (if err = ErrSessionExpired
                          then (write_error 401 ''session_expired'' ''session is expired'', st)
                          else if err = ErrForbidden
                          then (write_error 403 ''forbidden'' ''requested scopes exceed approver scopes'', st)
                          else (write_error 404 ''not_found'' ''session was not found'', st))
                     | (Inr sn, st) \<Rightarrow>
                         (write_json [] 200 (JObj [(''client_id'', JStr (sn_client_id sn)),
                            (''expires_at'', JStr (fmt_rfc3339 (sn_expires_at sn))), (''ok'', JBool True)]), st)))))"

section \<open>Webhooks\<close>

record hook_body =
  hb_url :: string
  hb_events :: "string list"

definition hook_body_fields :: "hook_body field list" where
  "hook_body_fields =
     [(''url'', string_field hb_url_update), (''events'', slice_field string_elem hb_events_update)]"

definition no_webhooks :: response where
  "no_webhooks = write_error 503 ''internal'' ''webhooks are not available''"

definition handle_create_webhook :: "server \<Rightarrow> call_env \<Rightarrow> handler" where
  "handle_create_webhook s env ctx r st =
     (if \<not> sr_webhooks s then (no_webhooks, st)
      else
        (case decode_body hook_body_fields \<lparr>hb_url = [], hb_events = []\<rparr> r of
           None \<Rightarrow> (bad_json, st)
         | Some req \<Rightarrow>
             (case on_world (create_webhook (ce_validator env) (hb_url req) (hb_events req)) st of
                (Inl err, st) \<Rightarrow> (write_error 400 ''bad_request'' (error_text err), st)
              | (Inr hook, st) \<Rightarrow> (write_json [] 200 (JObj [(''webhook'', webhook_json hook)]), st))))"

text \<open>The list is made with its length, so an empty one is \<open>[]\<close> and not \<open>null\<close>.\<close>

definition handle_list_webhooks :: "server \<Rightarrow> handler" where
  "handle_list_webhooks s ctx r st =
     (if \<not> sr_webhooks s then (no_webhooks, st)
      else
        (case on_world list_webhooks st of
           (Inl err, st) \<Rightarrow> (write_error 500 ''internal'' (error_text err), st)
         | (Inr hooks, st) \<Rightarrow>
             (write_json [] 200 (JObj [(''webhooks'', JArr (map webhook_json hooks))]), st)))"

definition handle_delete_webhook :: "server \<Rightarrow> handler" where
  "handle_delete_webhook s ctx r st =
     (if \<not> sr_webhooks s then (no_webhooks, st)
      else
        (case on_world (delete_webhook (path_id r)) st of
           (Inl err, st) \<Rightarrow> (write_error 500 ''internal'' (error_text err), st)
         | (Inr ok, st) \<Rightarrow>
             (if \<not> ok then (write_error 404 ''not_found'' ''webhook was not found'', st)
              else (write_json [] 200 (JObj [(''ok'', JBool True)]), st))))"

section \<open>Routes\<close>

text \<open>The event stream's answer to the upgrade, which touches nothing of the state here.\<close>

type_synonym stream = "auth_context \<Rightarrow> request \<Rightarrow> response"

text \<open>Method, segments (\<open>None\<close> is the wildcard) and handler, in the order of registration.\<close>

type_synonym route = "string \<times> string option list \<times> handler"

definition routes :: "server \<Rightarrow> call_env \<Rightarrow> stream \<Rightarrow> route list" where
  "routes s env events =
     [(''GET'', [Some ''healthz''], handle_health),
      (''POST'', [Some ''v1'', Some ''pair''], limit_by_ip ''pair'' 5 minute (handle_pair s)),
      (''POST'', [Some ''v1'', Some ''sessions''], limit_by_ip ''sessions'' 5 minute (handle_create_session s)),
      (''GET'', [Some ''v1'', Some ''sessions'', None], handle_get_session s),
      (''POST'', [Some ''v1'', Some ''sessions'', None, Some ''approve''],
         guarded s ''send'' ''send'' (handle_approve_session s)),
      (''POST'', [Some ''v1'', Some ''webhooks''], guarded s ''admin'' ''read'' (handle_create_webhook s env)),
      (''GET'', [Some ''v1'', Some ''webhooks''], guarded s ''admin'' ''read'' (handle_list_webhooks s)),
      (''DELETE'', [Some ''v1'', Some ''webhooks'', None], guarded s ''admin'' ''read'' (handle_delete_webhook s)),
      (''GET'', [Some ''v1'', Some ''server''], guarded s ''read'' ''read'' (handle_server s env)),
      (''GET'', [Some ''v1'', Some ''chats''], guarded s ''read'' ''read'' (handle_chats s env)),
      (''GET'', [Some ''v1'', Some ''chats'', None, Some ''messages''],
         guarded s ''read'' ''read'' (handle_messages s env)),
      (''POST'', [Some ''v1'', Some ''messages''], guarded s ''send'' ''send'' (handle_send_message s env)),
      (''POST'', [Some ''v1'', Some ''attachments''], guarded s ''attach'' ''attach'' (handle_send_attachment s env)),
      (''GET'', [Some ''v1'', Some ''attachments'', None], guarded s ''read'' ''read'' (handle_get_attachment s env)),
      (''GET'', [Some ''v1'', Some ''events''], guarded s ''read'' ''read'' (\<lambda>ctx r st. (events ctx r, st)))]"

definition segment_matches :: "string option \<Rightarrow> string \<Rightarrow> bool" where
  "segment_matches p x = (case p of None \<Rightarrow> True | Some lit \<Rightarrow> x = lit)"

definition path_matches :: "route \<Rightarrow> request \<Rightarrow> bool" where
  "path_matches rt r = list_all2 segment_matches (fst (snd rt)) (rq_segments r)"

text \<open>A GET pattern also takes HEAD.\<close>

definition method_matches :: "route \<Rightarrow> request \<Rightarrow> bool" where
  "method_matches rt r \<longleftrightarrow>
     rq_method r = fst rt \<or> fst rt = ''GET'' \<and> rq_method r = ''HEAD''"

definition plain_error :: "int \<Rightarrow> string \<Rightarrow> response" where
  "plain_error status msg =
     \<lparr>rs_status = status, rs_headers = [(''Content-Type'', ''text/plain; charset=utf-8'')], rs_body = msg @ [CHR 0x0A]\<rparr>"

text \<open>\<open>ServeMux\<close>: no two of the patterns take the same request.\<close>

definition serve_mux :: "route list \<Rightarrow> handler" where
  "serve_mux table ctx r st =
     (case find (\<lambda>rt. path_matches rt r \<and> method_matches rt r) table of
        Some rt \<Rightarrow> snd (snd rt) ctx r st
      | None \<Rightarrow>
          if list_ex (\<lambda>rt. path_matches rt r) table
          then (plain_error 405 ''Method Not Allowed'', st)
          else (plain_error 404 ''404 page not found'', st))"

definition serve :: "server \<Rightarrow> call_env \<Rightarrow> stream \<Rightarrow> request \<Rightarrow> api_state \<Rightarrow> response \<times> api_state" where
  "serve s env events r st = with_cors (serve_mux (routes s env events)) None r st"

end
