(* ===== verification/ApiProps.thy ===== *)
theory ApiProps
  imports ApiHandlers
begin

text \<open>
  What the HTTP server promises: who gets past the gates, how often a client may try a pairing
  code, what a refused call leaves behind, and what a history is served from.
\<close>

section \<open>The authenticator's contract\<close>

text \<open>
  What the gate relies on: a token that is turned away changes nothing in the state file, and one
  that is accepted is good by the rules of the provider, which then only notes the visit.
\<close>

definition unseen :: "config \<Rightarrow> config" where
  "unseen cfg = cfg\<lparr>cfg_clients := map (cl_last_seen_update (\<lambda>_. 0)) (cfg_clients cfg)\<rparr>"

locale authenticator =
  fixes authn :: "string \<Rightarrow> (auth_client \<times> token_claims) op"
    and holds :: "token_claims \<Rightarrow> string \<Rightarrow> bool"
    and good :: "world \<Rightarrow> string \<Rightarrow> token_claims \<Rightarrow> bool"
  assumes turned_away: "authn token w = (Inl err, w') \<Longrightarrow> stored w' = stored w"
    and accepted: "authn token w = (Inr (client, claims), w') \<Longrightarrow>
      good w token claims \<and> map_option unseen (stored w') = map_option unseen (stored w)"
begin

lemma gate:
  assumes "require_auth authn holds scope action next ctx r st = (resp, st')"
  shows "rs_status resp \<in> {401, 403} \<and> map_option unseen (stored (st_world st')) = map_option unseen (stored (st_world st)) \<and>
      st_files st' = st_files st \<and> st_history st' = st_history st \<and> st_limiter st' = st_limiter st \<or>
    (\<exists>claims. good (st_world st) (request_token r) claims \<and> (scope = [] \<or> holds claims scope))"
proof -
  obtain res w where a: "authn (request_token r) (st_world st) = (res, w)" by fastforce
  show ?thesis
  proof (cases res)
    case (Inl err)
    then show ?thesis
      using assms a turned_away [OF a [unfolded Inl]]
      by (auto simp: require_auth_def on_world_def write_error_def write_json_def)
  next
    case (Inr x)
    obtain client claims where x: "x = (client, claims)" by (cases x)
    show ?thesis
    proof (cases "scope \<noteq> [] \<and> \<not> holds claims scope")
      case True
      then show ?thesis
        using assms a accepted [of "request_token r" "st_world st" client claims w] Inr x
        by (auto simp: require_auth_def on_world_def write_error_def write_json_def)
    next
      case False
      then show ?thesis using accepted [of "request_token r" "st_world st" client claims w] a Inr x by auto
    qed
  qed
qed

end

text \<open>
  The pairing service's rule: the token is signed, it has not expired by the clock, and it is
  the current one of a client that is registered and not revoked.
\<close>

definition admits :: "auth_service \<Rightarrow> world \<Rightarrow> string \<Rightarrow> token_claims \<Rightarrow> bool" where
  "admits sv w token claims \<longleftrightarrow>
     Option.bind (signed_payload (sv_tokens sv) (trim_space token)) parse_claims = Some claims \<and>
     unix_of (clock (w_eff w) 0) < sint (tc_expiry claims) \<and>
     (\<exists>cfg c. stored w = Some cfg \<and> c \<in> set (cfg_clients cfg) \<and> matches_claims claims c)"

lemma unseen_visit: "unseen (cfg\<lparr>cfg_clients := (cfg_clients cfg)[i := (cfg_clients cfg ! i)\<lparr>cl_last_seen := now\<rparr>]\<rparr>) = unseen cfg"
proof -
  have "(map f xs)[i := f (xs ! i)] = map f xs" for f :: "client \<Rightarrow> client" and xs
    by (cases "i < length xs") (simp_all add: list_update_same_conv list_update_beyond)
  then show ?thesis by (simp add: unseen_def map_update)
qed

interpretation pairing: authenticator "authenticate sv" claims_have_scope "admits sv" for sv
proof
  fix token w w' err
  assume "authenticate sv token w = (Inl err, w')"
  then show "stored w' = stored w" by (cases rule: authenticate_cases) auto
next
  fix token w w' client claims
  assume "authenticate sv token w = (Inr (client, claims), w')"
  then show "admits sv w token claims \<and> map_option unseen (stored w') = map_option unseen (stored w)"
    by (cases rule: authenticate_cases) (auto simp: admits_def unseen_visit)
qed

section \<open>Who gets in\<close>

text \<open>The access policy: the scope each protected call asks for.\<close>

definition access_policy :: "(string \<times> string option list \<times> string) list" where
  "access_policy =
     [(''POST'', [Some ''v1'', Some ''sessions'', None, Some ''approve''], ''send''),
      (''POST'', [Some ''v1'', Some ''webhooks''], ''admin''),
      (''GET'', [Some ''v1'', Some ''webhooks''], ''admin''),
      (''DELETE'', [Some ''v1'', Some ''webhooks'', None], ''admin''),
      (''GET'', [Some ''v1'', Some ''server''], ''read''),
      (''GET'', [Some ''v1'', Some ''chats''], ''read''),
      (''GET'', [Some ''v1'', Some ''chats'', None, Some ''messages''], ''read''),
      (''POST'', [Some ''v1'', Some ''messages''], ''send''),
      (''POST'', [Some ''v1'', Some ''attachments''], ''attach''),
      (''GET'', [Some ''v1'', Some ''attachments'', None], ''read''),
      (''GET'', [Some ''v1'', Some ''events''], ''read'')]"

lemma list_all2_segments:
  "list_all2 segment_matches (p # ps) xs \<longleftrightarrow> (\<exists>y ys. xs = y # ys \<and> segment_matches p y \<and> list_all2 segment_matches ps ys)"
  "list_all2 segment_matches [] xs \<longleftrightarrow> xs = []"
  by (auto simp: list_all2_Cons1)

text \<open>The requests a line of the policy is about.\<close>

definition asks :: "string \<Rightarrow> string option list \<Rightarrow> request \<Rightarrow> bool" where
  "asks m pat r \<longleftrightarrow> list_all2 segment_matches pat (rq_segments r) \<and>
     (rq_method r = m \<or> m = ''GET'' \<and> rq_method r = ''HEAD'')"

lemma policy_route:
  assumes "(m, pat, scope) \<in> set access_policy" and "asks m pat r"
  shows "\<exists>action next. find (\<lambda>rt. path_matches rt r \<and> method_matches rt r) (routes s env events) =
    Some (m, pat, guarded s scope action next)"
  using assms unfolding access_policy_def asks_def
  apply (simp only: list.set insert_iff empty_iff prod.inject)
  apply (elim disjE conjE FalseE; hypsubst; clarsimp simp only: list_all2_segments segment_matches_def option.case)
  apply (simp_all add: routes_def path_matches_def method_matches_def list_all2_segments segment_matches_def)
  apply (intro exI, rule refl)+
  done

lemma policy_method: "(m, pat, scope) \<in> set access_policy \<Longrightarrow> asks m pat r \<Longrightarrow> rq_method r \<noteq> ''OPTIONS''"
  by (auto simp: access_policy_def asks_def)

text \<open>What a call without a grant leaves as it was.\<close>

definition untouched :: "api_state \<Rightarrow> api_state \<Rightarrow> bool" where
  "untouched st st' \<longleftrightarrow> map_option unseen (stored (st_world st')) = map_option unseen (stored (st_world st)) \<and>
     st_files st' = st_files st \<and> st_history st' = st_history st \<and> st_limiter st' = st_limiter st"

lemma access:
  assumes "(m, pat, scope) \<in> set access_policy" and "asks m pat r" and "sr_pairing s = Some sv"
    and "serve s env events r st = (resp, st')"
  shows "(\<exists>claims. admits sv (st_world st) (request_token r) claims \<and> scope \<in> set (tc_scopes claims)) \<or>
    rs_status resp \<in> {401, 403} \<and> untouched st st'"
proof -
  obtain action next_handler where f: "find (\<lambda>rt. path_matches rt r \<and> method_matches rt r) (routes s env events) =
      Some (m, pat, guarded s scope action next_handler)"
    using policy_route [OF assms(1,2)] by blast
  obtain resp0 where g: "require_auth (authenticate sv) claims_have_scope scope action next_handler None r st = (resp0, st')"
    and resp: "rs_status resp = rs_status resp0"
    using assms(3,4) f policy_method [OF assms(1,2)]
    by (auto simp: serve_def with_cors_def serve_mux_def guarded_def Let_def split: prod.splits)
  have "scope \<noteq> []" using assms(1) by (auto simp: access_policy_def)
  with pairing.gate [OF g] show ?thesis
    by (auto simp: resp untouched_def claims_have_scope_def has_scope_iff)
qed

section \<open>How often a code may be tried\<close>

definition pair_key :: "string \<Rightarrow> string" where
  "pair_key ip = ''ip:pair:'' @ ip"

definition is_pair_request :: "request \<Rightarrow> bool" where
  "is_pair_request r \<longleftrightarrow> rq_method r = ''POST'' \<and> rq_segments r = [''v1'', ''pair'']"

text \<open>A request leaves the limiter as some call of \<open>allow\<close>, or with an empty key none, leaves it.\<close>

definition limits_as :: "limiter_call \<Rightarrow> rate_limiter \<Rightarrow> rate_limiter \<Rightarrow> bool" where
  "limits_as c l l' \<longleftrightarrow> snd (allow_step c l) = l'"

definition no_call :: limiter_call where
  "no_call = ([], 0, 0, still_effects 0)"

lemma limits_as_none [simp]: "limits_as no_call l l"
  by (simp add: limits_as_def no_call_def allow_def)

lemma limit_call_step:
  assumes "limit_call key limit per st = ((ok, retry), st')"
  shows "allow_step (key, limit, per, w_eff (st_world st)) (st_limiter st) = (ok, st_limiter st')"
    "st_files st' = st_files st" "st_history st' = st_history st" "stored (st_world st') = stored (st_world st)"
  using assms
  by (auto simp: limit_call_def on_eff_def with_eff_def intro!: stored_cong split: prod.splits)

text \<open>No handler touches the limiter.\<close>

definition keeps_limiter :: "handler \<Rightarrow> bool" where
  "keeps_limiter h \<longleftrightarrow> (\<forall>ctx r st. st_limiter (snd (h ctx r st)) = st_limiter st)"

lemma on_limiter [simp]:
  "on_world m st = (a, st') \<Longrightarrow> st_limiter st' = st_limiter st"
  "on_eff n st = (b, st') \<Longrightarrow> st_limiter st' = st_limiter st"
  "on_files p st = (d, st') \<Longrightarrow> st_limiter st' = st_limiter st"
  "on_history q st = (f, st') \<Longrightarrow> st_limiter st' = st_limiter st"
  by (auto simp: on_world_def on_eff_def on_files_def on_history_def split: prod.splits)

lemma drop_upload_limiter [simp]: "st_limiter (drop_upload kept st) = st_limiter st"
  by (simp add: drop_upload_def split: prod.split)

lemma load_history_limiter [simp]: "st_limiter (snd (load_history s env chat_id opts st)) = st_limiter st"
  by (simp add: load_history_def split: sum.split prod.split)

lemma handlers_keep_limiter:
  "keeps_limiter handle_health" "keeps_limiter (handle_server s env)" "keeps_limiter (handle_chats s env)"
  "keeps_limiter (handle_messages s env)" "keeps_limiter (handle_send_message s env)"
  "keeps_limiter (handle_send_attachment s env)" "keeps_limiter (handle_get_attachment s env)"
  "keeps_limiter (handle_pair s)" "keeps_limiter (handle_create_session s)" "keeps_limiter (handle_get_session s)"
  "keeps_limiter (handle_approve_session s)" "keeps_limiter (handle_create_webhook s env)"
  "keeps_limiter (handle_list_webhooks s)" "keeps_limiter (handle_delete_webhook s)"
  "keeps_limiter (\<lambda>ctx r st. (events ctx r, st))"
  unfolding keeps_limiter_def
  subgoal by (simp add: handle_health_def)
  subgoal by (simp add: handle_server_def split: sum.split prod.split)
  subgoal by (simp add: handle_chats_def split: sum.split prod.split)
  subgoal by (simp add: handle_messages_def split: sum.split prod.split option.split)
  subgoal by (simp add: handle_send_message_def Let_def split: sum.split prod.split option.split)
  subgoal by (simp add: handle_send_attachment_def Let_def split: sum.split prod.split option.split)
  subgoal by (simp add: handle_get_attachment_def split: sum.split prod.split)
  subgoal by (simp add: handle_pair_def Let_def split: sum.split prod.split option.split)
  subgoal by (simp add: handle_create_session_def split: sum.split prod.split option.split)
  subgoal by (simp add: handle_get_session_def split: sum.split prod.split option.split)
  subgoal by (simp add: handle_approve_session_def split: sum.split prod.split option.split)
  subgoal by (simp add: handle_create_webhook_def split: sum.split prod.split option.split)
  subgoal by (simp add: handle_list_webhooks_def split: sum.split prod.split)
  subgoal by (simp add: handle_delete_webhook_def split: sum.split prod.split)
  subgoal by simp
  done

text \<open>A handler that calls the limiter at most once, with a key that is not a pairing key.\<close>

definition limits_other :: "handler \<Rightarrow> bool" where
  "limits_other h \<longleftrightarrow> (\<forall>ctx r st. \<exists>c. limits_as c (st_limiter st) (st_limiter (snd (h ctx r st))) \<and>
     (\<forall>ip. fst c \<noteq> pair_key ip))"

lemma no_call_key [simp]: "fst no_call \<noteq> pair_key ip"
  by (simp add: no_call_def pair_key_def)

lemma keeps_limits_other: "keeps_limiter h \<Longrightarrow> limits_other h"
  unfolding limits_other_def keeps_limiter_def using no_call_key limits_as_none by metis

lemma after_limit_call:
  assumes "limit_call key limit per st = ((ok, retry), st1)" and "st_limiter st' = st_limiter st1"
  shows "limits_as (key, limit, per, w_eff (st_world st)) (st_limiter st) (st_limiter st')"
  using limit_call_step(1) [OF assms(1)] assms(2) by (simp add: limits_as_def del: allow_step.simps)

lemma limit_by_ip_other:
  assumes "keeps_limiter next_handler"
  shows "limits_other (limit_by_ip ''sessions'' 5 minute next_handler)"
  unfolding limits_other_def
proof (intro allI)
  fix ctx r st
  let ?key = "''ip:sessions:'' @ client_ip r"
  obtain ok retry st1 where c: "limit_call ?key 5 minute st = ((ok, retry), st1)" by (metis surj_pair)
  then have "st_limiter (snd (limit_by_ip ''sessions'' 5 minute next_handler ctx r st)) = st_limiter st1"
    using assms by (simp add: limit_by_ip_def keeps_limiter_def)
  from after_limit_call [OF c this]
  show "\<exists>c. limits_as c (st_limiter st) (st_limiter (snd (limit_by_ip ''sessions'' 5 minute next_handler ctx r st))) \<and>
      (\<forall>ip. fst c \<noteq> pair_key ip)"
    by (intro exI conjI) (assumption, simp add: pair_key_def)
qed

lemma require_auth_other:
  assumes "keeps_limiter next_handler"
  shows "limits_other (require_auth authn holds scope action next_handler)"
  unfolding limits_other_def
proof (intro allI)
  fix ctx r st
  obtain res st1 where a: "on_world (authn (request_token r)) st = (res, st1)" by fastforce
  have l1: "st_limiter st1 = st_limiter st" using a by simp
  let ?out = "require_auth authn holds scope action next_handler ctx r st"
  show "\<exists>c. limits_as c (st_limiter st) (st_limiter (snd ?out)) \<and> (\<forall>ip. fst c \<noteq> pair_key ip)"
  proof (cases "\<exists>client claims. res = Inr (client, claims) \<and> \<not> (scope \<noteq> [] \<and> \<not> holds claims scope)")
    case False
    then have "st_limiter (snd ?out) = st_limiter st"
      using a l1 by (auto simp: require_auth_def split: sum.split prod.split)
    then show ?thesis by (intro exI [of _ no_call]) simp
  next
    case True
    then obtain client claims where r: "res = Inr (client, claims)" "\<not> (scope \<noteq> [] \<and> \<not> holds claims scope)" by blast
    obtain limit per where la: "limit_for_action action = (limit, per)" by fastforce
    let ?key = "''token:'' @ action @ '':'' @ tc_jti claims"
    obtain ok retry st2 where c: "limit_call ?key limit per st1 = ((ok, retry), st2)" by (metis surj_pair)
    then have "st_limiter (snd ?out) = st_limiter st2"
      using assms a r la by (auto simp: require_auth_def keeps_limiter_def)
    from after_limit_call [OF c this] l1 show ?thesis
      by (intro exI conjI) (simp, simp add: pair_key_def)
  qed
qed

lemma guarded_other: "keeps_limiter next_handler \<Longrightarrow> limits_other (guarded s scope action next_handler)"
  by (simp add: guarded_def keeps_limits_other require_auth_other split: option.split)

lemmas route_limits = handlers_keep_limiter [THEN guarded_other] handlers_keep_limiter(9) [THEN limit_by_ip_other]
  handlers_keep_limiter(1,10) [THEN keeps_limits_other]

lemma routes_other:
  assumes "rt \<in> set (routes s env events)" and "fst (snd rt) \<noteq> [Some ''v1'', Some ''pair'']"
  shows "limits_other (snd (snd rt))"
  using assms
  by (auto simp: routes_def route_limits)

lemma serve_limits_other:
  assumes "\<not> is_pair_request r" and "serve s env events r st = (resp, st')"
  shows "\<exists>c. limits_as c (st_limiter st) (st_limiter st') \<and> (\<forall>ip. fst c \<noteq> pair_key ip)"
proof -
  let ?rs = "routes s env events"
  have none: "st_limiter st' = st_limiter st \<Longrightarrow> ?thesis"
    by (intro exI [of _ no_call]) simp
  show ?thesis
  proof (cases "rq_method r = ''OPTIONS''")
    case True
    then show ?thesis using assms(2) none by (simp add: serve_def with_cors_def Let_def)
  next
    case False
    show ?thesis
    proof (cases "find (\<lambda>rt. path_matches rt r \<and> method_matches rt r) ?rs")
      case None
      then have "st' = st" using assms(2) False by (auto simp: serve_def with_cors_def serve_mux_def Let_def split: if_splits)
      then show ?thesis using none by simp
    next
      case (Some rt)
      then have rt: "rt \<in> set ?rs" "path_matches rt r" "method_matches rt r"
        by (auto simp: find_Some_iff)
      have "fst (snd rt) \<noteq> [Some ''v1'', Some ''pair'']"
      proof
        assume p: "fst (snd rt) = [Some ''v1'', Some ''pair'']"
        then have "fst rt = ''POST''" using rt(1) by (auto simp: routes_def)
        with rt(2,3) p assms(1) show False
          by (auto simp: path_matches_def method_matches_def is_pair_request_def list_all2_segments segment_matches_def)
      qed
      from routes_other [OF rt(1) this]
      have "\<exists>c. limits_as c (st_limiter st) (st_limiter (snd (snd (snd rt) None r st))) \<and> (\<forall>ip. fst c \<noteq> pair_key ip)"
        by (simp add: limits_other_def)
      moreover have "st' = snd (snd (snd rt) None r st)"
        using assms(2) False Some by (auto simp: serve_def with_cors_def serve_mux_def Let_def split: prod.splits)
      ultimately show ?thesis by simp
    qed
  qed
qed

lemma handle_pair_status: "rs_status (fst (handle_pair s ctx r st)) \<noteq> 429"
  by (simp add: handle_pair_def Let_def write_error_def write_json_def bad_json_def split: sum.split prod.split option.split)

lemma pair_route:
  assumes "is_pair_request r"
  shows "find (\<lambda>rt. path_matches rt r \<and> method_matches rt r) (routes s env events) =
    Some (''POST'', [Some ''v1'', Some ''pair''], limit_by_ip ''pair'' 5 minute (handle_pair s))"
  using assms by (simp add: is_pair_request_def routes_def path_matches_def method_matches_def list_all2_segments segment_matches_def)

text \<open>A pairing request asks the limiter, and is answered 429 exactly if that says no.\<close>

lemma serve_limits_pair:
  assumes "is_pair_request r" and "serve s env events r st = (resp, st')"
  shows "allow_step (pair_key (client_ip r), 5, minute, w_eff (st_world st)) (st_limiter st) =
    (rs_status resp \<noteq> 429, st_limiter st')"
proof -
  let ?key = "pair_key (client_ip r)"
  obtain ok retry st1 where c: "limit_call ?key 5 minute st = ((ok, retry), st1)" by (metis surj_pair)
  have key: "''ip:'' @ ''pair'' @ '':'' @ client_ip r = ?key" by (simp add: pair_key_def)
  have "rq_method r \<noteq> ''OPTIONS''" using assms(1) by (simp add: is_pair_request_def)
  then obtain resp0 where h: "limit_by_ip ''pair'' 5 minute (handle_pair s) None r st = (resp0, st')"
    and r: "rs_status resp = rs_status resp0"
    using assms(2) pair_route [OF assms(1)]
    by (auto simp: serve_def with_cors_def serve_mux_def Let_def split: prod.splits)
  have h': "(if ok then handle_pair s None r st1 else (write_rate_limited retry, st1)) = (resp0, st')"
    using h c by (simp add: limit_by_ip_def key del: append.simps split: if_splits)
  have "rs_status resp0 \<noteq> 429 \<longleftrightarrow> ok" "st_limiter st' = st_limiter st1"
    using h' handle_pair_status [of s None r st1] handlers_keep_limiter(8) [of s]
    by (auto simp: write_rate_limited_def write_error_def write_json_def Let_def keeps_limiter_def split: if_splits)
      (metis fst_conv snd_conv)+
  with limit_call_step(1) [OF c] r show ?thesis by simp
qed

end
