(* ===== verification/ServeProps.thy ===== *)
theory ServeProps
  imports ApiProps
begin

text \<open>
  The guarantees of the HTTP server as a whole, over single requests and over any sequence of
  them: access, pairing attempts, histories and uploads.
\<close>

section \<open>Sequences of requests\<close>

text \<open>
  Requests one after the other. Each finds the world outside as it then is: whatever else
  happens to the state file and the clock between two requests is in the worlds of the list.
\<close>

type_synonym visit = "call_env \<times> request \<times> world"

fun serve_run :: "server \<Rightarrow> stream \<Rightarrow> visit list \<Rightarrow> api_state \<Rightarrow> response list \<times> api_state" where
  "serve_run s events [] st = ([], st)"
| "serve_run s events ((env, r, w) # vs) st =
     (case serve s env events r (st\<lparr>st_world := w\<rparr>) of
        (resp, st) \<Rightarrow> (case serve_run s events vs st of (resps, st) \<Rightarrow> (resp # resps, st)))"

text \<open>A pairing request of a client that was not turned away by the limiter.\<close>

definition attempt :: "string \<Rightarrow> visit \<Rightarrow> response \<Rightarrow> bool" where
  "attempt ip v resp \<longleftrightarrow>
     is_pair_request (fst (snd v)) \<and> client_ip (fst (snd v)) = ip \<and> rs_status resp \<noteq> 429"

definition attempts :: "string \<Rightarrow> visit list \<Rightarrow> response list \<Rightarrow> nat" where
  "attempts ip vs resps = length (filter (\<lambda>(v, resp). attempt ip v resp) (zip vs resps))"

lemma attempts_Cons: "attempts ip (v # vs) (resp # resps) = (if attempt ip v resp then 1 else 0) + attempts ip vs resps"
  by (simp add: attempts_def)

text \<open>The pairing requests of a client fall into a window of the clock.\<close>

definition visit_in :: "string \<Rightarrow> go_time \<Rightarrow> int \<Rightarrow> visit \<Rightarrow> bool" where
  "visit_in ip t0 T v \<longleftrightarrow> (is_pair_request (fst (snd v)) \<and> client_ip (fst (snd v)) = ip \<longrightarrow>
     t0 \<le> clock (w_eff (snd (snd v))) 0 \<and> clock (w_eff (snd (snd v))) 0 \<le> t0 + T)"

lemma pair_key_inject [simp]: "pair_key a = pair_key b \<longleftrightarrow> a = b"
  by (simp add: pair_key_def)

text \<open>One request is one call of the limiter, counted under the key of its client.\<close>

lemma serve_limiter_call:
  assumes "serve s env events r (st\<lparr>st_world := w\<rparr>) = (resp, st')"
  shows "\<exists>c. snd (allow_step c (st_limiter st)) = st_limiter st' \<and>
    (fst c = pair_key ip \<longleftrightarrow> is_pair_request r \<and> client_ip r = ip) \<and>
    (fst c = pair_key ip \<longrightarrow> c = (pair_key ip, 5, minute, w_eff w) \<and>
       fst (allow_step c (st_limiter st)) = (rs_status resp \<noteq> 429))"
proof (cases "is_pair_request r")
  case True
  let ?c = "(pair_key (client_ip r), 5, minute, w_eff w)"
  have "allow_step ?c (st_limiter st) = (rs_status resp \<noteq> 429, st_limiter st')"
    using serve_limits_pair [OF True assms] by (simp del: allow_step.simps)
  then show ?thesis using True by (intro exI [of _ ?c]) (auto simp del: allow_step.simps)
next
  case False
  obtain c where "limits_as c (st_limiter st) (st_limiter st')" "\<forall>ip. fst c \<noteq> pair_key ip"
    using serve_limits_other [OF False assms] by auto
  then show ?thesis using False by (intro exI [of _ c]) (auto simp: limits_as_def)
qed

lemma serve_run_limiter:
  assumes "serve_run s events vs st = (resps, st')"
  shows "\<exists>cs oks. run_steps allow_step cs (st_limiter st) = (oks, st_limiter st') \<and> length cs = length vs \<and>
    (\<forall>c \<in> set cs. fst c = pair_key ip \<longrightarrow> fst (snd c) = 5 \<and> fst (snd (snd c)) = minute) \<and>
    ((\<forall>v \<in> set vs. visit_in ip t0 T v) \<longrightarrow> (\<forall>c \<in> set cs. window_call (pair_key ip) 5 minute t0 T c)) \<and>
    yes_count (\<lambda>c. fst c = pair_key ip) cs oks = attempts ip vs resps"
  using assms
proof (induction vs arbitrary: st resps)
  case Nil
  then show ?case by (intro exI [of _ "[]"]) (simp add: yes_count_def attempts_def)
next
  case (Cons v vs)
  obtain env r w where v: "v = (env, r, w)" by (cases v)
  obtain resp st1 where s1: "serve s env events r (st\<lparr>st_world := w\<rparr>) = (resp, st1)" by fastforce
  obtain resps1 where s2: "serve_run s events vs st1 = (resps1, st')" "resps = resp # resps1"
    using Cons.prems s1 by (auto simp: v split: prod.splits)
  obtain cs oks where IH: "run_steps allow_step cs (st_limiter st1) = (oks, st_limiter st')" "length cs = length vs"
    "\<forall>c \<in> set cs. fst c = pair_key ip \<longrightarrow> fst (snd c) = 5 \<and> fst (snd (snd c)) = minute"
    "(\<forall>v \<in> set vs. visit_in ip t0 T v) \<longrightarrow> (\<forall>c \<in> set cs. window_call (pair_key ip) 5 minute t0 T c)"
    "yes_count (\<lambda>c. fst c = pair_key ip) cs oks = attempts ip vs resps1"
    using Cons.IH [OF s2(1)] by blast
  obtain c where c: "snd (allow_step c (st_limiter st)) = st_limiter st1"
    "fst c = pair_key ip \<longleftrightarrow> is_pair_request r \<and> client_ip r = ip"
    "fst c = pair_key ip \<Longrightarrow> c = (pair_key ip, 5, minute, w_eff w)"
    "fst c = pair_key ip \<Longrightarrow> fst (allow_step c (st_limiter st)) = (rs_status resp \<noteq> 429)"
    using serve_limiter_call [OF s1, of ip] by blast
  obtain ok where ok: "allow_step c (st_limiter st) = (ok, st_limiter st1)" using c(1) by (metis prod.collapse)
  have "yes_count (\<lambda>c. fst c = pair_key ip) (c # cs) (ok # oks) = attempts ip (v # vs) resps"
    using c(2,4) ok IH(5) by (auto simp: yes_count_Cons attempts_Cons attempt_def v s2(2))
  moreover have "fst (snd c) = 5 \<and> fst (snd (snd c)) = minute" if "fst c = pair_key ip"
    using c(3) [OF that] by simp
  moreover have "window_call (pair_key ip) 5 minute t0 T c" if "visit_in ip t0 T v"
    using c(2,3) that by (cases c) (auto simp: window_call_def visit_in_def v)
  moreover have "run_steps allow_step (c # cs) (st_limiter st) = (ok # oks, st_limiter st')"
    using ok IH(1) by simp
  ultimately show ?case using IH(2-4) by (intro exI [of _ "c # cs"] exI [of _ "ok # oks"]) auto
qed

section \<open>Uploads and histories\<close>

text \<open>Worlds that differ in clock, random bytes and system calls to come: the state file is the same.\<close>

definition same_disk :: "world \<Rightarrow> world \<Rightarrow> bool" where
  "same_disk w w' \<longleftrightarrow> w_disk w' = w_disk w \<and> (no_faults w \<longrightarrow> no_faults w')"

lemma same_disk_trans: "same_disk u v \<Longrightarrow> same_disk v w \<Longrightarrow> same_disk u w"
  by (simp add: same_disk_def)

lemma same_disk_steps:
  "same_disk w w"
  "syscall w = (f, w') \<Longrightarrow> same_disk w w'"
  "with_eff m w = (a, w') \<Longrightarrow> same_disk w w'"
  "remove_file p (fs, w) = (fs', w') \<Longrightarrow> same_disk w w'"
  by (auto simp: same_disk_def syscall_def with_eff_def remove_file_def no_faults_def split: prod.splits option.splits)

lemma write_upload_disk:
  assumes "write_upload p body (fs, w) = (r, fs', w')"
  shows "same_disk w w'"
proof -
  obtain a v1 where 1: "syscall w = (a, v1)" by fastforce
  obtain b v2 where 2: "syscall v1 = (b, v2)" by fastforce
  obtain c v3 where 3: "syscall v2 = (c, v3)" by fastforce
  have s: "same_disk w v1" "same_disk w v2" "same_disk w v3"
    using same_disk_steps(2) [OF 1] same_disk_steps(2) [OF 2] same_disk_steps(2) [OF 3] same_disk_trans by blast+
  have "same_disk w (snd (remove_file p (gs, v)))" if "same_disk w v" for v gs
    using same_disk_trans [OF that same_disk_steps(4)] by (metis prod.collapse)
  then show ?thesis
    using assms s 1 2 3 by (auto simp: write_upload_def split: option.splits if_splits) (metis snd_conv)+
qed

lemma save_upload_disk:
  assumes "save_upload mt os filename mime_type body (fs, w) = (r, fs', w')"
  shows "same_disk w w'"
proof -
  obtain a v1 where 1: "syscall w = (a, v1)" by fastforce
  obtain n v2 where 2: "with_eff random_name v1 = (n, v2)" by fastforce
  have v: "same_disk w v1" "same_disk w v2"
    using same_disk_steps(2) [OF 1] same_disk_steps(3) [OF 2] same_disk_trans by blast+
  show ?thesis
  proof (cases "os = None \<or> sanitize_filename filename = [] \<or> a \<noteq> None")
    case True
    then show ?thesis using assms v 1 same_disk_steps(1)
      by (cases os; cases a; cases "sanitize_filename filename = []") (auto simp: save_upload_def Let_def)
  next
    case False
    then obtain s where s: "os = Some s" "sanitize_filename filename \<noteq> []" "a = None" by auto
    obtain u gs v3 where 3: "write_upload (path_join [as_tmp_dir s, n @ path_ext (sanitize_filename filename)]) body (fs, v2) = (u, gs, v3)"
      by (metis prod.collapse)
    then have "w' = v3" using assms s 1 2 by (auto simp: save_upload_def Let_def split: sum.splits)
    then show ?thesis using same_disk_trans [OF v(2) write_upload_disk [OF 3]] by simp
  qed
qed

lemma drop_upload_files: "no_faults (st_world st) \<Longrightarrow> st_files (drop_upload kept st) = (st_files st)(af_path kept := None)"
  using remove_file_healthy [of "st_world st" "af_path kept" "st_files st"] by (auto simp: drop_upload_def split: prod.split)

lemma on_effD:
  assumes "on_eff m st = (a, st')"
  shows "\<exists>e. m (w_eff (st_world st)) = (a, e) \<and> st' = st\<lparr>st_world := (st_world st)\<lparr>w_eff := e\<rparr>\<rparr>"
  using assms by (auto simp: on_eff_def with_eff_def split: prod.splits)

lemma decorate_clock:
  "clock (snd (decorate_attachments os as e)) = clock e"
  "clock (snd (decorate_messages os ms e)) = clock e"
proof -
  have en: "encode os a e = (r, e') \<Longrightarrow> clock e' = clock e" for os a r e e'
    by (auto simp: encode_def encode_descriptor_def rand_read_def split: option.splits if_splits)
  have a: "clock (snd (decorate_attachments os as e)) = clock e" for as e
    by (induction os as e rule: decorate_attachments.induct) (auto split: prod.splits sum.splits dest: en)
  show "clock (snd (decorate_attachments os as e)) = clock e" by (rule a)
  show "clock (snd (decorate_messages os ms e)) = clock e"
    by (induction ms arbitrary: e) (auto split: prod.splits, metis a snd_conv)
qed

lemma put_history_at: "(case cache_put chat_id opts ms c e of (c, e) \<Rightarrow> (((), c), e)) =
    (((), put_history (chat_id, opts) (clock e 0) ms c), snd (time_now e))"
  by (simp add: put_history_def cache_put_def time_now_def at_time_def Let_def)

lemma load_history_cases:
  assumes "load_history s env chat_id opts st = (resp, st')" and "\<forall>i. t0 \<le> clock (w_eff (st_world st)) i"
  shows "(\<exists>err. resp = write_error (status_for_err err) ''internal'' (error_text err) \<and> st_history st' = st_history st) \<or>
    (\<exists>ms t took. resp = write_json (history_headers ''miss'' took) 200 (messages_json ms) \<and> t0 \<le> t \<and>
       st_history st' = put_history (chat_id, opts) t ms (st_history st))"
proof (cases "list_messages (ce_exec env) (sr_runner s) chat_id opts")
  case (Inl err)
  then show ?thesis using assms(1) by (auto simp: load_history_def split: prod.splits dest: on_effD)
next
  case (Inr ms)
  obtain start st1 where a: "on_eff time_now st = (start, st1)" by fastforce
  define deco where "deco = (if sr_attachments s \<noteq> None \<and> lo_attachments opts
      then on_eff (decorate_messages (sr_attachments s) ms) st1 else (ms, st1))"
  obtain ms' st2 where b: "deco = (ms', st2)" by fastforce
  obtain u st3 where c: "on_history (\<lambda>c e. case cache_put chat_id opts ms' c e of (c, e) \<Rightarrow> (((), c), e)) st2 = (u, st3)"
    by (metis surj_pair)
  obtain now st4 where d: "on_eff time_now st3 = (now, st4)" by fastforce
  have out: "resp = write_json (history_headers ''miss'' (int_text (whole_millis (time_sub now start)))) 200 (messages_json ms')"
    "st' = st4"
    using assms(1) Inr a b [unfolded deco_def] c d by (auto simp: load_history_def)
  have 1: "st_history st1 = st_history st" "\<forall>i. t0 \<le> clock (w_eff (st_world st1)) i"
    using on_effD [OF a] assms(2) by (auto simp: time_now_def)
  have "st_history st2 = st_history st1 \<and> clock (w_eff (st_world st2)) = clock (w_eff (st_world st1))"
  proof (cases "sr_attachments s \<noteq> None \<and> lo_attachments opts")
    case True
    with b have "on_eff (decorate_messages (sr_attachments s) ms) st1 = (ms', st2)" by (simp add: deco_def)
    from on_effD [OF this] show ?thesis using decorate_clock(2) by (auto, metis snd_conv)
  qed (use b in \<open>auto simp: deco_def\<close>)
  moreover have "st_history st3 = put_history (chat_id, opts) (clock (w_eff (st_world st2)) 0) ms' (st_history st2)"
    using c unfolding on_history_def put_history_at by (auto split: prod.splits dest!: on_effD)
  moreover have "st_history st4 = st_history st3" using on_effD [OF d] by auto
  ultimately show ?thesis using 1 out by auto
qed

section \<open>A server to try\<close>

text \<open>A small daemon: imsg answers every command with nothing, and time stands still.\<close>

definition demo_server :: server where
  "demo_server = \<lparr>sr_cfg = \<lparr>ap_server_name = ''mac'', ap_tailscale_ip = [], ap_version = ''dev'', ap_started_at = 0\<rparr>,
     sr_pairing = Some (new_service \<lparr>tm_sign = (\<lambda>p. p), tm_verify = (\<lambda>p s. p = s)\<rparr>),
     sr_runner = \<lparr>rn_binary = ''imsg''\<rparr>, sr_webhooks = True, sr_attachments = Some cat_service\<rparr>"

definition demo_env :: call_env where
  "demo_env = \<lparr>ce_exec = (\<lambda>bin args. ExecOk []), ce_validator = new_validator (\<lambda>s. None) (\<lambda>h. Inl ''no such host''),
     ce_mime = \<lparr>mt_by_extension = (\<lambda>e. []), mt_detect = (\<lambda>b. ''text/plain'')\<rparr>\<rparr>"

definition quiet_state :: api_state where
  "quiet_state = \<lparr>st_world = calm_world, st_files = Map.empty, st_history = new_message_history_cache 0,
     st_limiter = new_rate_limiter\<rparr>"

lemma quiet_state_simps:
  "st_limiter quiet_state = new_rate_limiter" "st_files quiet_state = Map.empty" "st_world quiet_state = calm_world"
  "clock (w_eff calm_world) i = 0" "hc_ttl (st_history quiet_state) = 30 * minute"
  by (simp_all add: quiet_state_def calm_world_def at_zero_def new_message_history_cache_def)

definition demo_request :: "string \<Rightarrow> string list \<Rightarrow> request" where
  "demo_request m segs = \<lparr>rq_method = m, rq_segments = segs, rq_query = (\<lambda>k. []), rq_header = (\<lambda>k. []),
     rq_remote_addr = ''10.0.0.9:4711'', rq_body = [], rq_form = None\<rparr>"

definition no_stream :: stream where
  "no_stream ctx r = plain_error 400 ''Bad Request''"

section \<open>Uploads and histories of a request\<close>

lemma sent_upload:
  assumes "no_faults (st_world st)" and "handle_send_attachment s env ctx r st = (resp, st')"
  shows "st_files st' = st_files st \<and>
    (rs_status resp = 202 \<longrightarrow> (\<exists>sv form req result name. sr_attachments s = Some sv \<and> rq_form r = Some form \<and>
       send_attachment (ce_exec env) (sr_runner s) req = Inr result \<and> sar_to req = trim_space (fo_values form ''to'') \<and>
       name \<noteq> [] \<and> slash \<notin> set name \<and> sar_file_path req = path_join [as_tmp_dir sv, name] \<and>
       st_files st (sar_file_path req) = None))"
proof (cases "\<exists>form filename content_type body. rq_form r = Some form \<and> sr_attachments s \<noteq> None \<and>
    trim_space (fo_values form ''to'') \<noteq> [] \<and> known_service (service_of (fo_values form ''service'')) \<and>
    fo_file form = Some (filename, content_type, body)")
  case False
  then show ?thesis using assms(2)
    by (cases "rq_form r")
      (auto simp: handle_send_attachment_def Let_def write_error_def write_json_def bad_service_def
        split: if_splits option.splits)
next
  case True
  then obtain form filename content_type body where f: "rq_form r = Some form" "sr_attachments s \<noteq> None"
    "trim_space (fo_values form ''to'') \<noteq> []" "known_service (service_of (fo_values form ''service''))"
    "fo_file form = Some (filename, content_type, body)" by blast
  obtain res fs w where u: "save_upload (ce_mime env) (sr_attachments s) filename content_type body
      (st_files st, st_world st) = (res, fs, w)" by (metis surj_pair)
  have w: "no_faults w" using save_upload_disk [OF u] assms(1) by (simp add: same_disk_def)
  note cases = save_upload_cases [OF u]
  show ?thesis
  proof (cases res)
    case (Inl err)
    then show ?thesis using assms f u cases
      by (auto simp: handle_send_attachment_def on_files_def Let_def write_error_def write_json_def)
  next
    case (Inr kept)
    then obtain sv name where n: "sr_attachments s = Some sv" "name \<noteq> []" "slash \<notin> set name"
      "st_files st (af_path kept) = None" "af_path kept = path_join [as_tmp_dir sv, name]"
      "fs = (st_files st)(af_path kept \<mapsto> up_bytes body)"
      using cases by auto
    have d: "st_files (drop_upload kept (st\<lparr>st_files := fs, st_world := w\<rparr>)) = st_files st"
      using drop_upload_files [of "st\<lparr>st_files := fs, st_world := w\<rparr>" kept] w n(4,6) by (simp add: fun_upd_idem)
    let ?req = "\<lparr>sar_to = trim_space (fo_values form ''to''), sar_text = trim_space (fo_values form ''text''),
      sar_file_path = af_path kept, sar_service = service_of (fo_values form ''service'')\<rparr>"
    have out: "(resp, st') = (case send_attachment (ce_exec env) (sr_runner s) ?req of
        Inl err \<Rightarrow> (write_error (status_for_err err) ''internal'' (error_text err), drop_upload kept (st\<lparr>st_files := fs, st_world := w\<rparr>))
      | Inr result \<Rightarrow> (write_json [] 202 (attachment_result_json
           (result\<lparr>sax_attachment := fill_attachment kept (sax_attachment result)\<rparr>)), drop_upload kept (st\<lparr>st_files := fs, st_world := w\<rparr>)))"
      using assms(2) f u Inr by (simp add: handle_send_attachment_def on_files_def Let_def)
    have status: "status_for_err err \<noteq> 202" for err by (cases err) (simp_all add: status_for_err_def)
    show ?thesis
    proof (cases "send_attachment (ce_exec env) (sr_runner s) ?req")
      case (Inl err)
      then show ?thesis using out d status by (simp add: write_error_def write_json_def)
    next
      case (Inr result)
      then show ?thesis using out d n f(1) by (auto intro!: exI [of _ ?req])
    qed
  qed
qed

lemma served_again:
  assumes "history_request r = Inr (chat_id, opts)" and "handle_messages s env ctx r st = (resp, st1)"
    and "(''X-Bridge-History-Cache'', ''miss'') \<in> set (rs_headers resp)"
    and "\<forall>i. t0 \<le> clock (w_eff (st_world st)) i"
    and "history_request r2 = Inr (chat_id, opts2)" and "query_of chat_id opts2 = query_of chat_id opts"
    and "st_history st2 = st_history st1" and "clock (w_eff (st_world st2)) 0 \<le> t0 + hc_ttl (st_history st)"
  shows "\<exists>resp2 w. handle_messages s env2 ctx2 r2 st2 = (resp2, st2\<lparr>st_world := w\<rparr>) \<and>
    rs_status resp2 = 200 \<and> rs_body resp2 = rs_body resp"
proof -
  obtain cached st0 where g: "on_history (cache_get chat_id opts) st = (cached, st0)" by (metis surj_pair)
  have st0: "\<forall>i. t0 \<le> clock (w_eff (st_world st0)) i" "hc_ttl (st_history st0) = hc_ttl (st_history st)"
    using g assms(4)
    by (auto simp: on_history_def on_eff_def with_eff_def cache_get_def time_now_def Let_def split: option.splits if_splits prod.splits)
  have "cached = None"
    using assms(1-3) g by (cases cached) (auto simp: handle_messages_def write_json_def history_headers_def)
  then have l: "load_history s env chat_id opts st0 = (resp, st1)"
    using assms(1,2) g by (simp add: handle_messages_def)
  obtain ms t took where m: "resp = write_json (history_headers ''miss'' took) 200 (messages_json ms)" "t0 \<le> t"
    "st_history st1 = put_history (chat_id, opts) t ms (st_history st0)"
    using load_history_cases [OF l st0(1)] assms(3) by (auto simp: write_error_def write_json_def)
  have key: "message_history_key chat_id opts2 = message_history_key chat_id opts"
    using assms(6) by (auto simp: query_of_def message_history_key_def time_member_def split: option.splits)
  have "cache_get chat_id opts2 (st_history st2) (w_eff (st_world st2)) =
      ((Some ms, st_history st2), snd (time_now (w_eff (st_world st2))))"
    using assms(7,8) m(2,3) st0(2) key
    by (simp add: cache_get_def put_history_def cache_put_def time_now_def at_time_def Let_def)
  then have "\<exists>w. on_history (cache_get chat_id opts2) st2 = (Some ms, st2\<lparr>st_world := w\<rparr>)"
    by (cases st2) (auto simp: on_history_def on_eff_def with_eff_def)
  then obtain w where "on_history (cache_get chat_id opts2) st2 = (Some ms, st2\<lparr>st_world := w\<rparr>)" by blast
  then show ?thesis using assms(5) m(1) by (auto simp: handle_messages_def write_json_def)
qed

definition upload_request :: request where
  "upload_request = (demo_request ''POST'' [''v1'', ''attachments''])\<lparr>rq_form := Some
     \<lparr>fo_values = (\<lambda>k. if k = ''to'' then ''+15550100'' else []),
      fo_file = Some (''../cat.png'', [], \<lparr>up_bytes = ''abc'', up_error = None\<rparr>)\<rparr>\<rparr>"

lemma trim_nothing: "trim_space [] = []" "to_lower [] = []"
  by code_simp+

lemma demo_history_request:
  "history_request (demo_request ''GET'' [''v1'', ''chats'', ''3'', ''messages'']) =
     Inr (3, \<lparr>lo_limit = 50, lo_before = None, lo_after = None, lo_attachments = True\<rparr>)"
proof -
  have "parse_int64 ''3'' = Some 3" by code_simp
  then show ?thesis
    by (simp add: history_request_def demo_request_def path_id_def bounded_int_def time_param_def trim_nothing Let_def)
qed

lemma demo_miss:
  assumes "handle_messages demo_server demo_env None (demo_request ''GET'' [''v1'', ''chats'', ''3'', ''messages'']) quiet_state = (resp, st1)"
  shows "(''X-Bridge-History-Cache'', ''miss'') \<in> set (rs_headers resp)" "clock (w_eff (st_world st1)) 0 = 0"
proof -
  have "decode_lines item [] dst = Inr dst" for item :: "json \<Rightarrow> 'a option" and dst
    by (subst decode_lines.simps) (simp add: skip_ws_def)
  then have l: "list_messages (ce_exec demo_env) (sr_runner demo_server) 3 opts = Inr []" for opts
    by (simp add: list_messages_def run_def demo_env_def)
  show "(''X-Bridge-History-Cache'', ''miss'') \<in> set (rs_headers resp)" "clock (w_eff (st_world st1)) 0 = 0"
    using assms
    by (auto simp: handle_messages_def demo_history_request on_history_def on_eff_def with_eff_def cache_get_def
        quiet_state_def new_message_history_cache_def load_history_def l cache_put_def time_now_def calm_world_def
        at_zero_def write_json_def history_headers_def Let_def split: if_splits)
qed

section \<open>Properties\<close>

text \<open>
  C1. Nobody gets past the gate without a grant: for every protected call of the access policy
  the answer is 401 or 403 and the state file (the times of last visit apart), the upload
  directory, the history cache and the limiter are as before, unless the token is signed and
  unexpired, belongs to a registered client that is not revoked, and carries the scope the
  policy asks for.
\<close>

theorem access_needs_grant:
  assumes "(m, pat, scope) \<in> set access_policy" and "asks m pat r" and "sr_pairing s = Some sv"
    and "serve s env events r st = (resp, st')"
  shows "(\<exists>claims. admits sv (st_world st) (request_token r) claims \<and> scope \<in> set (tc_scopes claims)) \<or>
    rs_status resp \<in> {401, 403} \<and> untouched st st'"
  using access [OF assms] .

theorem access_needs_grant_witness:
  "rs_status (fst (serve demo_server demo_env no_stream (demo_request ''POST'' [''v1'', ''messages'']) quiet_state)) \<in> {401, 403}"
proof -
  let ?r = "demo_request ''POST'' [''v1'', ''messages'']"
  obtain resp st' where s: "serve demo_server demo_env no_stream ?r quiet_state = (resp, st')" by fastforce
  have p: "(''POST'', [Some ''v1'', Some ''messages''], ''send'') \<in> set access_policy" by (simp add: access_policy_def)
  have q: "asks ''POST'' [Some ''v1'', Some ''messages''] ?r"
    by (simp add: asks_def demo_request_def segment_matches_def)
  have t: "request_token ?r = []"
    by (simp add: request_token_def bearer_token_def demo_request_def url_path_def trim_nothing Let_def)
  have "\<not> admits sv w [] claims" for sv w claims
    by (simp add: admits_def signed_payload_def trim_nothing)
  moreover have "sr_pairing demo_server \<noteq> None" by (simp add: demo_server_def)
  ultimately show ?thesis using access_needs_grant [OF p q _ s] t by (auto simp: s)
qed

text \<open>
  C18. A client may try at most ten pairing codes in any minute: whatever requests were served
  since the start, and whatever others are served in between, of the pairing requests from one
  address whose call of the limiter reads the clock within a minute at most ten are not
  answered 429 (five from the full bucket and five from its refill), for up to
  2^30 requests.
\<close>

theorem pair_attempts_bounded:
  assumes "serve_run s events before st0 = (resps0, st)" and "st_limiter st0 = new_rate_limiter"
    and "serve_run s events vs st = (resps, st')"
    and "\<forall>v \<in> set vs. visit_in ip t0 minute v" and "length vs \<le> 2 ^ 30"
  shows "attempts ip vs resps \<le> 10"
proof -
  obtain cs0 oks0 where b: "run_steps allow_step cs0 new_rate_limiter = (oks0, st_limiter st)"
    "\<forall>c \<in> set cs0. fst c = pair_key ip \<longrightarrow> fst (snd c) = 5 \<and> fst (snd (snd c)) = minute"
    using serve_run_limiter [OF assms(1), of ip, unfolded assms(2)] by blast
  obtain cs oks where r: "run_steps allow_step cs (st_limiter st) = (oks, st_limiter st')" "length cs = length vs"
    "\<forall>c \<in> set cs. window_call (pair_key ip) 5 minute t0 minute c"
    "yes_count (\<lambda>c. fst c = pair_key ip) cs oks = attempts ip vs resps"
    using serve_run_limiter [OF assms(3), of ip t0 minute] assms(4) by blast
  let ?r = "rate_per_second 5 minute"
  have rate: "0 \<le> ?r" "?r \<le> 5 / 60 + (5 / 60 + 1) / 2 ^ 53" using minute_rate [of 5] by simp_all
  have w: "window_bounds 60 5 ?r minute" using rate by (simp add: window_bounds_def)
  have "of_nat (attempts ip vs resps) \<le> 5 + ?r * secs minute + of_nat (length vs) * (9 * 60\<^sup>2 / 2 ^ 53)"
    using window_bound [OF b(1) r(1) b(2) r(3) _ _ w] r(2,4) by (simp add: pair_key_def)
  also have "\<dots> \<le> 5 + ?r * 60 + 2 ^ 30 * (9 * 60\<^sup>2 / 2 ^ 53)"
  proof -
    have "(of_nat (length vs) :: rat) \<le> 2 ^ 30"
      using assms(5) by (metis of_nat_le_iff of_nat_numeral of_nat_power)
    then show ?thesis by simp
  qed
  also have "\<dots> < 11" using rate(2) by simp
  finally have "(of_nat (attempts ip vs resps) :: rat) < of_nat 11" by simp
  then show ?thesis unfolding of_nat_less_iff by simp
qed

definition pair_visit :: visit where
  "pair_visit = (demo_env, demo_request ''POST'' [''v1'', ''pair''], calm_world)"

theorem pair_attempts_bounded_witness:
  "attempts ''10.0.0.9'' (replicate 30 pair_visit) (fst (serve_run demo_server no_stream (replicate 30 pair_visit) quiet_state)) \<le> 10"
proof -
  obtain resps st' where r: "serve_run demo_server no_stream (replicate 30 pair_visit) quiet_state = (resps, st')" by fastforce
  have "\<forall>v \<in> set (replicate 30 pair_visit). visit_in ''10.0.0.9'' 0 minute v"
    by (simp add: visit_in_def pair_visit_def calm_world_def at_zero_def)
  from pair_attempts_bounded [OF serve_run.simps(1) _ r this] show ?thesis by (simp add: r quiet_state_simps)
qed



text \<open>
  A history is fetched once: after a miss that was answered, a request for the same query
  within the time to live gets the same body from the cache, whoever asks, and imsg is not run:
  its answer does not depend on what imsg would say.
\<close>

lemma history_served_again:
  assumes "history_request r = Inr (chat_id, opts)" and "handle_messages s env ctx r st = (resp, st1)"
    and "(''X-Bridge-History-Cache'', ''miss'') \<in> set (rs_headers resp)"
    and "\<forall>i. t0 \<le> clock (w_eff (st_world st)) i"
    and "history_request r2 = Inr (chat_id, opts2)" and "query_of chat_id opts2 = query_of chat_id opts"
    and "st_history st2 = st_history st1" and "clock (w_eff (st_world st2)) 0 \<le> t0 + hc_ttl (st_history st)"
  shows "\<exists>resp2 w. handle_messages s env2 ctx2 r2 st2 = (resp2, st2\<lparr>st_world := w\<rparr>) \<and>
    rs_status resp2 = 200 \<and> rs_body resp2 = rs_body resp"
  using served_again [OF assms(1-8)] .

lemma history_served_again_witness:
  "rs_status (fst (handle_messages demo_server demo_env None (demo_request ''GET'' [''v1'', ''chats'', ''3'', ''messages''])
     (snd (handle_messages demo_server demo_env None (demo_request ''GET'' [''v1'', ''chats'', ''3'', ''messages'']) quiet_state)))) = 200"
proof -
  let ?r = "demo_request ''GET'' [''v1'', ''chats'', ''3'', ''messages'']"
  obtain resp st1 where h: "handle_messages demo_server demo_env None ?r quiet_state = (resp, st1)" by fastforce
  note m = demo_miss [OF h]
  from history_served_again [OF demo_history_request h m(1) _ demo_history_request refl refl, of 0 demo_env None] m(2)
  show ?thesis by (auto simp: h quiet_state_simps)
qed

end
