(* ===== verification/CtlSock.thy ===== *)
theory CtlSock
  imports Api
begin

text \<open>
  The control socket (\<open>internal/ctlsock/server.go\<close>): one JSON request per connection, answered by
  one JSON document. The interface \<open>Admin\<close> and the function that makes the status are arguments of
  the handler; accepting connections is left out.
\<close>

section \<open>Requests and replies\<close>

record status =
  ss_server_name :: string
  ss_version :: string
  ss_imsg_version :: string
  ss_tailscale_ip :: string
  ss_pair_host :: string
  ss_tls_fingerprint :: string
  ss_uptime_seconds :: int
  ss_clients :: "client list"

definition status_json :: "status \<Rightarrow> json" where
  "status_json st = JObj
     ([(''server_name'', JStr (ss_server_name st)), (''version'', JStr (ss_version st)),
       (''imsg_version'', JStr (ss_imsg_version st))] @
      omit_empty (ss_tailscale_ip st = []) ''tailscale_ip'' (JStr (ss_tailscale_ip st)) @
      omit_empty (ss_pair_host st = []) ''pair_host'' (JStr (ss_pair_host st)) @
      omit_empty (ss_tls_fingerprint st = []) ''tls_fingerprint'' (JStr (ss_tls_fingerprint st)) @
      [(''uptime_seconds'', JInt (ss_uptime_seconds st))] @
      omit_empty (ss_clients st = []) ''clients'' (slice_json client_json (ss_clients st)))"

record ctl_request =
  cr_cmd :: string
  cr_ttl :: int
  cr_scopes :: "string list"
  cr_client_id :: string

text \<open>A field of type \<open>int\<close>, which has 64 bits.\<close>

definition int_field :: "((int \<Rightarrow> int) \<Rightarrow> 'r \<Rightarrow> 'r) \<Rightarrow> json \<Rightarrow> 'r \<Rightarrow> 'r option" where
  "int_field upd j r =
     (case j of JNull \<Rightarrow> Some r
      | JInt i \<Rightarrow> if in_int64 i then Some (upd (\<lambda>_. i) r) else None
      | _ \<Rightarrow> None)"

definition ctl_fields :: "ctl_request field list" where
  "ctl_fields =
     [(''cmd'', string_field cr_cmd_update), (''ttl'', int_field cr_ttl_update),
      (''scopes'', slice_field string_elem cr_scopes_update), (''client_id'', string_field cr_client_id_update)]"

definition ctl_request_of :: "string \<Rightarrow> ctl_request option" where
  "ctl_request_of sent =
     (case decode_first sent of None \<Rightarrow> None
      | Some (j, rest) \<Rightarrow>
          unmarshal_struct ctl_fields j \<lparr>cr_cmd = [], cr_ttl = 0, cr_scopes = [], cr_client_id = []\<rparr>)"

definition write_response :: "json \<Rightarrow> string" where
  "write_response j = json_text False j @ [CHR 0x0A]"

definition ctl_error :: "string \<Rightarrow> string" where
  "ctl_error message = write_response (JObj [(''error'', JStr message)])"

definition pairing_json :: "pairing_code \<Rightarrow> json" where
  "pairing_json g = JObj
     [(''code'', JStr (pg_code g)), (''expires_at'', JStr (fmt_rfc3339 (pg_expires_at g))),
      (''scopes'', slice_json JStr (pg_scopes g))]"

section \<open>The handler\<close>

text \<open>
  The first three arguments are the methods of \<open>Admin\<close>: \<open>GeneratePairingCode\<close>, \<open>ListClients\<close> and
  \<open>RevokeClient\<close>. The clients come from the state file, so their times have a text.
\<close>

definition handle_conn ::
  "(int \<Rightarrow> string list \<Rightarrow> pairing_code op) \<Rightarrow> client list op \<Rightarrow> (string \<Rightarrow> bool op) \<Rightarrow> status op \<Rightarrow>
   string \<Rightarrow> world \<Rightarrow> string \<times> world" where
  "handle_conn gen clients revoke status sent w =
     (case ctl_request_of sent of
        None \<Rightarrow> (ctl_error ''request body must be valid json'', w)
      | Some req \<Rightarrow>
          let cmd = trim_space (cr_cmd req) in
          if cmd = ''generate_pairing_code'' then
            (case gen (wrap_int64 (cr_ttl req * second)) (cr_scopes req) w of
               (Inl err, w) \<Rightarrow> (ctl_error (error_text err), w)
             | (Inr g, w) \<Rightarrow> (write_response (pairing_json g), w))
          else if cmd = ''status'' then
            (case status w of
               (Inl err, w) \<Rightarrow> (ctl_error (error_text err), w)
             | (Inr st, w) \<Rightarrow> (write_response (status_json st), w))
          else if cmd = ''list_clients'' then
            (case clients w of
               (Inl err, w) \<Rightarrow> (ctl_error (error_text err), w)
             | (Inr cs, w) \<Rightarrow> (write_response (JObj [(''clients'', slice_json client_json cs)]), w))
          else if cmd = ''revoke_client'' then
            (case revoke (cr_client_id req) w of
               (Inl err, w) \<Rightarrow> (ctl_error (error_text err), w)
             | (Inr ok, w) \<Rightarrow> (write_response (JObj [(''ok'', JBool ok)]), w))
          else (ctl_error ''unknown command'', w))"

lemma write_response_inject: "write_response j = write_response k \<Longrightarrow> writable j \<and> writable k \<longrightarrow> j = k"
  using json_text_inject [of j k False] by (simp add: write_response_def)

section \<open>The contract of the administrator\<close>

text \<open>
  What the control socket relies on: its operations are steps of the provider, by a relation on
  the state that composes, and looking changes nothing.
\<close>

locale administrator =
  fixes gen :: "int \<Rightarrow> string list \<Rightarrow> pairing_code op"
    and clients :: "client list op"
    and revoke :: "string \<Rightarrow> bool op"
    and reach :: "world \<Rightarrow> world \<Rightarrow> bool"
  assumes reach_same: "stored w' = stored w \<Longrightarrow> reach w w'"
    and gen_reach: "gen ttl scopes w = (r, w') \<Longrightarrow> reach w w'"
    and clients_same: "clients w = (rs, w') \<Longrightarrow> stored w' = stored w"
    and revoke_reach: "revoke cid w = (rb, w') \<Longrightarrow> reach w w'"
begin

lemma conn_reach:
  assumes "handle_conn gen clients revoke status sent w = (reply, w')"
    and "\<And>w r w'. status w = (r, w') \<Longrightarrow> stored w' = stored w"
  shows "reach w w'"
  using assms(1)
  by (auto simp: handle_conn_def Let_def reach_same split: option.splits prod.splits sum.splits if_splits
      intro: gen_reach revoke_reach dest: clients_same assms(2))

text \<open>A reply that a client was revoked is given only if it was.\<close>

lemma conn_revoked:
  assumes "handle_conn gen clients revoke status sent w = (reply, w')"
    and "ctl_request_of sent = Some req" and "trim_space (cr_cmd req) = ''revoke_client''"
    and "reply = write_response (JObj [(''ok'', JBool True)])"
  shows "revoke (cr_client_id req) w = (Inr True, w')"
  using assms
  by (auto simp: handle_conn_def ctl_error_def dest!: write_response_inject split: prod.splits sum.splits)

end

end
