(* ===== verification/AuthTrace.thy ===== *)
theory AuthTrace
  imports PairingProps
begin

text \<open>
  Runs of the pairing service: any sequence of its operations, with any arguments, interleaved
  with the other users of the state file, over any clock, random bytes and failing system
  calls. Two ghost sets record the claims of the tokens handed out and the claims that
  \<open>Authenticate\<close> returned to the HTTP gate, which are the ones an approval may be asked with.
  That Ed25519 signatures cannot be forged is the premise of the step for \<open>Authenticate\<close>: a
  token that verifies carries the claims of a token that was handed out.
\<close>

section \<open>Steps\<close>

datatype auth_event =
    CreateSession string string "session res"
  | GetSession string "session res"
  | ApproveSession string token_claims "string list" "session res"
  | Bootstrap string "string res"
  | GenerateCode int "string list" "pairing_code res"
  | PairDevice string string string "pair_result res"
  | Authenticate string "(auth_client \<times> token_claims) res"
  | ListClients "client list res"
  | Revoke string "bool res"
  | OtherUser

record auth_state =
  as_world :: world
  as_issued :: "token_claims set"
  as_seen :: "token_claims set"

text \<open>The claims a token is read as, if its signature verifies.\<close>

definition token_reading :: "auth_service \<Rightarrow> string \<Rightarrow> token_claims set" where
  "token_reading sv token =
     set_option (Option.bind (signed_payload (sv_tokens sv) (trim_space token)) parse_claims)"

definition handed_out :: "auth_service \<Rightarrow> ('a \<Rightarrow> string) \<Rightarrow> 'a res \<Rightarrow> token_claims set" where
  "handed_out sv token r = (case r of Inl e \<Rightarrow> {} | Inr a \<Rightarrow> token_reading sv (token a))"

text \<open>What the pairing service owns of the configuration.\<close>

definition auth_part :: "config \<Rightarrow> client list \<times> pending_pair_code list \<times> pending_session list" where
  "auth_part c = (cfg_clients c, cfg_pairing_codes c, cfg_sessions c)"

inductive auth_step :: "auth_service \<Rightarrow> auth_state \<Rightarrow> auth_event \<Rightarrow> auth_state \<Rightarrow> bool"
  for sv :: auth_service where
  create: "create_session sv name type (as_world s) = (r, w) \<Longrightarrow>
    auth_step sv s (CreateSession name type r) (s\<lparr>as_world := w\<rparr>)"
| get: "get_session sv sid (as_world s) = (r, w) \<Longrightarrow>
    auth_step sv s (GetSession sid r) (s\<lparr>as_world := w\<rparr>)"
| approve: "approver \<in> as_seen s \<Longrightarrow>
    approve_session sv sid approver scopes (as_world s) = (r, w) \<Longrightarrow>
    auth_step sv s (ApproveSession sid approver scopes r)
      (s\<lparr>as_world := w, as_issued := as_issued s \<union> handed_out sv sn_token r\<rparr>)"
| bootstrap: "ensure_bootstrap sv name (as_world s) = (r, w) \<Longrightarrow>
    auth_step sv s (Bootstrap name r) (s\<lparr>as_world := w\<rparr>)"
| generate: "generate_pairing_code sv ttl scopes (as_world s) = (r, w) \<Longrightarrow>
    auth_step sv s (GenerateCode ttl scopes r) (s\<lparr>as_world := w\<rparr>)"
| pair_device: "pair sv code name type (as_world s) = (r, w) \<Longrightarrow>
    auth_step sv s (PairDevice code name type r)
      (s\<lparr>as_world := w, as_issued := as_issued s \<union> handed_out sv pr_token r\<rparr>)"
| authenticated: "token_reading sv token \<subseteq> as_issued s \<Longrightarrow>
    authenticate sv token (as_world s) = (r, w) \<Longrightarrow>
    auth_step sv s (Authenticate token r)
      (s\<lparr>as_world := w, as_seen := as_seen s \<union> (case r of Inl e \<Rightarrow> {} | Inr (ac, claims) \<Rightarrow> {claims})\<rparr>)"
| list: "list_clients sv (as_world s) = (rs, w) \<Longrightarrow>
    auth_step sv s (ListClients rs) (s\<lparr>as_world := w\<rparr>)"
| revoke: "revoke_client sv cid (as_world s) = (rb, w) \<Longrightarrow>
    auth_step sv s (Revoke cid rb) (s\<lparr>as_world := w\<rparr>)"
| other: "map_option auth_part (stored w) = map_option auth_part (stored (as_world s)) \<Longrightarrow>
    auth_step sv s OtherUser (s\<lparr>as_world := w\<rparr>)"

inductive auth_run :: "auth_service \<Rightarrow> auth_state \<Rightarrow> auth_event list \<Rightarrow> auth_state \<Rightarrow> bool"
  for sv :: auth_service where
  run_Nil: "auth_run sv s [] s"
| run_Cons: "auth_step sv s l s1 \<Longrightarrow> auth_run sv s1 ls s2 \<Longrightarrow> auth_run sv s (l # ls) s2"

inductive_cases auth_run_ConsE: "auth_run sv s (l # ls) s'"
inductive_simps auth_run_Nil_iff [simp]: "auth_run sv s [] s'"
inductive_cases authenticate_stepE: "auth_step sv s (Authenticate token r) s'"
inductive_cases revoke_stepE: "auth_step sv s (Revoke cid r) s'"

lemma auth_run_append:
  "auth_run sv s (xs @ ys) s' \<Longrightarrow> \<exists>m. auth_run sv s xs m \<and> auth_run sv m ys s'"
proof (induction xs arbitrary: s)
  case (Cons x xs)
  then show ?case by (auto elim!: auth_run_ConsE intro: run_Cons) (metis run_Cons)
qed auto

text \<open>An invariant of the steps under a condition on the events is one of the runs.\<close>

lemma auth_run_invariant:
  assumes "auth_run sv s ls s'" and "P s" and "\<forall>l \<in> set ls. ok l"
    and "\<And>s l s'. auth_step sv s l s' \<Longrightarrow> P s \<Longrightarrow> ok l \<Longrightarrow> P s'"
  shows "P s'"
  using assms by (induction) auto

section \<open>What a step does to the state file\<close>

definition clients_of :: "auth_state \<Rightarrow> client list" where
  "clients_of s = (case stored (as_world s) of None \<Rightarrow> [] | Some c \<Rightarrow> cfg_clients c)"

definition codes_of :: "auth_state \<Rightarrow> pending_pair_code list" where
  "codes_of s = (case stored (as_world s) of None \<Rightarrow> [] | Some c \<Rightarrow> cfg_pairing_codes c)"

definition sessions_of :: "auth_state \<Rightarrow> pending_session list" where
  "sessions_of s = (case stored (as_world s) of None \<Rightarrow> [] | Some c \<Rightarrow> cfg_sessions c)"

lemmas state_parts = clients_of_def codes_of_def sessions_of_def

lemma parts_same:
  "stored (as_world s') = stored (as_world s) \<Longrightarrow>
     clients_of s' = clients_of s \<and> codes_of s' = codes_of s \<and> sessions_of s' = sessions_of s"
  by (simp add: state_parts)

text \<open>The client ids that the events of a run registered, in order.\<close>

fun registered :: "auth_event list \<Rightarrow> string list" where
  "registered [] = []"
| "registered (PairDevice code name type (Inr r) # ls) = pr_client_id r # registered ls"
| "registered (ApproveSession sid approver scopes (Inr r) # ls) = sn_client_id r # registered ls"
| "registered (_ # ls) = registered ls"

lemma registered_Cons: "registered (l # ls) = registered [l] @ registered ls"
  by (cases "[l]" rule: registered.cases) auto

lemma registered_append: "registered (xs @ ys) = registered xs @ registered ys"
  by (induction xs rule: registered.induct) simp_all

text \<open>
  How the client list changes in one step: new clients at its end, or the last-seen time or
  the revoked flag of one client.
\<close>

definition clients_change :: "auth_event \<Rightarrow> client list \<Rightarrow> client list \<Rightarrow> bool" where
  "clients_change l xs ys \<longleftrightarrow>
     (ys = xs \<and> registered [l] = []) \<or>
     (\<exists>x. ys = xs @ [x] \<and> registered [l] = [cl_id x] \<and> \<not> cl_revoked x) \<or>
     (\<exists>i now. i < length xs \<and> ys = xs[i := (xs ! i)\<lparr>cl_last_seen := now\<rparr>] \<and> registered [l] = []) \<or>
     (\<exists>i cid. l = Revoke cid (Inr True) \<and> i < length xs \<and> cl_id (xs ! i) = trim_space cid \<and>
        ys = xs[i := (xs ! i)\<lparr>cl_revoked := True\<rparr>])"

lemma auth_part_parts:
  "map_option auth_part (stored w) = map_option auth_part (stored (as_world s)) \<Longrightarrow>
     clients_of (s\<lparr>as_world := w\<rparr>) = clients_of s \<and> codes_of (s\<lparr>as_world := w\<rparr>) = codes_of s \<and>
     sessions_of (s\<lparr>as_world := w\<rparr>) = sessions_of s"
  by (auto simp: state_parts auth_part_def split: option.splits)

lemma step_clients:
  assumes "auth_step sv s l s'"
  shows "clients_change l (clients_of s) (clients_of s')"
  using assms
proof cases
  case (create name type r w)
  from create(3) show ?thesis
    by (cases rule: create_session_cases) (use create in \<open>simp_all add: clients_change_def clients_of_def\<close>)
next
  case (get sid r w)
  then show ?thesis
    using read_only_cases(1) [OF get(3)] by (simp add: clients_change_def clients_of_def)
next
  case (approve approver sid scopes r w)
  from approve(4) show ?thesis
    by (cases rule: approve_session_cases)
      (use approve in \<open>simp_all add: clients_change_def clients_of_def new_client_def session_of_def\<close>)
next
  case (bootstrap name r w)
  from bootstrap(3) show ?thesis
  proof (cases rule: ensure_bootstrap_cases)
    case (committed c0 code c1 e')
    from committed(4) have "cfg_clients c1 = cfg_clients c0"
      by (cases rule: bootstrap_fn_cases) auto
    with bootstrap committed show ?thesis by (simp add: clients_change_def clients_of_def)
  qed (use bootstrap in \<open>simp add: clients_change_def clients_of_def\<close>)
next
  case (generate ttl scopes r w)
  from generate(3) show ?thesis
    by (cases rule: generate_pairing_code_cases)
      (use generate in \<open>simp_all add: clients_change_def clients_of_def\<close>)
next
  case (pair_device code name type r w)
  from pair_device(3) show ?thesis
    by (cases rule: pair_cases)
      (use pair_device in \<open>simp_all add: clients_change_def clients_of_def new_client_def\<close>)
next
  case (authenticated token r w)
  from authenticated(4) show ?thesis
  proof (cases rule: authenticate_cases)
    case (found claims c0 i c now)
    have "i < length (cfg_clients c0)" using index_of_SomeD [OF found(5)] by simp
    with authenticated found show ?thesis
      by (auto simp: clients_change_def clients_of_def)
  qed (use authenticated in \<open>simp add: clients_change_def clients_of_def\<close>)
next
  case (list rs w)
  then show ?thesis
    using read_only_cases(2) [OF list(3)] by (simp add: clients_change_def clients_of_def)
next
  case (revoke cid rb w)
  from revoke(3) show ?thesis
  proof (cases rule: revoke_client_cases)
    case (revoked c0 i)
    with revoke index_of_SomeD [OF revoked(3)] show ?thesis
      by (auto simp: clients_change_def clients_of_def)
  qed (use revoke in \<open>simp add: clients_change_def clients_of_def\<close>)
next
  case (other w)
  then show ?thesis using auth_part_parts by (simp add: clients_change_def)
qed

section \<open>Clients over a run\<close>

lemma map_update_same: "f y = f (xs ! i) \<Longrightarrow> map f (xs[i := y]) = map f xs"
  by (metis list_update_id map_update)

lemma clients_change_ids:
  "clients_change l xs ys \<Longrightarrow> map cl_id ys = map cl_id xs @ registered [l]"
  by (auto simp: clients_change_def map_update_same)

lemma run_ids:
  "auth_run sv s ls s' \<Longrightarrow> map cl_id (clients_of s') = map cl_id (clients_of s) @ registered ls"
proof (induction rule: auth_run.induct)
  case (run_Cons s l s1 ls s2)
  then show ?case
    using clients_change_ids [OF step_clients] registered_Cons [of l ls] by force
qed simp

text \<open>No active client has the id.\<close>

definition shut_out :: "string \<Rightarrow> auth_state \<Rightarrow> bool" where
  "shut_out cid s \<longleftrightarrow> (\<forall>x \<in> set (clients_of s). cl_id x = cid \<longrightarrow> cl_revoked x)"

lemma clients_change_shut_out:
  assumes "clients_change l xs ys" and "cid \<notin> set (registered [l])"
    and "\<forall>x \<in> set xs. cl_id x = cid \<longrightarrow> cl_revoked x"
  shows "\<forall>x \<in> set ys. cl_id x = cid \<longrightarrow> cl_revoked x"
proof -
  have keep: "\<forall>x \<in> set (xs[i := y]). cl_id x = cid \<longrightarrow> cl_revoked x"
    if "i < length xs" "cl_id y = cl_id (xs ! i)" "cl_revoked (xs ! i) \<longrightarrow> cl_revoked y" for i y
  proof
    fix x assume "x \<in> set (xs[i := y])"
    then have "x = y \<or> x \<in> set xs" using set_update_subset_insert [of xs i y] by auto
    moreover have "cl_id y = cid \<longrightarrow> cl_revoked y"
      using that(2,3) bspec [OF assms(3) nth_mem [OF that(1)]] by simp
    ultimately show "cl_id x = cid \<longrightarrow> cl_revoked x" using assms(3) by blast
  qed
  from assms(1) consider "ys = xs" | x where "ys = xs @ [x]" "registered [l] = [cl_id x]"
    | i now where "i < length xs" "ys = xs[i := (xs ! i)\<lparr>cl_last_seen := now\<rparr>]"
    | i where "i < length xs" "ys = xs[i := (xs ! i)\<lparr>cl_revoked := True\<rparr>]"
    unfolding clients_change_def by blast
  then show ?thesis
  proof cases
    case 3
    show ?thesis unfolding 3(2) by (rule keep [OF 3(1)]) simp_all
  next
    case 4
    show ?thesis unfolding 4(2) by (rule keep [OF 4(1)]) simp_all
  qed (use assms(2,3) in auto)
qed

lemma step_shut_out:
  "auth_step sv s l s' \<Longrightarrow> shut_out cid s \<Longrightarrow> cid \<notin> set (registered [l]) \<Longrightarrow> shut_out cid s'"
  using clients_change_shut_out [OF step_clients] by (simp add: shut_out_def)

lemma run_shut_out:
  "auth_run sv s ls s' \<Longrightarrow> shut_out cid s \<Longrightarrow> cid \<notin> set (registered ls) \<Longrightarrow>
     shut_out cid s' \<and>
     (\<forall>token ac claims. Authenticate token (Inr (ac, claims)) \<in> set ls \<longrightarrow> ac_id ac \<noteq> cid)"
proof (induction rule: auth_run.induct)
  case (run_Cons s l s1 ls s2)
  have fresh: "cid \<notin> set (registered [l])" "cid \<notin> set (registered ls)"
    using run_Cons.prems(2) registered_Cons [of l ls] by auto
  have "ac_id ac \<noteq> cid" if l: "l = Authenticate token (Inr (ac, claims))" for token ac claims
  proof -
    from run_Cons.hyps(1) [unfolded l] obtain w
      where "authenticate sv token (as_world s) = (Inr (ac, claims), w)"
      by (rule authenticate_stepE) auto
    then show ?thesis
    proof (cases rule: authenticate_cases)
      case (found claims' c0 i c now)
      then show ?thesis
        using run_Cons.prems(1) by (auto simp: shut_out_def clients_of_def matches_claims_def)
    qed simp
  qed
  moreover have "shut_out cid s2"
    "Authenticate token (Inr (ac, claims)) \<in> set ls \<Longrightarrow> ac_id ac \<noteq> cid" for token ac claims
    using run_Cons.IH step_shut_out [OF run_Cons.hyps(1) run_Cons.prems(1) fresh(1)] fresh(2) by blast+
  ultimately show ?case by auto
qed simp

lemma in_set_update:
  "x \<in> set (xs[i := y]) \<Longrightarrow> x = y \<or> (\<exists>j < length xs. j \<noteq> i \<and> x = xs ! j)"
  by (metis in_set_conv_nth length_list_update nth_list_update_eq nth_list_update_neq)

lemma revoke_shuts_out:
  assumes "auth_step sv s (Revoke cid (Inr True)) s'" and "distinct (map cl_id (clients_of s))"
  shows "shut_out (trim_space cid) s'"
proof -
  from assms(1) obtain w where r: "revoke_client sv cid (as_world s) = (Inr True, w)"
    "s' = s\<lparr>as_world := w\<rparr>" by (rule revoke_stepE) auto
  from r(1) show ?thesis
  proof (cases rule: revoke_client_cases)
    case (revoked c0 i)
    note i = index_of_SomeD [OF revoked(3)]
    let ?xs = "cfg_clients c0"
    have xs: "clients_of s = ?xs" using revoked(1) by (simp add: clients_of_def)
    have "cl_revoked x" if "x \<in> set (?xs[i := (?xs ! i)\<lparr>cl_revoked := True\<rparr>])"
      "cl_id x = trim_space cid" for x
      using in_set_update [OF that(1)]
    proof (elim disjE exE conjE)
      fix j assume j: "j < length ?xs" "j \<noteq> i" "x = ?xs ! j"
      then have "map cl_id ?xs ! j = map cl_id ?xs ! i" using that(2) i by simp
      moreover have "distinct (map cl_id ?xs)" using assms(2) xs by simp
      ultimately have "j = i"
        using j(1) i nth_eq_iff_index_eq [of "map cl_id ?xs" j i] by (simp only: length_map)
      with j(2) show ?thesis by simp
    qed simp
    then show ?thesis using revoked(5) r(2) by (simp add: shut_out_def clients_of_def)
  qed simp
qed

section \<open>Codes over a run\<close>

text \<open>How often a code was redeemed in a run, and how often one was offered.\<close>

fun redeemed :: "string \<Rightarrow> auth_event list \<Rightarrow> nat" where
  "redeemed code [] = 0"
| "redeemed code (PairDevice typed name type (Inr r) # ls) =
     (if to_upper (trim_space typed) = code then Suc (redeemed code ls) else redeemed code ls)"
| "redeemed code (_ # ls) = redeemed code ls"

fun offered :: "string \<Rightarrow> auth_event list \<Rightarrow> nat" where
  "offered code [] = 0"
| "offered code (GenerateCode ttl scopes (Inr g) # ls) =
     (if pg_code g = code then Suc (offered code ls) else offered code ls)"
| "offered code (Bootstrap name (Inr c) # ls) =
     (if c = code then Suc (offered code ls) else offered code ls)"
| "offered code (_ # ls) = offered code ls"

definition pending :: "string \<Rightarrow> auth_state \<Rightarrow> nat" where
  "pending code s = count_list (map pc_code (codes_of s)) code"

lemma redeemed_Cons: "redeemed code (l # ls) = redeemed code [l] + redeemed code ls"
  by (cases "(code, [l])" rule: redeemed.cases) auto

lemma offered_Cons: "offered code (l # ls) = offered code [l] + offered code ls"
  by (cases "(code, [l])" rule: offered.cases) auto

lemma pending_live:
  "count_list (map pc_code (live_codes now c)) code \<le> count_list (map pc_code (cfg_pairing_codes c)) code"
proof -
  have "count_list (map pc_code (filter P xs)) code \<le> count_list (map pc_code xs) code" for P xs
    by (induction xs) auto
  then show ?thesis by (simp add: live_codes_def)
qed

lemma count_remove_at:
  assumes "i < length xs"
  shows "count_list (map f xs) y = count_list (map f (remove_at i xs)) y + (if f (xs ! i) = y then 1 else 0)"
  unfolding remove_at_def by (subst id_take_nth_drop [OF assms]) simp

lemma step_pending:
  assumes "auth_step sv s l s'"
  shows "redeemed code [l] + pending code s' \<le> pending code s + offered code [l]"
  using assms
proof cases
  case (create name type r w)
  from create(3) show ?thesis
    by (cases rule: create_session_cases)
      (use create pending_live in \<open>simp_all add: pending_def codes_of_def\<close>)
next
  case (get sid r w)
  then show ?thesis
    using read_only_cases(1) [OF get(3)] by (simp add: pending_def codes_of_def)
next
  case (approve approver sid scopes r w)
  from approve(4) show ?thesis
    by (cases rule: approve_session_cases) (use approve in \<open>simp_all add: pending_def codes_of_def\<close>)
next
  case (bootstrap name r w)
  from bootstrap(3) show ?thesis
  proof (cases rule: ensure_bootstrap_cases)
    case (committed c0 created c1 e')
    note b = bootstrap committed(1-3) pending_live [of "clock (w_eff (as_world s)) 0" c0 code]
    from committed(4) show ?thesis
      by (cases rule: bootstrap_fn_cases) (use b in \<open>simp_all add: pending_def codes_of_def\<close>)
  qed (use bootstrap in \<open>simp add: pending_def codes_of_def\<close>)
next
  case (generate ttl scopes r w)
  from generate(3) show ?thesis
    by (cases rule: generate_pairing_code_cases)
      (use generate pending_live in \<open>simp_all add: pending_def codes_of_def\<close>)
next
  case (pair_device typed name type r w)
  from pair_device(3) show ?thesis
  proof (cases rule: pair_cases)
    case (paired c0 i p cid token claims)
    note i = index_of_SomeD [OF paired(5)]
    show ?thesis
      using pair_device paired i count_remove_at [of i "live_codes (clock (w_eff (as_world s)) 0) c0" pc_code code]
        pending_live [of "clock (w_eff (as_world s)) 0" c0 code]
      by (auto simp: pending_def codes_of_def)
  qed (use pair_device in \<open>simp add: pending_def codes_of_def\<close>)
next
  case (authenticated token r w)
  from authenticated(4) show ?thesis
    by (cases rule: authenticate_cases) (use authenticated in \<open>simp_all add: pending_def codes_of_def\<close>)
next
  case (list rs w)
  then show ?thesis
    using read_only_cases(2) [OF list(3)] by (simp add: pending_def codes_of_def)
next
  case (revoke cid rb w)
  from revoke(3) show ?thesis
    by (cases rule: revoke_client_cases) (use revoke in \<open>simp_all add: pending_def codes_of_def\<close>)
next
  case (other w)
  then show ?thesis using auth_part_parts by (simp add: pending_def)
qed

lemma run_pending:
  "auth_run sv s ls s' \<Longrightarrow> redeemed code ls + pending code s' \<le> pending code s + offered code ls"
proof (induction rule: auth_run.induct)
  case (run_Cons s l s1 ls s2)
  then show ?case
    using step_pending [OF run_Cons.hyps(1), of code] redeemed_Cons [of code l ls]
      offered_Cons [of code l ls] by simp
qed simp

section \<open>Scopes over a run\<close>

definition within :: "string set \<Rightarrow> string list \<Rightarrow> bool" where
  "within S scopes \<longleftrightarrow> set (clean_scopes scopes) \<subseteq> S"

definition confined :: "string set \<Rightarrow> auth_state \<Rightarrow> bool" where
  "confined S s \<longleftrightarrow>
     (\<forall>x \<in> set (clients_of s). within S (cl_scopes x)) \<and>
     (\<forall>p \<in> set (codes_of s). within S (pc_scopes p)) \<and>
     (\<forall>claims \<in> as_issued s \<union> as_seen s. set (tc_scopes claims) \<subseteq> S)"

text \<open>Codes are asked for within \<open>S\<close>.\<close>

fun asks_within :: "string set \<Rightarrow> auth_event \<Rightarrow> bool" where
  "asks_within S (GenerateCode ttl scopes r) \<longleftrightarrow> within S scopes"
| "asks_within S _ \<longleftrightarrow> True"

lemma within_clean [simp]: "within S (clean_scopes scopes) \<longleftrightarrow> within S scopes"
  by (simp add: within_def)

lemma token_reading_token_of: "token_reading sv (token_of (sv_tokens sv) claims) \<subseteq> {claims}"
  by (auto simp: token_reading_def signed_payload_def token_of_def [symmetric] bind_eq_Some_conv
      split: option.splits if_splits)
    (auto simp: token_of_def cut_at_append b64_encode_no_dot split: if_splits)

lemma handed_out_grant:
  "grants sv scopes ttl e cid token claims \<Longrightarrow> token_reading sv token \<subseteq> {claims}"
  using token_reading_token_of by (simp add: grants_def)

lemma within_asked: "set (asked_scopes scopes) \<subseteq> S \<Longrightarrow> within S (asked_scopes scopes)"
proof -
  assume a: "set (asked_scopes scopes) \<subseteq> S"
  have "clean_scopes [''read'', ''send''] = [''read'', ''send'']" by code_simp
  then have "clean_scopes (asked_scopes scopes) = asked_scopes scopes" by (simp add: asked_scopes_def)
  with a show ?thesis by (simp add: within_def)
qed

lemma confinedD:
  assumes "confined S s" and "stored (as_world s) = Some c"
  shows "x \<in> set (cfg_clients c) \<Longrightarrow> within S (cl_scopes x)"
    "p \<in> set (cfg_pairing_codes c) \<Longrightarrow> within S (pc_scopes p)"
    "claims \<in> as_issued s \<Longrightarrow> set (tc_scopes claims) \<subseteq> S"
    "claims \<in> as_seen s \<Longrightarrow> set (tc_scopes claims) \<subseteq> S"
  using assms by (auto simp: confined_def clients_of_def codes_of_def)

lemma confined_parts:
  "confined S s \<Longrightarrow> clients_of s' = clients_of s \<Longrightarrow> codes_of s' = codes_of s \<Longrightarrow>
     \<forall>claims \<in> as_issued s' \<union> as_seen s'. claims \<in> as_issued s \<union> as_seen s \<or> set (tc_scopes claims) \<subseteq> S \<Longrightarrow>
     confined S s'"
  by (simp add: confined_def) blast

lemma confined_stored:
  assumes "confined S s" and "stored (as_world s) = Some c0" and "stored (as_world s') = Some c"
    and "\<And>x. x \<in> set (cfg_clients c) \<Longrightarrow>
      (\<exists>y \<in> set (cfg_clients c0). cl_scopes x = cl_scopes y) \<or> within S (cl_scopes x)"
    and "\<And>p. p \<in> set (cfg_pairing_codes c) \<Longrightarrow> p \<in> set (cfg_pairing_codes c0) \<or> within S (pc_scopes p)"
    and "\<And>claims. claims \<in> as_issued s' \<union> as_seen s' \<Longrightarrow>
      claims \<in> as_issued s \<union> as_seen s \<or> set (tc_scopes claims) \<subseteq> S"
  shows "confined S s'"
proof -
  have "within S (cl_scopes x)" if "x \<in> set (clients_of s')" for x
    using that assms(4) [of x] confinedD(1) [OF assms(1,2)] assms(3) by (auto simp: clients_of_def)
  moreover have "within S (pc_scopes p)" if "p \<in> set (codes_of s')" for p
    using that assms(5) [of p] confinedD(2) [OF assms(1,2)] assms(3) by (auto simp: codes_of_def)
  moreover have "set (tc_scopes claims) \<subseteq> S" if "claims \<in> as_issued s' \<union> as_seen s'" for claims
    using assms(6) [OF that] confinedD(3,4) [OF assms(1,2)] by blast
  ultimately show ?thesis by (simp add: confined_def)
qed

lemma step_confined:
  assumes "auth_step sv s l s'" and "confined S s" and "asks_within S l"
    and "within S (sv_default_scope sv)"
  shows "confined S s'"
  using assms(1)
proof cases
  case (create name type r w)
  from create(3) show ?thesis
  proof (cases rule: create_session_cases)
    case (created c0 x t1 t2)
    show ?thesis
      by (rule confined_stored [OF assms(2) created(1)])
        (use create created in \<open>auto dest: subsetD [OF set_live_codes]\<close>)
  qed (rule confined_parts [OF assms(2)], use create in \<open>auto simp: state_parts\<close>)
next
  case (get sid r w)
  show ?thesis
    by (rule confined_parts [OF assms(2)])
      (use get read_only_cases(1) [OF get(3)] in \<open>auto simp: state_parts\<close>)
next
  case (approve approver sid scopes r w)
  from approve(4) show ?thesis
  proof (cases rule: approve_session_cases)
    case (approved requested c0 i p p' cid token claims)
    have S: "set requested \<subseteq> S"
      using approved(2) confinedD(4) [OF assms(2) approved(3) approve(3)] by blast
    then have req: "within S requested" "clean_scopes requested = requested"
      using within_asked approved(1) by (auto simp: asked_scopes_def) code_simp
    have new: "handed_out sv sn_token r \<subseteq> {claims}"
      using handed_out_grant [OF approved(7)] approved(8,9)
      by (simp add: handed_out_def session_of_def)
    have sc: "set (tc_scopes claims) \<subseteq> S"
      using approved(7) S req(2) by (simp add: grants_def)
    show ?thesis
      by (rule confined_stored [OF assms(2) approved(3)])
        (use approve approved(10) new sc req in \<open>auto simp: new_client_def\<close>)
  next
    case forbidden
    show ?thesis
      by (rule confined_parts [OF assms(2)]) (use approve forbidden in \<open>auto simp: state_parts handed_out_def\<close>)
  next
    case (failed err)
    show ?thesis
      by (rule confined_parts [OF assms(2)]) (use approve failed in \<open>auto simp: state_parts handed_out_def\<close>)
  qed
next
  case (bootstrap name r w)
  from bootstrap(3) show ?thesis
  proof (cases rule: ensure_bootstrap_cases)
    case (committed c0 code c1 e')
    note live = set_live_codes [of "clock (w_eff (as_world s)) 0" c0]
    from committed(4) have "cfg_clients c1 = cfg_clients c0 \<and>
      (\<forall>p \<in> set (cfg_pairing_codes c1). p \<in> set (cfg_pairing_codes c0) \<or> pc_scopes p = sv_default_scope sv)"
      by (cases rule: bootstrap_fn_cases) (use live in auto)
    then show ?thesis
      by (intro confined_stored [OF assms(2) committed(1)]) (use bootstrap committed(3) assms(4) in auto)
  qed (rule confined_parts [OF assms(2)], use bootstrap in \<open>auto simp: state_parts\<close>)
next
  case (generate ttl scopes r w)
  from generate(3) show ?thesis
  proof (cases rule: generate_pairing_code_cases)
    case (generated c0 g)
    have "within S (pg_scopes g)" using generated(4) assms(3,4) generate(1) by simp
    then show ?thesis
      by (intro confined_stored [OF assms(2) generated(1)])
        (use generate generated(6) in \<open>auto dest: subsetD [OF set_live_codes]\<close>)
  qed (rule confined_parts [OF assms(2)], use generate in \<open>auto simp: state_parts\<close>)
next
  case (pair_device code name type r w)
  from pair_device(3) show ?thesis
  proof (cases rule: pair_cases)
    case (paired c0 i p cid token claims)
    have "p \<in> set (cfg_pairing_codes c0)"
      using subsetD [OF set_live_codes index_of_nth_mem [OF paired(5)]] paired(6) by simp
    then have p: "within S (pc_scopes p)" using confinedD(2) [OF assms(2) paired(1)] by blast
    have new: "handed_out sv pr_token r \<subseteq> {claims}"
      using handed_out_grant [OF paired(7)] paired(8) by (simp add: handed_out_def)
    have sc: "set (tc_scopes claims) \<subseteq> S"
      using paired(7) p by (simp add: grants_def within_def)
    have st: "stored (as_world s') =
      Some (c0\<lparr>cfg_pairing_codes := remove_at i (live_codes (clock (w_eff (as_world s)) 0) c0),
         cfg_clients := cfg_clients c0 @
           [new_client cid (trim_space name) (trim_space type) (pc_scopes p) claims
              (clock (w_eff (as_world s)) 0)]\<rparr>)"
      using pair_device(2) paired(9) by simp
    have codes: "q \<in> set (cfg_pairing_codes c0)" if "q \<in> set (remove_at i (live_codes t c0))" for q t
      by (rule subsetD [OF set_live_codes subsetD [OF set_remove_at that]])
    show ?thesis
    proof (rule confined_stored [OF assms(2) paired(1) st])
      fix x assume "x \<in> set (cfg_clients (c0\<lparr>cfg_pairing_codes :=
          remove_at i (live_codes (clock (w_eff (as_world s)) 0) c0),
         cfg_clients := cfg_clients c0 @
           [new_client cid (trim_space name) (trim_space type) (pc_scopes p) claims
              (clock (w_eff (as_world s)) 0)]\<rparr>))"
      then show "(\<exists>y \<in> set (cfg_clients c0). cl_scopes x = cl_scopes y) \<or> within S (cl_scopes x)"
        using p by (auto simp: new_client_def)
    qed (use codes pair_device(2) new sc in auto)
  qed (rule confined_parts [OF assms(2)], use pair_device in \<open>auto simp: state_parts handed_out_def\<close>)
next
  case (authenticated token r w)
  from authenticated(4) show ?thesis
  proof (cases rule: authenticate_cases)
    case (found claims c0 i c now)
    have "claims \<in> as_issued s" using authenticated(3) found(2) by (auto simp: token_reading_def)
    then have sc: "set (tc_scopes claims) \<subseteq> S" using confinedD(3) [OF assms(2) found(4)] by blast
    have cl: "\<exists>y \<in> set (cfg_clients c0). cl_scopes x = cl_scopes y"
      if "x \<in> set ((cfg_clients c0)[i := c\<lparr>cl_last_seen := now\<rparr>])" for x
      using in_set_update [OF that] found(8) by auto
    show ?thesis
      by (rule confined_stored [OF assms(2) found(4)])
        (use authenticated found(9,10) sc cl in auto)
  qed (rule confined_parts [OF assms(2)], use authenticated in \<open>auto simp: state_parts\<close>)
next
  case (list rs w)
  show ?thesis
    by (rule confined_parts [OF assms(2)])
      (use list read_only_cases(2) [OF list(3)] in \<open>auto simp: state_parts\<close>)
next
  case (revoke cid rb w)
  from revoke(3) show ?thesis
  proof (cases rule: revoke_client_cases)
    case (revoked c0 i)
    have "cfg_clients c0 ! i \<in> set (cfg_clients c0)" using index_of_nth_mem [OF revoked(3)] .
    then have cl: "\<exists>y \<in> set (cfg_clients c0). cl_scopes x = cl_scopes y"
      if "x \<in> set ((cfg_clients c0)[i := (cfg_clients c0 ! i)\<lparr>cl_revoked := True\<rparr>])" for x
      using in_set_update [OF that] by auto
    show ?thesis
      by (rule confined_stored [OF assms(2) revoked(1)]) (use revoke revoked(5) cl in auto)
  qed (rule confined_parts [OF assms(2)], use revoke in \<open>auto simp: state_parts\<close>)
next
  case (other w)
  show ?thesis
    by (rule confined_parts [OF assms(2)]) (use other auth_part_parts [OF other(3)] in auto)
qed

lemma authenticated_confined:
  assumes "auth_step sv s (Authenticate token (Inr (ac, claims))) s'" and "confined S s"
  shows "set (tc_scopes claims) \<subseteq> S \<and> within S (ac_scopes ac) \<and>
    ac_id ac \<in> cl_id ` set (clients_of s)"
proof -
  from assms(1) obtain w where r: "token_reading sv token \<subseteq> as_issued s"
    "authenticate sv token (as_world s) = (Inr (ac, claims), w)" by (rule authenticate_stepE) auto
  from r(2) show ?thesis
  proof (cases rule: authenticate_cases)
    case (found claims' c0 i c now)
    have "claims \<in> as_issued s" using r(1) found(2,9) by (auto simp: token_reading_def)
    then have "set (tc_scopes claims) \<subseteq> S" using confinedD(3) [OF assms(2) found(4)] by blast
    moreover have "ac_scopes ac = cl_scopes c" "ac_id ac = cl_id c" using found(9) by simp_all
    ultimately show ?thesis
      using confinedD(1) [OF assms(2) found(4,8)] found(4,8) by (auto simp: clients_of_def)
  qed simp
qed

lemma run_confined:
  "auth_run sv s ls s' \<Longrightarrow> confined S s \<Longrightarrow> \<forall>l \<in> set ls. asks_within S l \<Longrightarrow>
     within S (sv_default_scope sv) \<Longrightarrow>
     confined S s' \<and>
     (\<forall>token ac claims. Authenticate token (Inr (ac, claims)) \<in> set ls \<longrightarrow>
        set (tc_scopes claims) \<subseteq> S \<and> within S (ac_scopes ac))"
proof (induction rule: auth_run.induct)
  case (run_Cons s l s1 ls s2)
  have s1: "confined S s1"
    using step_confined [OF run_Cons.hyps(1) run_Cons.prems(1)] run_Cons.prems(2,3) by simp
  have "set (tc_scopes claims) \<subseteq> S \<and> within S (ac_scopes ac)"
    if "l = Authenticate token (Inr (ac, claims))" for token ac claims
    using authenticated_confined [OF run_Cons.hyps(1) [unfolded that] run_Cons.prems(1)] by blast
  then show ?case
    using run_Cons.IH [OF s1] run_Cons.prems(2,3) by auto
qed simp

section \<open>Properties\<close>

text \<open>
  C2. Nobody gains a scope that was not given out: if everything starts within a set of scopes,
  the default scopes are in it, and every pairing code is generated within it, then over any
  run - any interleaving of pairings, approvals with claims seen before, revocations, failing
  disks - every client, pending code and token stays within it, and so do the claims of every
  call that authenticates.
\<close>

theorem scopes_confined:
  assumes "auth_run sv s ls s'" and "confined S s" and "\<forall>l \<in> set ls. asks_within S l"
    and "within S (sv_default_scope sv)"
  shows "confined S s' \<and>
    (\<forall>token ac claims. Authenticate token (Inr (ac, claims)) \<in> set ls \<longrightarrow>
       set (tc_scopes claims) \<subseteq> S \<and> within S (ac_scopes ac))"
  using run_confined [OF assms] .

definition demo_state :: "config \<Rightarrow> auth_state" where
  "demo_state c = \<lparr>as_world = holding c, as_issued = {}, as_seen = {}\<rparr>"

lemma demo_parts:
  "marshalable c \<Longrightarrow> clients_of (demo_state c) = cfg_clients c"
  "marshalable c \<Longrightarrow> codes_of (demo_state c) = cfg_pairing_codes c"
  by (simp_all add: demo_state_def clients_of_def codes_of_def)

lemma demo_pair_run:
  "\<exists>r s'. auth_run demo_service (demo_state demo_config)
     [PairDevice '' abc234'' ''Phone'' ''ios'' (Inr r)] s'"
proof -
  obtain r w where "pair demo_service '' abc234'' ''Phone'' ''ios'' (as_world (demo_state demo_config)) = (Inr r, w)"
    using demo_pairs by (auto simp: demo_state_def)
  from run_Cons [OF pair_device [OF this] run_Nil] show ?thesis by blast
qed

theorem scopes_confined_witness:
  "\<exists>r s'. auth_run demo_service (demo_state demo_config)
     [PairDevice '' abc234'' ''Phone'' ''ios'' (Inr r)] s' \<and> confined {''read'', ''send'', ''attach''} s'"
proof -
  obtain r s' where run: "auth_run demo_service (demo_state demo_config)
     [PairDevice '' abc234'' ''Phone'' ''ios'' (Inr r)] s'" using demo_pair_run by blast
  have t: "trim_space ''read'' = ''read''" "trim_space ''send'' = ''send''" "trim_space ''attach'' = ''attach''"
    by code_simp+
  have "confined {''read'', ''send'', ''attach''} (demo_state demo_config)"
    unfolding confined_def demo_parts [OF demo_marshalable(1)]
    by (simp add: within_def set_clean_scopes) (simp add: demo_code_def demo_state_def t)
  from scopes_confined [OF run this] run show ?thesis
    by (auto simp: within_def set_clean_scopes t)
qed

text \<open>
  C12. Revoking is final: once a revocation has returned true, no later call in the run
  authenticates as that client, whatever token it brings and whatever else is paired, approved
  or revoked, provided the random client ids of the run are distinct.
\<close>

theorem revoked_stays_out:
  assumes "auth_run sv s (pre @ Revoke cid (Inr True) # post) s'"
    and "distinct (map cl_id (clients_of s) @ registered (pre @ post))"
  shows "\<forall>token ac claims. Authenticate token (Inr (ac, claims)) \<in> set post \<longrightarrow>
    ac_id ac \<noteq> trim_space cid"
proof -
  obtain m1 where m1: "auth_run sv s pre m1" "auth_run sv m1 (Revoke cid (Inr True) # post) s'"
    using auth_run_append [OF assms(1)] by blast
  then obtain m2 where m2: "auth_step sv m1 (Revoke cid (Inr True)) m2" "auth_run sv m2 post s'"
    by (blast elim: auth_run_ConsE)
  have ids: "map cl_id (clients_of m1) = map cl_id (clients_of s) @ registered pre"
    using run_ids [OF m1(1)] .
  have "distinct (map cl_id (clients_of m1))"
    unfolding ids using assms(2) by (simp add: registered_append) blast
  from revoke_shuts_out [OF m2(1) this] have "shut_out (trim_space cid) m2" .
  moreover have "trim_space cid \<in> set (map cl_id (clients_of m1))"
  proof -
    from m2(1) obtain w where "revoke_client sv cid (as_world m1) = (Inr True, w)"
      by (rule revoke_stepE) auto
    then show ?thesis
    proof (cases rule: revoke_client_cases)
      case (revoked c0 i)
      then show ?thesis
        using imageI [OF index_of_nth_mem [OF revoked(3)], of cl_id] index_of_SomeD [OF revoked(3)]
        by (simp add: clients_of_def)
    qed simp
  qed
  then have "trim_space cid \<notin> set (registered post)"
    using ids assms(2) by (auto simp: registered_append)
  ultimately show ?thesis using run_shut_out [OF m2(2)] by blast
qed

definition one_client :: config where
  "one_client = zero_config\<lparr>cfg_clients :=
     [zero_client\<lparr>cl_id := ''c_1'', cl_created_at := 0, cl_last_seen := 0\<rparr>]\<rparr>"

lemma one_client_facts [simp]:
  "marshalable one_client" "map cl_id (cfg_clients one_client) = [''c_1'']"
  by (simp_all add: one_client_def marshalable_def zero_config_def)

lemma one_client_revoked:
  "\<exists>w. revoke_client demo_service ''c_1'' (holding one_client) = (Inr True, w)"
proof -
  let ?c = "one_client\<lparr>cfg_clients := (cfg_clients one_client)
     [0 := (cfg_clients one_client ! 0)\<lparr>cl_revoked := True\<rparr>]\<rparr>"
  have f: "revoke_fn ''c_1'' one_client (w_eff (holding one_client)) =
      (Inr (?c, True), w_eff (holding one_client))"
    by (simp add: revoke_fn_def one_client_def)
  have t: "trim_space ''c_1'' = ''c_1''" by code_simp
  have "marshalable ?c" by (simp add: one_client_def marshalable_def zero_config_def)
  from state.update_healthy [where fn = "revoke_fn ''c_1''", OF _ _ f this] show ?thesis
    by (auto simp: revoke_client_def t)
qed

theorem revoked_stays_out_witness:
  "\<exists>r s'. auth_run demo_service (demo_state one_client)
       [Revoke ''c_1'' (Inr True), Authenticate ''token'' r] s' \<and>
     (\<forall>ac claims. r = Inr (ac, claims) \<longrightarrow> ac_id ac \<noteq> ''c_1'')"
proof -
  obtain w where w: "revoke_client demo_service ''c_1'' (holding one_client) = (Inr True, w)"
    using one_client_revoked by blast
  obtain r w2 where r: "authenticate demo_service ''token'' w = (r, w2)" by fastforce
  have t: "trim_space ''token'' = ''token''" "trim_space ''c_1'' = ''c_1''" by code_simp+
  have "token_reading demo_service ''token'' = {}"
    by (simp add: token_reading_def signed_payload_def t)
  then have "auth_step demo_service (demo_state one_client\<lparr>as_world := w\<rparr>) (Authenticate ''token'' r)
      (demo_state one_client\<lparr>as_world := w2,
         as_seen := as_seen (demo_state one_client\<lparr>as_world := w\<rparr>) \<union>
           (case r of Inl e \<Rightarrow> {} | Inr (ac, claims) \<Rightarrow> {claims})\<rparr>)"
    using authenticated [of demo_service "''token''" "demo_state one_client\<lparr>as_world := w\<rparr>"] r by simp
  moreover have "auth_step demo_service (demo_state one_client) (Revoke ''c_1'' (Inr True))
      (demo_state one_client\<lparr>as_world := w\<rparr>)"
    using revoke [of demo_service "''c_1''" "demo_state one_client"] w by (simp add: demo_state_def)
  ultimately have run: "\<exists>s'. auth_run demo_service (demo_state one_client)
       [Revoke ''c_1'' (Inr True), Authenticate ''token'' r] s'"
    by (blast intro: run_Cons run_Nil)
  then obtain s' where "auth_run demo_service (demo_state one_client)
       ([] @ Revoke ''c_1'' (Inr True) # [Authenticate ''token'' r]) s'" by auto
  from revoked_stays_out [OF this] have "\<forall>ac claims. r = Inr (ac, claims) \<longrightarrow> ac_id ac \<noteq> ''c_1''"
    by (auto simp: demo_parts t)
  with run show ?thesis by blast
qed

text \<open>
  C11. Every pairing code is good for one pairing: in any run, however its operations
  interleave and fail, a code is redeemed at most as often as it was pending at the start plus
  as often as the service offered it, less the copies still pending at the end.
\<close>

theorem code_redeemed_at_most:
  assumes "auth_run sv s ls s'"
  shows "redeemed code ls + pending code s' \<le> pending code s + offered code ls"
  using run_pending [OF assms] .

theorem code_redeemed_at_most_witness:
  "\<exists>r s'. auth_run demo_service (demo_state demo_config)
     [PairDevice '' abc234'' ''Phone'' ''ios'' (Inr r)] s' \<and> pending ''ABC234'' s' = 0"
proof -
  obtain r s' where run: "auth_run demo_service (demo_state demo_config)
     [PairDevice '' abc234'' ''Phone'' ''ios'' (Inr r)] s'" using demo_pair_run by blast
  have "pending ''ABC234'' (demo_state demo_config) = 1"
    by (simp add: pending_def demo_parts)
  with code_redeemed_at_most [OF run, of "''ABC234''"] run show ?thesis
    by (auto simp: demo_texts)
qed

text \<open>
  C13. The list of clients is the history of grants: over any run it keeps every client it had
  and gains exactly one for each pairing or approval that succeeded, in order; and whoever
  authenticates is one of them.
\<close>

theorem clients_are_the_grants:
  assumes "auth_run sv s ls s'"
  shows "map cl_id (clients_of s') = map cl_id (clients_of s) @ registered ls \<and>
    (\<forall>token ac claims. Authenticate token (Inr (ac, claims)) \<in> set ls \<longrightarrow>
       ac_id ac \<in> set (map cl_id (clients_of s) @ registered ls))"
proof
  show ids: "map cl_id (clients_of s') = map cl_id (clients_of s) @ registered ls"
    using run_ids [OF assms] .
  have "ac_id ac \<in> set (map cl_id (clients_of s) @ registered ls)"
    if "Authenticate token (Inr (ac, claims)) \<in> set ls" for token ac claims
  proof (rule ccontr)
    assume "ac_id ac \<notin> set (map cl_id (clients_of s) @ registered ls)"
    then have "shut_out (ac_id ac) s" "ac_id ac \<notin> set (registered ls)"
      unfolding shut_out_def by force+
    from run_shut_out [OF assms this] that show False by blast
  qed
  then show "\<forall>token ac claims. Authenticate token (Inr (ac, claims)) \<in> set ls \<longrightarrow>
       ac_id ac \<in> set (map cl_id (clients_of s) @ registered ls)" by blast
qed

theorem clients_are_the_grants_witness:
  "\<exists>r s'. auth_run demo_service (demo_state demo_config)
     [PairDevice '' abc234'' ''Phone'' ''ios'' (Inr r)] s' \<and> map cl_id (clients_of s') = [pr_client_id r]"
proof -
  obtain r s' where run: "auth_run demo_service (demo_state demo_config)
     [PairDevice '' abc234'' ''Phone'' ''ios'' (Inr r)] s'" using demo_pair_run by blast
  moreover have "map cl_id (clients_of s') = [pr_client_id r]"
    using clients_are_the_grants [OF run] by (simp add: demo_parts)
  ultimately show ?thesis using run by metis
qed

end
