(* ===== verification/Daemon.thy ===== *)
theory Daemon
  imports ServeProps CtlSock AuthTrace
begin

text \<open>
  The daemon put together (\<open>cmd/chatbubbles/main.go\<close>): the HTTP server and the control socket over
  one state file. What they do to it is a run of the pairing service, so what holds of its runs
  holds of the daemon.
\<close>

section \<open>The host to pair with\<close>

definition pair_host :: "string \<Rightarrow> string \<Rightarrow> string" where
  "pair_host listen_addr tailscale_ip =
     (case split_host_port listen_addr of
        None \<Rightarrow> []
      | Some (host, port) \<Rightarrow>
          let host = (if host \<in> {[], ''0.0.0.0'', ''::''}
                      then (if tailscale_ip \<noteq> [] then tailscale_ip else ''localhost'')
                      else host) in
          join_host_port host port)"

text \<open>What \<open>logPairingWarnings\<close> logs.\<close>

definition pairing_warnings :: "string \<Rightarrow> string \<Rightarrow> string list" where
  "pairing_warnings tailscale_ip host =
     (if tailscale_ip \<noteq> [] then [''pair host '' @ host]
      else ''warning: tailscale ip was not detected automatically'' #
        (if host = []
         then [''warning: direct pairing is missing a reachable host; start with --tailscale-ip <ip> or bind to an explicit host'']
         else if prefix ''localhost:'' host \<or> prefix ''127.0.0.1:'' host \<or> prefix ''[::1]:'' host
         then [''warning: direct pairing will advertise '' @ host @ '', which only works on this machine'',
               ''warning: if you expect phone or browser pairing over tailscale, start with --tailscale-ip <ip>'']
         else [''warning: pairing is using '' @ host @ '' without a detected tailscale ip'']))"

section \<open>The status\<close>

definition daemon_status :: "server \<Rightarrow> auth_service \<Rightarrow> exec \<Rightarrow> string \<Rightarrow> string \<Rightarrow> status op" where
  "daemon_status s sv exec host fingerprint w =
     (case version exec (sr_runner s) of
        Inl err \<Rightarrow> (Inl err, w)
      | Inr imsg_version \<Rightarrow>
          (case list_clients sv w of
             (Inl err, w) \<Rightarrow> (Inl err, w)
           | (Inr clients, w) \<Rightarrow>
               (case with_eff time_now w of (now, w) \<Rightarrow>
                  (Inr \<lparr>ss_server_name = ap_server_name (sr_cfg s), ss_version = ap_version (sr_cfg s),
                        ss_imsg_version = imsg_version, ss_tailscale_ip = ap_tailscale_ip (sr_cfg s),
                        ss_pair_host = host, ss_tls_fingerprint = fingerprint,
                        ss_uptime_seconds = whole_seconds (time_sub now (ap_started_at (sr_cfg s))),
                        ss_clients = clients\<rparr>, w))))"

section \<open>Runs of the pairing service\<close>

text \<open>The ghost sets hold everything: no assumption on tokens is made here.\<close>

definition full :: "world \<Rightarrow> auth_state" where
  "full w = \<lparr>as_world = w, as_issued = UNIV, as_seen = UNIV\<rparr>"

definition auth_reach :: "auth_service \<Rightarrow> auth_event list \<Rightarrow> world \<Rightarrow> world \<Rightarrow> bool" where
  "auth_reach sv ls w w' \<longleftrightarrow> auth_run sv (full w) ls (full w')"

lemma full_simps [simp]: "as_world (full w) = w" "as_issued (full w) = UNIV" "as_seen (full w) = UNIV"
  "(full w)\<lparr>as_world := w'\<rparr> = full w'"
  "full w\<lparr>as_issued := UNIV\<rparr> = full w" "full w\<lparr>as_seen := UNIV\<rparr> = full w"
  by (simp_all add: full_def)

lemma auth_reach_Nil: "auth_reach sv [] w w"
  by (simp add: auth_reach_def)

lemma auth_run_trans: "auth_run sv s xs m \<Longrightarrow> auth_run sv m ys s' \<Longrightarrow> auth_run sv s (xs @ ys) s'"
  by (induction rule: auth_run.induct) (auto intro: run_Cons)

lemma auth_reach_trans: "auth_reach sv xs u v \<Longrightarrow> auth_reach sv ys v w \<Longrightarrow> auth_reach sv (xs @ ys) u w"
  by (simp add: auth_reach_def auth_run_trans)

lemma auth_reach_step: "auth_step sv (full w) l (full w') \<Longrightarrow> auth_reach sv [l] w w'"
  unfolding auth_reach_def by (rule auth_run.run_Cons [OF _ auth_run.run_Nil])

lemma auth_reach_ops:
  "map_option auth_part (stored w') = map_option auth_part (stored w) \<Longrightarrow> auth_reach sv [OtherUser] w w'"
  "create_session sv name type w = (r, w') \<Longrightarrow> auth_reach sv [CreateSession name type r] w w'"
  "get_session sv sid w = (r, w') \<Longrightarrow> auth_reach sv [GetSession sid r] w w'"
  "approve_session sv sid approver scopes w = (r, w') \<Longrightarrow> auth_reach sv [ApproveSession sid approver scopes r] w w'"
  "generate_pairing_code sv ttl scopes w = (g, w') \<Longrightarrow> auth_reach sv [GenerateCode ttl scopes g] w w'"
  "pair sv code name type w = (p, w') \<Longrightarrow> auth_reach sv [PairDevice code name type p] w w'"
  "authenticate sv token w = (a, w') \<Longrightarrow> auth_reach sv [Authenticate token a] w w'"
  "revoke_client sv cid w = (rb, w') \<Longrightarrow> auth_reach sv [Revoke cid rb] w w'"
  subgoal using auth_step.other [of w' "full w" sv] by (simp add: auth_reach_step)
  subgoal using auth_step.create [of sv name type "full w" r w'] by (simp add: auth_reach_step)
  subgoal using auth_step.get [of sv sid "full w" r w'] by (simp add: auth_reach_step)
  subgoal using auth_step.approve [of approver "full w" sv sid scopes r w'] by (simp add: auth_reach_step)
  subgoal using auth_step.generate [of sv ttl scopes "full w" g w'] by (simp add: auth_reach_step)
  subgoal using auth_step.pair_device [of sv code name type "full w" p w'] by (simp add: auth_reach_step)
  subgoal using auth_step.authenticated [of sv token "full w" a w'] by (simp add: auth_reach_step)
  subgoal using auth_step.revoke [of sv cid "full w" rb w'] by (simp add: auth_reach_step)
  done

text \<open>Some run of the pairing service leads there and registers so many clients.\<close>

definition reaches :: "auth_service \<Rightarrow> nat \<Rightarrow> world \<Rightarrow> world \<Rightarrow> bool" where
  "reaches sv n w w' \<longleftrightarrow> (\<exists>ls. auth_reach sv ls w w' \<and> length (registered ls) = n)"

lemma reachesI: "auth_reach sv ls w w' \<Longrightarrow> length (registered ls) = n \<Longrightarrow> reaches sv n w w'"
  unfolding reaches_def by blast

lemma reaches_refl [intro]: "reaches sv 0 w w"
  by (rule reachesI [OF auth_reach_Nil]) simp

lemma reaches_trans:
  assumes "reaches sv m u v" and "reaches sv n v w"
  shows "reaches sv (m + n) u w"
proof -
  obtain xs ys where x: "auth_reach sv xs u v" "length (registered xs) = m"
    and y: "auth_reach sv ys v w" "length (registered ys) = n" using assms by (auto simp: reaches_def)
  from auth_reach_trans [OF x(1) y(1)] show ?thesis by (rule reachesI) (simp add: registered_append x(2) y(2))
qed

lemma reaches_part: "map_option auth_part (stored w') = map_option auth_part (stored w) \<Longrightarrow> reaches sv 0 w w'"
  by (rule reachesI [OF auth_reach_ops(1)]) simp_all

lemma reaches_same: "stored w' = stored w \<Longrightarrow> reaches sv 0 w w'"
  by (simp add: reaches_part)

lemma reaches_op [intro]:
  "create_session sv name type w = (r, w') \<Longrightarrow> reaches sv 0 w w'"
  "get_session sv sid w = (r, w') \<Longrightarrow> reaches sv 0 w w'"
  "approve_session sv sid approver scopes w = (Inl err, w') \<Longrightarrow> reaches sv 0 w w'"
  "approve_session sv sid approver scopes w = (Inr sn, w') \<Longrightarrow> reaches sv (Suc 0) w w'"
  "generate_pairing_code sv ttl scopes w = (g, w') \<Longrightarrow> reaches sv 0 w w'"
  "pair sv code name type w = (Inl err, w') \<Longrightarrow> reaches sv 0 w w'"
  "pair sv code name type w = (Inr p, w') \<Longrightarrow> reaches sv (Suc 0) w w'"
  "revoke_client sv cid w = (rb, w') \<Longrightarrow> reaches sv 0 w w'"
  subgoal by (rule reachesI [OF auth_reach_ops(2)], assumption, simp)
  subgoal by (rule reachesI [OF auth_reach_ops(3)], assumption, simp)
  subgoal by (rule reachesI [OF auth_reach_ops(4)], assumption, simp)
  subgoal by (rule reachesI [OF auth_reach_ops(4)], assumption, simp)
  subgoal by (rule reachesI [OF auth_reach_ops(5)], assumption, simp)
  subgoal by (rule reachesI [OF auth_reach_ops(6)], assumption, simp)
  subgoal by (rule reachesI [OF auth_reach_ops(6)], assumption, simp)
  subgoal by (rule reachesI [OF auth_reach_ops(8)], assumption, simp)
  done

lemma reaches_webhooks [intro]:
  "create_webhook v url evs w = (h, w') \<Longrightarrow> reaches sv 0 w w'"
  "list_webhooks w = (hs, w') \<Longrightarrow> reaches sv 0 w w'"
  "delete_webhook hid w = (d, w') \<Longrightarrow> reaches sv 0 w w'"
proof -
  show "reaches sv 0 w w'" if "create_webhook v url evs w = (h, w')"
    using create_webhook_cases [where v = v and raw_url = url and events = evs and w = w] that
    by (intro reaches_part) (auto simp: auth_part_def split: sum.splits)
  show "reaches sv 0 w w'" if "list_webhooks w = (hs, w')"
    using that by (intro reaches_same) (auto simp: list_webhooks_def split: prod.splits sum.splits dest: state.load_frame)
  show "reaches sv 0 w w'" if "delete_webhook hid w = (d, w')"
  proof (cases d)
    case (Inl err)
    then show ?thesis using that delete_webhook_abort by (intro reaches_same) blast
  next
    case (Inr deleted)
    show ?thesis
    proof (cases "trim_space hid = []")
      case True
      then show ?thesis using that by (auto simp: delete_webhook_def)
    next
      case False
      then show ?thesis using delete_webhook_commit [where hid = hid and w = w and deleted = deleted and w' = w'] that Inr
        by (intro reaches_part) (auto simp: auth_part_def)
    qed
  qed
qed

interpretation admin: administrator "generate_pairing_code sv" "list_clients sv" "revoke_client sv" "reaches sv 0" for sv
proof
  show "reaches sv 0 w w'" if "stored w' = stored w" for w w' using that by (rule reaches_same)
  show "reaches sv 0 w w'" if "generate_pairing_code sv ttl scopes w = (r, w')" for ttl scopes w r w' using that by blast
  show "stored w' = stored w" if "list_clients sv w = (rs, w')" for w rs w'
    using that by (auto simp: list_clients_def split: prod.splits sum.splits dest: state.load_frame)
  show "reaches sv 0 w w'" if "revoke_client sv cid w = (rb, w')" for cid w rb w' using that by blast
qed

section \<open>Requests are runs\<close>

lemma on_worldD: "on_world m st = (r, st') \<Longrightarrow> m (st_world st) = (r, st_world st')"
  by (auto simp: on_world_def split: prod.splits)

lemma on_files_upload: "on_files (save_upload mt os name ct body) st = (r, st') \<Longrightarrow> stored (st_world st') = stored (st_world st)"
  by (auto simp: on_files_def same_disk_def intro!: stored_cong split: prod.splits dest!: save_upload_disk)

lemma on_files_open: "on_files (open_attachment os aid) st = (r, st') \<Longrightarrow> stored (st_world st') = stored (st_world st)"
  by (auto simp: on_files_def open_attachment_def intro!: stored_cong split: prod.splits sum.splits option.splits dest!: syscall_snd)

lemma on_eff_stored: "on_eff m st = (a, st') \<Longrightarrow> stored (st_world st') = stored (st_world st)"
  by (auto dest!: on_effD intro!: stored_cong)

lemma on_history_stored: "on_history f st = (a, st') \<Longrightarrow> stored (st_world st') = stored (st_world st)"
  by (auto simp: on_history_def split: prod.splits dest: on_eff_stored)

lemma limit_call_stored: "limit_call key limit per st = (a, st') \<Longrightarrow> stored (st_world st') = stored (st_world st)"
  by (auto simp: limit_call_def split: prod.splits dest: on_eff_stored)

lemma drop_upload_stored: "stored (st_world (drop_upload kept st)) = stored (st_world st)"
  by (auto simp: drop_upload_def same_disk_def intro!: stored_cong split: prod.splits dest!: same_disk_steps(4))

lemma load_history_stored:
  assumes "load_history s env chat_id opts st = (resp, st')"
  shows "stored (st_world st') = stored (st_world st)"
  using assms
  by (auto simp: load_history_def split: prod.splits sum.splits if_splits dest!: on_eff_stored on_history_stored)

text \<open>A handler is a run; one that lets clients join registers one exactly when it answers 200.\<close>

definition world_steps :: "auth_service \<Rightarrow> bool \<Rightarrow> handler \<Rightarrow> bool" where
  "world_steps sv joins h \<longleftrightarrow> (\<forall>ctx r st resp st'. h ctx r st = (resp, st') \<longrightarrow>
     reaches sv (if joins \<and> rs_status resp = 200 then 1 else 0) (st_world st) (st_world st'))"

lemmas responses = write_error_def write_json_def bad_json_def no_sessions_def

lemma handlers_step:
  assumes "sr_pairing s = Some sv"
  shows "world_steps sv False handle_health" "world_steps sv False (handle_server s env)" "world_steps sv False (handle_chats s env)"
    "world_steps sv False (handle_messages s env)" "world_steps sv False (handle_send_message s env)"
    "world_steps sv False (handle_send_attachment s env)" "world_steps sv False (handle_get_attachment s env)"
    "world_steps sv True (handle_pair s)" "world_steps sv False (handle_create_session s)" "world_steps sv False (handle_get_session s)"
    "world_steps sv True (handle_approve_session s)" "world_steps sv False (handle_create_webhook s env)"
    "world_steps sv False (handle_list_webhooks s)" "world_steps sv False (handle_delete_webhook s)"
    "world_steps sv False (\<lambda>ctx r st. (events ctx r, st))"
  unfolding world_steps_def
  subgoal by (auto simp: handle_health_def)
  subgoal by (auto simp: handle_server_def split: sum.splits prod.splits intro!: reaches_same dest: on_eff_stored)
  subgoal by (auto simp: handle_chats_def split: sum.splits)
  subgoal by (auto simp: handle_messages_def split: sum.splits prod.splits option.splits intro!: reaches_same
        dest!: on_history_stored load_history_stored)
  subgoal by (auto simp: handle_send_message_def Let_def split: sum.splits option.splits if_splits)
  subgoal by (auto simp: handle_send_attachment_def Let_def drop_upload_stored split: sum.splits prod.splits option.splits if_splits
        intro!: reaches_same dest!: on_files_upload)
  subgoal by (auto simp: handle_get_attachment_def split: sum.splits prod.splits if_splits intro!: reaches_same dest!: on_files_open)
  subgoal by (auto simp: handle_pair_def Let_def assms responses split: sum.splits prod.splits option.splits if_splits dest!: on_worldD)
  subgoal by (auto simp: handle_create_session_def assms split: sum.splits prod.splits option.splits dest!: on_worldD)
  subgoal by (auto simp: handle_get_session_def assms split: sum.splits prod.splits if_splits dest!: on_worldD)
  subgoal by (auto simp: handle_approve_session_def assms responses split: sum.splits prod.splits option.splits if_splits dest!: on_worldD)
  subgoal by (auto simp: handle_create_webhook_def split: sum.splits prod.splits option.splits if_splits dest!: on_worldD)
  subgoal by (auto simp: handle_list_webhooks_def split: sum.splits prod.splits if_splits dest!: on_worldD)
  subgoal by (auto simp: handle_delete_webhook_def split: sum.splits prod.splits if_splits dest!: on_worldD)
  subgoal by auto
  done

lemma reaches_after_same: "stored v = stored u \<Longrightarrow> reaches sv n v w \<Longrightarrow> reaches sv n u w"
  using reaches_trans [OF reaches_same, of v u sv n w] by simp

lemma write_rate_limited_status: "rs_status (write_rate_limited retry) = 429"
  by (simp add: write_rate_limited_def responses Let_def)

lemma limit_by_ip_step:
  assumes "world_steps sv joins next"
  shows "world_steps sv joins (limit_by_ip name limit per next)"
  unfolding world_steps_def
proof (intro allI impI)
  fix ctx r st resp st' assume a: "limit_by_ip name limit per next ctx r st = (resp, st')"
  obtain ok retry st1 where c: "limit_call (''ip:'' @ name @ '':'' @ client_ip r) limit per st = ((ok, retry), st1)"
    by (metis surj_pair)
  note same = limit_call_stored [OF c]
  show "reaches sv (if joins \<and> rs_status resp = 200 then 1 else 0) (st_world st) (st_world st')"
  proof (cases ok)
    case True
    then have "next ctx r st1 = (resp, st')" using a c by (simp add: limit_by_ip_def)
    then show ?thesis using assms reaches_after_same [OF same] by (simp add: world_steps_def)
  next
    case False
    then show ?thesis using a c reaches_same [OF same]
      by (auto simp: limit_by_ip_def write_rate_limited_status)
  qed
qed

lemma require_auth_step:
  assumes "world_steps sv joins next"
  shows "world_steps sv joins (require_auth (authenticate sv) holds scope action next)"
  unfolding world_steps_def
proof (intro allI impI)
  fix ctx r st resp st' assume a: "require_auth (authenticate sv) holds scope action next ctx r st = (resp, st')"
  obtain res st1 where au: "on_world (authenticate sv (request_token r)) st = (res, st1)" by fastforce
  have one: "reaches sv 0 (st_world st) (st_world st1)"
    by (rule reachesI [OF auth_reach_ops(7) [OF on_worldD [OF au]]]) simp
  show "reaches sv (if joins \<and> rs_status resp = 200 then 1 else 0) (st_world st) (st_world st')"
  proof (cases "\<exists>client claims. res = Inr (client, claims) \<and> \<not> (scope \<noteq> [] \<and> \<not> holds claims scope)")
    case False
    then have "st' = st1 \<and> rs_status resp \<noteq> 200"
      using a au by (auto simp: require_auth_def responses split: sum.splits)
    then show ?thesis using one by simp
  next
    case True
    then obtain client claims where r: "res = Inr (client, claims)" "\<not> (scope \<noteq> [] \<and> \<not> holds claims scope)" by blast
    obtain limit per where la: "limit_for_action action = (limit, per)" by fastforce
    obtain ok retry st2 where c: "limit_call (''token:'' @ action @ '':'' @ tc_jti claims) limit per st1 = ((ok, retry), st2)"
      by (metis surj_pair)
    note two = reaches_trans [OF one reaches_same [OF limit_call_stored [OF c]]]
    show ?thesis
    proof (cases ok)
      case True
      then have "next (Some (client, claims)) r st2 = (resp, st')"
        using a au r la c by (auto simp: require_auth_def)
      then show ?thesis using assms reaches_trans [OF two] by (fastforce simp: world_steps_def)
    next
      case False
      then show ?thesis using a au r la c two
        by (auto simp: require_auth_def write_rate_limited_status)
    qed
  qed
qed

lemma guarded_step: "sr_pairing s = Some sv \<Longrightarrow> world_steps sv joins next \<Longrightarrow> world_steps sv joins (guarded s scope action next)"
  by (simp add: guarded_def require_auth_step)

text \<open>The two calls that let a client join.\<close>

definition joining :: "(string \<times> string option list) set" where
  "joining = {(''POST'', [Some ''v1'', Some ''pair'']), (''POST'', [Some ''v1'', Some ''sessions'', None, Some ''approve''])}"

definition joins_by :: "request \<Rightarrow> bool" where
  "joins_by r \<longleftrightarrow> (\<exists>(m, pat) \<in> joining. asks m pat r)"

lemma joining_flags:
  "(''GET'', pat) \<in> joining \<longleftrightarrow> False"
  "(''POST'', [Some ''v1'', Some ''pair'']) \<in> joining \<longleftrightarrow> True"
  "(''POST'', [Some ''v1'', Some ''sessions'', None, Some ''approve'']) \<in> joining \<longleftrightarrow> True"
  "(''POST'', [Some ''v1'', Some ''sessions'']) \<in> joining \<longleftrightarrow> False"
  "(''POST'', [Some ''v1'', Some ''webhooks'']) \<in> joining \<longleftrightarrow> False"
  "(''DELETE'', [Some ''v1'', Some ''webhooks'', None]) \<in> joining \<longleftrightarrow> False"
  "(''POST'', [Some ''v1'', Some ''messages'']) \<in> joining \<longleftrightarrow> False"
  "(''POST'', [Some ''v1'', Some ''attachments'']) \<in> joining \<longleftrightarrow> False"
  by (simp_all add: joining_def)

lemma routes_step:
  assumes "sr_pairing s = Some sv" and "(m, pat, h) \<in> set (routes s env events)"
  shows "world_steps sv ((m, pat) \<in> joining) h"
  using assms(2) unfolding routes_def
  apply (simp only: list.set insert_iff empty_iff prod.inject)
  apply (elim disjE conjE FalseE; hypsubst)
  apply (simp_all only: joining_flags)
  apply (intro guarded_step [OF assms(1)] limit_by_ip_step handlers_step [OF assms(1)])+
  done

lemma joining_route:
  assumes "joins_by r" and "find (\<lambda>rt. path_matches rt r \<and> method_matches rt r) (routes s env events) = Some (m, pat, h)"
  shows "(m, pat) \<in> joining"
proof -
  let ?approve = "[Some ''v1'', Some ''sessions'', None, Some ''approve'']"
  have p: "(''POST'', ?approve, ''send'') \<in> set access_policy" by (simp add: access_policy_def)
  from assms(1) consider "asks ''POST'' [Some ''v1'', Some ''pair''] r" | "asks ''POST'' ?approve r"
    unfolding joins_by_def joining_def by blast
  then show ?thesis
  proof cases
    case 1
    then have "is_pair_request r"
      by (simp add: asks_def is_pair_request_def list_all2_segments segment_matches_def)
    from pair_route [OF this] assms(2) have "m = ''POST''" "pat = [Some ''v1'', Some ''pair'']" by simp_all
    then show ?thesis by (simp only: joining_flags)
  next
    case 2
    obtain action h' where "find (\<lambda>rt. path_matches rt r \<and> method_matches rt r) (routes s env events) =
        Some (''POST'', ?approve, guarded s ''send'' action h')"
      using policy_route [OF p 2] by blast
    with assms(2) have "m = ''POST''" "pat = ?approve" by simp_all
    then show ?thesis by (simp only: joining_flags)
  qed
qed

lemma serve_step:
  assumes "sr_pairing s = Some sv" and "serve s env events r st = (resp, st')"
  shows "reaches sv (if joins_by r \<and> rs_status resp = 200 then 1 else 0) (st_world st) (st_world st')"
proof (cases "rq_method r = ''OPTIONS''")
  case True
  then show ?thesis using assms(2) by (auto simp: serve_def with_cors_def Let_def)
next
  case options: False
  show ?thesis
  proof (cases "find (\<lambda>rt. path_matches rt r \<and> method_matches rt r) (routes s env events)")
    case None
    then show ?thesis using assms(2) options
      by (auto simp: serve_def with_cors_def serve_mux_def plain_error_def Let_def split: if_splits)
  next
    case (Some rt)
    obtain m pat h where rt: "rt = (m, pat, h)" by (cases rt)
    have "(m, pat) \<in> joining \<longleftrightarrow> joins_by r"
    proof
      assume "(m, pat) \<in> joining"
      moreover have "path_matches rt r" "method_matches rt r" using Some by (auto simp: find_Some_iff)
      ultimately show "joins_by r"
        by (auto simp: rt joins_by_def joining_def asks_def path_matches_def method_matches_def)
    qed (use joining_route [of r] Some rt in blast)
    moreover have "rt \<in> set (routes s env events)" using Some by (auto simp: find_Some_iff)
    then have "world_steps sv ((m, pat) \<in> joining) h" using routes_step [OF assms(1)] by (simp add: rt)
    moreover obtain resp0 where "h None r st = (resp0, st')" "rs_status resp = rs_status resp0"
      using assms(2) options Some
      by (auto simp: rt serve_def with_cors_def serve_mux_def Let_def split: prod.splits)
    ultimately show ?thesis by (auto simp: world_steps_def)
  qed
qed

section \<open>Runs of the daemon\<close>

text \<open>
  A request served, a request on the control socket, and whatever else happens: time passes,
  the feed notes a row, files come and go, but no client, code or session changes.
\<close>

datatype daemon_event =
    Served request response
  | Controlled string string
  | Elsewhere

inductive daemon_step :: "server \<Rightarrow> auth_service \<Rightarrow> api_state \<Rightarrow> daemon_event \<Rightarrow> api_state \<Rightarrow> bool"
  for s :: server and sv :: auth_service where
  serve_request: "serve s env events r st = (resp, st') \<Longrightarrow> daemon_step s sv st (Served r resp) st'"
| control: "handle_conn (generate_pairing_code sv) (list_clients sv) (revoke_client sv)
      (daemon_status s sv exec host fingerprint) sent (st_world st) = (reply, w) \<Longrightarrow>
    daemon_step s sv st (Controlled sent reply) (st\<lparr>st_world := w\<rparr>)"
| elsewhere: "map_option auth_part (stored (st_world st')) = map_option auth_part (stored (st_world st)) \<Longrightarrow>
    daemon_step s sv st Elsewhere st'"

inductive_cases served_stepE: "daemon_step s sv st (Served r resp) st'"
inductive_cases controlled_stepE: "daemon_step s sv st (Controlled sent reply) st'"

inductive daemon_run :: "server \<Rightarrow> auth_service \<Rightarrow> api_state \<Rightarrow> daemon_event list \<Rightarrow> api_state \<Rightarrow> bool"
  for s :: server and sv :: auth_service where
  daemon_Nil: "daemon_run s sv st [] st"
| daemon_Cons: "daemon_step s sv st l st1 \<Longrightarrow> daemon_run s sv st1 ls st2 \<Longrightarrow> daemon_run s sv st (l # ls) st2"

inductive_cases daemon_run_ConsE: "daemon_run s sv st (l # ls) st'"
inductive_simps daemon_run_Nil_iff [simp]: "daemon_run s sv st [] st'"

lemma daemon_run_append:
  "daemon_run s sv st (xs @ ys) st' \<Longrightarrow> \<exists>m. daemon_run s sv st xs m \<and> daemon_run s sv m ys st'"
proof (induction xs arbitrary: st)
  case (Cons x xs)
  then show ?case by (auto elim!: daemon_run_ConsE intro: daemon_Cons) (metis daemon_Cons)
qed auto

text \<open>An event after which there is one client more.\<close>

fun joined :: "daemon_event \<Rightarrow> bool" where
  "joined (Served r resp) \<longleftrightarrow> joins_by r \<and> rs_status resp = 200"
| "joined _ \<longleftrightarrow> False"

lemma daemon_status_same: "daemon_status s sv exec host fp w = (r, w') \<Longrightarrow> stored w' = stored w"
  by (auto simp: daemon_status_def list_clients_def split: sum.splits prod.splits
      dest!: state.load_frame stored_with_eff)

lemma daemon_step_reaches:
  assumes "sr_pairing s = Some sv" and "daemon_step s sv st l st'"
  shows "reaches sv (if joined l then 1 else 0) (st_world st) (st_world st')"
  using assms(2)
proof cases
  case (serve_request env events r resp)
  then show ?thesis using serve_step [OF assms(1)] by simp
next
  case (control exec host fingerprint sent reply w)
  have "reaches sv 0 (st_world st) w"
    using admin.conn_reach [OF control(3)] daemon_status_same by blast
  then show ?thesis using control by simp
next
  case elsewhere
  then show ?thesis using reaches_part by simp
qed

lemma daemon_run_reaches:
  assumes "daemon_run s sv st ls st'" and "sr_pairing s = Some sv"
  shows "reaches sv (length (filter joined ls)) (st_world st) (st_world st')"
  using assms
proof (induction rule: daemon_run.induct)
  case (daemon_Cons st l st1 ls st2)
  from reaches_trans [OF daemon_step_reaches [OF daemon_Cons.prems daemon_Cons.hyps(1)] daemon_Cons.IH [OF daemon_Cons.prems]]
  show ?case by (auto split: if_splits)
qed auto

section \<open>Clients of the daemon\<close>

definition client_ids :: "api_state \<Rightarrow> string list" where
  "client_ids st = map cl_id (clients_of (full (st_world st)))"

definition locked_out :: "string \<Rightarrow> api_state \<Rightarrow> bool" where
  "locked_out cid st \<longleftrightarrow> shut_out cid (full (st_world st))"

lemma reaches_clients:
  assumes "reaches sv n (st_world st) (st_world st')"
  shows "\<exists>new. length new = n \<and> client_ids st' = client_ids st @ new \<and>
    (\<forall>cid. cid \<notin> set new \<longrightarrow> locked_out cid st \<longrightarrow> locked_out cid st')"
proof -
  obtain ls where ls: "auth_run sv (full (st_world st)) ls (full (st_world st'))" "length (registered ls) = n"
    using assms by (auto simp: reaches_def auth_reach_def)
  from run_ids [OF ls(1)] run_shut_out [OF ls(1)] ls(2) show ?thesis
    by (intro exI [of _ "registered ls"]) (auto simp: client_ids_def locked_out_def)
qed

lemma locked_out_refused:
  assumes "(m, pat, scope) \<in> set access_policy" and "asks m pat r" and "sr_pairing s = Some sv"
    and "serve s env events r st = (resp, st')"
    and "claims \<in> token_reading sv (request_token r)" and "locked_out (tc_sub claims) st"
  shows "rs_status resp = 401"
proof -
  obtain action next_handler where f: "find (\<lambda>rt. path_matches rt r \<and> method_matches rt r) (routes s env events) =
      Some (m, pat, guarded s scope action next_handler)"
    using policy_route [OF assms(1,2)] by blast
  obtain resp0 where g: "require_auth (authenticate sv) claims_have_scope scope action next_handler None r st = (resp0, st')"
    and resp: "rs_status resp = rs_status resp0"
    using assms(3,4) f policy_method [OF assms(1,2)]
    by (auto simp: serve_def with_cors_def serve_mux_def guarded_def Let_def split: prod.splits)
  obtain res w where au: "authenticate sv (request_token r) (st_world st) = (res, w)" by fastforce
  have "\<not> (\<exists>client claims'. res = Inr (client, claims'))"
  proof
    assume "\<exists>client claims'. res = Inr (client, claims')"
    then obtain client claims' where "res = Inr (client, claims')" by blast
    then have a: "admits sv (st_world st) (request_token r) claims'"
      using pairing.accepted au by blast
    then have "claims' = claims" using assms(5) by (simp add: admits_def token_reading_def)
    with a assms(6) show False
      by (auto simp: admits_def locked_out_def shut_out_def clients_of_def matches_claims_def)
  qed
  then show ?thesis using g resp au by (cases res) (auto simp: require_auth_def on_world_def write_error_def write_json_def)
qed

text \<open>A client that is locked out stays out as long as no id is given twice.\<close>

lemma daemon_run_locked_out:
  assumes "daemon_run s sv st ls st'" and "sr_pairing s = Some sv"
    and "locked_out cid st" and "cid \<in> set (client_ids st)" and "distinct (client_ids st')"
    and "Served r resp \<in> set ls" and "(m, pat, scope) \<in> set access_policy" and "asks m pat r"
    and "claims \<in> token_reading sv (request_token r)" and "tc_sub claims = cid"
  shows "rs_status resp = 401"
  using assms
proof (induction rule: daemon_run.induct)
  case (daemon_Cons st l st1 ls st2)
  obtain new where new: "client_ids st1 = client_ids st @ new" "cid \<notin> set new \<Longrightarrow> locked_out cid st1"
    using reaches_clients [OF daemon_step_reaches [OF daemon_Cons.prems(1) daemon_Cons.hyps(1)]] daemon_Cons.prems(2) by blast
  obtain more where "client_ids st2 = client_ids st1 @ more"
    using reaches_clients [OF daemon_run_reaches [OF daemon_Cons.hyps(2) daemon_Cons.prems(1)]] by blast
  then have "cid \<notin> set new" using daemon_Cons.prems(3,4) new(1) by auto
  then have st1: "locked_out cid st1" "cid \<in> set (client_ids st1)" using new daemon_Cons.prems(3) by auto
  show ?case
  proof (cases "l = Served r resp")
    case True
    obtain env events where "serve s env events r st = (resp, st1)"
      using daemon_Cons.hyps(1) [unfolded True] by (rule served_stepE)
    from locked_out_refused [OF daemon_Cons.prems(6,7,1) this daemon_Cons.prems(8)] daemon_Cons.prems(2,9)
    show ?thesis by simp
  next
    case False
    then show ?thesis using daemon_Cons.IH [OF daemon_Cons.prems(1) st1 daemon_Cons.prems(4)] daemon_Cons.prems(5-) by auto
  qed
qed simp

lemma controlled_revocation:
  assumes "daemon_step s sv st (Controlled sent reply) st1" and "ctl_request_of sent = Some req"
    and "trim_space (cr_cmd req) = ''revoke_client''" and "reply = write_response (JObj [(''ok'', JBool True)])"
    and "distinct (client_ids st)"
  shows "locked_out (trim_space (cr_client_id req)) st1 \<and> trim_space (cr_client_id req) \<in> set (client_ids st1)"
proof -
  obtain exec host fp w where c: "handle_conn (generate_pairing_code sv) (list_clients sv) (revoke_client sv)
      (daemon_status s sv exec host fp) sent (st_world st) = (reply, w)" and st1: "st1 = st\<lparr>st_world := w\<rparr>"
    using assms(1) by (rule controlled_stepE)
  have rv: "revoke_client sv (cr_client_id req) (st_world st) = (Inr True, w)"
    using admin.conn_revoked [OF c assms(2-4)] .
  then have "auth_step sv (full (st_world st)) (Revoke (cr_client_id req) (Inr True)) (full w)"
    using auth_step.revoke [of sv "cr_client_id req" "full (st_world st)" "Inr True" w] by simp
  from revoke_shuts_out [OF this] assms(5) have "shut_out (trim_space (cr_client_id req)) (full w)"
    by (simp add: client_ids_def)
  moreover have "trim_space (cr_client_id req) \<in> set (client_ids st)"
    using rv
  proof (cases rule: revoke_client_cases)
    case (revoked c0 i)
    then show ?thesis
      using imageI [OF index_of_nth_mem [OF revoked(3)], of cl_id] index_of_SomeD [OF revoked(3)]
      by (simp add: client_ids_def clients_of_def)
  qed simp
  moreover obtain new where "client_ids st1 = client_ids st @ new"
    using reaches_clients [of sv 0 st st1] reaches_op(8) [OF rv] st1 by auto
  ultimately show ?thesis by (simp add: locked_out_def st1)
qed

section \<open>Properties\<close>

text \<open>
  Revoking works across the daemon: once the control socket has answered a revocation with
  ok, every later request to a protected call whose token reads as one of that client is
  answered 401, whatever else is served, paired, approved or changed in between, provided the
  random client ids in the state file are distinct at the end.
\<close>

lemma revoked_client_refused:
  assumes "daemon_run s sv st (before @ Controlled sent reply # after) st'" and "sr_pairing s = Some sv"
    and "ctl_request_of sent = Some req" and "trim_space (cr_cmd req) = ''revoke_client''"
    and "reply = write_response (JObj [(''ok'', JBool True)])" and "distinct (client_ids st')"
    and "Served r resp \<in> set after" and "(m, pat, scope) \<in> set access_policy" and "asks m pat r"
    and "claims \<in> token_reading sv (request_token r)" and "tc_sub claims = trim_space (cr_client_id req)"
  shows "rs_status resp = 401"
proof -
  obtain m1 m2 where run: "daemon_run s sv st before m1" "daemon_step s sv m1 (Controlled sent reply) m2" "daemon_run s sv m2 after st'"
    using daemon_run_append [OF assms(1)] by (blast elim: daemon_run_ConsE)
  obtain x y where "client_ids m2 = client_ids m1 @ x" "client_ids st' = client_ids m2 @ y"
    using reaches_clients [OF daemon_step_reaches [OF assms(2) run(2)]] reaches_clients [OF daemon_run_reaches [OF run(3) assms(2)]]
    by blast
  then have "distinct (client_ids m1)" using assms(6) by auto
  from controlled_revocation [OF run(2) assms(3-5) this]
  show ?thesis using daemon_run_locked_out [OF run(3) assms(2) _ _ assms(6-11)] by blast
qed

definition revoke_line :: string where
  "revoke_line = CHR 0x7B # dquote # ''cmd'' @ dquote # CHR '':'' # dquote # ''revoke_client'' @ dquote #
     CHR '','' # dquote # ''client_id'' @ dquote # CHR '':'' # dquote # ''c_1'' @ dquote # [CHR 0x7D]"

lemma revoke_line_request:
  "ctl_request_of revoke_line = Some \<lparr>cr_cmd = ''revoke_client'', cr_ttl = 0, cr_scopes = [], cr_client_id = ''c_1''\<rparr>"
  "trim_space ''revoke_client'' = ''revoke_client''" "trim_space ''c_1'' = ''c_1''"
  by code_simp+

definition paired_server :: server where
  "paired_server = demo_server\<lparr>sr_pairing := Some demo_service\<rparr>"

definition one_client_state :: api_state where
  "one_client_state = quiet_state\<lparr>st_world := holding one_client\<rparr>"

definition their_claims :: token_claims where
  "their_claims = zero_claims\<lparr>tc_sub := ''c_1''\<rparr>"

definition their_request :: request where
  "their_request = (demo_request ''GET'' [''v1'', ''events''])\<lparr>rq_query :=
     (\<lambda>k. token_of (sv_tokens demo_service) their_claims)\<rparr>"

lemma their_request_facts:
  "asks ''GET'' [Some ''v1'', Some ''events''] their_request"
  "their_claims \<in> token_reading demo_service (request_token their_request)"
proof -
  show "asks ''GET'' [Some ''v1'', Some ''events''] their_request"
    by (simp add: asks_def their_request_def demo_request_def segment_matches_def)
  have "request_token their_request = token_of (sv_tokens demo_service) their_claims"
    by (simp add: request_token_def bearer_token_def their_request_def demo_request_def url_path_def trim_nothing slash_def Let_def)
  then show "their_claims \<in> token_reading demo_service (request_token their_request)"
    using parse_claims_text signed_payload_token_of
    by (simp add: token_reading_def)
qed

lemma revoked_client_refused_witness:
  "\<exists>reply resp st'. daemon_run paired_server demo_service one_client_state
       [Controlled revoke_line reply, Served their_request resp] st' \<and> rs_status resp = 401"
proof -
  obtain w where rv: "revoke_client demo_service ''c_1'' (holding one_client) = (Inr True, w)"
    using one_client_revoked by blast
  let ?ok = "write_response (JObj [(''ok'', JBool True)])"
  have "handle_conn (generate_pairing_code demo_service) (list_clients demo_service) (revoke_client demo_service)
      (daemon_status paired_server demo_service (ce_exec demo_env) [] []) revoke_line (st_world one_client_state) = (?ok, w)"
    using rv by (simp add: handle_conn_def revoke_line_request one_client_state_def Let_def)
  note st1 = control [where s = paired_server, OF this]
  obtain resp st' where "serve paired_server demo_env no_stream their_request (one_client_state\<lparr>st_world := w\<rparr>) = (resp, st')"
    by fastforce
  note st2 = serve_request [where sv = demo_service, OF this]
  have run: "daemon_run paired_server demo_service one_client_state
      ([] @ Controlled revoke_line ?ok # [Served their_request resp]) st'"
    using daemon_Cons [OF st1 daemon_Cons [OF st2 daemon_Nil]] by simp
  have pairing: "sr_pairing paired_server = Some demo_service" by (simp add: paired_server_def)
  have "client_ids one_client_state = [''c_1'']"
    by (simp add: client_ids_def clients_of_def one_client_state_def one_client_facts)
  moreover have "\<not> joins_by their_request"
    by (auto simp: joins_by_def joining_def asks_def their_request_def demo_request_def)
  ultimately have "client_ids st' = [''c_1'']"
    using reaches_clients [OF daemon_run_reaches [OF run pairing]] by simp
  then have ids: "distinct (client_ids st')" by simp
  have pol: "(''GET'', [Some ''v1'', Some ''events''], ''read'') \<in> set access_policy" by (simp add: access_policy_def)
  have "rs_status resp = 401"
    using revoked_client_refused [OF run pairing revoke_line_request(1) _ refl ids _ pol their_request_facts]
      revoke_line_request(2,3) by (simp add: their_claims_def)
  with run show ?thesis by auto
qed

text \<open>
  C4. Clients join only through the two doors: over any run of the daemon the state file keeps
  every client it had, in order, and gains exactly one for each answer 200 to a pairing request
  or to an approval.
\<close>

theorem clients_join_by_answer:
  assumes "daemon_run s sv st ls st'" and "sr_pairing s = Some sv"
  shows "\<exists>new. client_ids st' = client_ids st @ new \<and> length new = length (filter joined ls)"
  using reaches_clients [OF daemon_run_reaches [OF assms]] by blast

theorem clients_join_by_answer_witness:
  "\<exists>resp st'. daemon_run paired_server demo_service one_client_state [Served their_request resp] st' \<and>
     client_ids st' = [''c_1'']"
proof -
  obtain resp st' where "serve paired_server demo_env no_stream their_request one_client_state = (resp, st')" by fastforce
  note run = daemon_Cons [OF serve_request [where sv = demo_service, OF this] daemon_Nil]
  have "\<not> joins_by their_request"
    by (auto simp: joins_by_def joining_def asks_def their_request_def demo_request_def)
  moreover have "client_ids one_client_state = [''c_1'']"
    by (simp add: client_ids_def clients_of_def one_client_state_def one_client_facts)
  ultimately have "client_ids st' = [''c_1'']"
    using clients_join_by_answer [OF run] by (simp add: paired_server_def)
  with run show ?thesis by blast
qed

end
