(* ===== verification/GoFlag.thy ===== *)
theory GoFlag
  imports GoNumbers
begin

text \<open>
  Command lines as package \<open>flag\<close> reads them, with \<open>ContinueOnError\<close>: flags in front, each with
  one or two dashes and its value after \<open>=\<close> or in the next argument, then the rest. A flag is its
  name, whether it is boolean (and takes no argument of its own), and how it sets its value.
  Also the two value syntaxes used: \<open>strconv.ParseBool\<close>, and \<open>ParseInt\<close> with base 0.
\<close>

section \<open>Values\<close>

definition parse_bool :: "string \<Rightarrow> bool option" where
  "parse_bool s =
     (if s \<in> {''1'', ''t'', ''T'', ''true'', ''TRUE'', ''True''} then Some True
      else if s \<in> {''0'', ''f'', ''F'', ''false'', ''FALSE'', ''False''} then Some False
      else None)"

abbreviation underscore :: char where "underscore \<equiv> CHR ''_''"

text \<open>The value of a digit or letter, of either case.\<close>

definition alnum_val :: "char \<Rightarrow> nat option" where
  "alnum_val c =
     (let n = of_char c :: nat in
      if 48 \<le> n \<and> n \<le> 57 then Some (n - 48)
      else if 97 \<le> n \<and> n \<le> 122 then Some (n - 87)
      else if 65 \<le> n \<and> n \<le> 90 then Some (n - 55)
      else None)"

text \<open>The base that a number's prefix gives, and the rest.\<close>

definition number_base :: "string \<Rightarrow> nat \<times> string" where
  "number_base s =
     (if s \<noteq> [] \<and> hd s = CHR ''0'' then
        (if length s \<ge> 3 \<and> s ! 1 \<in> {CHR ''b'', CHR ''B''} then (2, drop 2 s)
         else if length s \<ge> 3 \<and> s ! 1 \<in> {CHR ''o'', CHR ''O''} then (8, drop 2 s)
         else if length s \<ge> 3 \<and> s ! 1 \<in> {CHR ''x'', CHR ''X''} then (16, drop 2 s)
         else (8, drop 1 s))
      else (10, s))"

fun digits_in :: "nat \<Rightarrow> string \<Rightarrow> nat \<Rightarrow> nat option" where
  "digits_in base [] n = Some n"
| "digits_in base (c # s) n =
     (if c = underscore then digits_in base s n
      else (case alnum_val c of
              None \<Rightarrow> None
            | Some d \<Rightarrow> if d \<ge> base then None else digits_in base s (base * n + d)))"

text \<open>
  Underscores stand only between digits or after the prefix: none is first, last or doubled.
  The digits were checked before.
\<close>

definition underscores_ok :: "string \<Rightarrow> bool" where
  "underscores_ok s \<longleftrightarrow>
     hd s \<noteq> underscore \<and> last s \<noteq> underscore \<and>
     \<not> (\<exists>i < length s - 1. s ! i = underscore \<and> s ! Suc i = underscore)"

definition parse_nat_base0 :: "string \<Rightarrow> nat option" where
  "parse_nat_base0 s =
     (if s = [] then None
      else (case number_base s of (base, ds) \<Rightarrow>
        (case digits_in base ds 0 of
           None \<Rightarrow> None
         | Some n \<Rightarrow> if underscore \<in> set s \<and> \<not> underscores_ok s then None else Some n)))"

definition parse_int_base0 :: "string \<Rightarrow> int option" where
  "parse_int_base0 s =
     (let neg = (s \<noteq> [] \<and> hd s = CHR ''-'');
          body = (if s \<noteq> [] \<and> hd s \<in> {CHR ''+'', CHR ''-''} then tl s else s) in
      case parse_nat_base0 body of
        None \<Rightarrow> None
      | Some n \<Rightarrow> (let i = (if neg then - int n else int n) in if in_int64 i then Some i else None))"

section \<open>Flag sets\<close>

type_synonym 'o flag = "string \<times> bool \<times> (string \<Rightarrow> 'o \<Rightarrow> 'o option)"

definition bool_flag :: "string \<Rightarrow> ((bool \<Rightarrow> bool) \<Rightarrow> 'o \<Rightarrow> 'o) \<Rightarrow> 'o flag" where
  "bool_flag name upd = (name, True, \<lambda>v opts. map_option (\<lambda>b. upd (\<lambda>_. b) opts) (parse_bool v))"

definition int_flag :: "string \<Rightarrow> ((int \<Rightarrow> int) \<Rightarrow> 'o \<Rightarrow> 'o) \<Rightarrow> 'o flag" where
  "int_flag name upd = (name, False, \<lambda>v opts. map_option (\<lambda>i. upd (\<lambda>_. i) opts) (parse_int_base0 v))"

definition string_flag :: "string \<Rightarrow> ((string \<Rightarrow> string) \<Rightarrow> 'o \<Rightarrow> 'o) \<Rightarrow> 'o flag" where
  "string_flag name upd = (name, False, \<lambda>v opts. Some (upd (\<lambda>_. v) opts))"

abbreviation dash :: char where "dash \<equiv> CHR ''-''"

text \<open>
  \<open>FlagSet.parseOne\<close>: whether a flag was there, the options after it and the arguments left, or
  the error. The texts of the errors leave out the quoted value and its reason.
\<close>

definition set_flag ::
  "'o flag list \<Rightarrow> string \<Rightarrow> string option \<Rightarrow> string list \<Rightarrow> 'o \<Rightarrow> string + (bool \<times> 'o \<times> string list)" where
  "set_flag flags name given rest opts =
     (case map_of flags name of
        None \<Rightarrow>
          Inl (if name \<in> {''help'', ''h''} then ''flag: help requested''
               else ''flag provided but not defined: -'' @ name)
      | Some (True, setter) \<Rightarrow>
          (case setter (case given of None \<Rightarrow> ''true'' | Some v \<Rightarrow> v) opts of
             None \<Rightarrow> Inl (''invalid boolean value for -'' @ name)
           | Some opts \<Rightarrow> Inr (True, opts, rest))
      | Some (False, setter) \<Rightarrow>
          (case (case given of Some v \<Rightarrow> Some (v, rest)
                 | None \<Rightarrow> (case rest of [] \<Rightarrow> None | v # rest \<Rightarrow> Some (v, rest))) of
             None \<Rightarrow> Inl (''flag needs an argument: -'' @ name)
           | Some (v, rest) \<Rightarrow>
               (case setter v opts of
                  None \<Rightarrow> Inl (''invalid value for flag -'' @ name)
                | Some opts \<Rightarrow> Inr (True, opts, rest))))"

fun parse_one :: "'o flag list \<Rightarrow> string list \<Rightarrow> 'o \<Rightarrow> string + (bool \<times> 'o \<times> string list)" where
  "parse_one flags [] opts = Inr (False, opts, [])"
| "parse_one flags (arg # rest) opts =
     (if length arg < 2 \<or> hd arg \<noteq> dash then Inr (False, opts, arg # rest)
      else if arg = ''--'' then Inr (False, opts, rest)
      else
        (let name = (if arg ! 1 = dash then drop 2 arg else drop 1 arg) in
         if name = [] \<or> hd name \<in> {dash, CHR ''=''} then Inl (''bad flag syntax: '' @ arg)
         else
           (case cut_at (CHR ''='') name of
              None \<Rightarrow> set_flag flags name None rest opts
            | Some (name, v) \<Rightarrow> set_flag flags name (Some v) rest opts)))"

lemma set_flag_sets:
  assumes "set_flag flags name given rest opts = Inr (seen, opts', rest')"
  shows "seen \<and> length rest' \<le> length rest \<and> (\<exists>name b setter v. (name, b, setter) \<in> set flags \<and> setter v opts = Some opts')"
  using assms
  by (auto simp: set_flag_def split: option.splits bool.splits prod.splits list.splits dest!: map_of_SomeD)

lemma parse_one_sets:
  assumes "parse_one flags args opts = Inr (seen, opts', rest)"
  shows "if seen then length rest < length args \<and> (\<exists>name b setter v. (name, b, setter) \<in> set flags \<and> setter v opts = Some opts')
    else opts' = opts"
proof (cases args)
  case (Cons arg args')
  have "?thesis" if "set_flag flags name given args' opts = Inr (seen, opts', rest)" for name given
    using set_flag_sets [OF that] Cons by simp
  then show ?thesis using assms Cons by (auto simp: Let_def split: if_splits option.splits)
qed (use assms in simp)

lemma parse_one_shrinks: "parse_one flags args opts = Inr (True, opts', rest) \<Longrightarrow> length rest < length args"
  using parse_one_sets [of flags args opts True opts' rest] by simp

function parse_flags :: "'o flag list \<Rightarrow> string list \<Rightarrow> 'o \<Rightarrow> string + ('o \<times> string list)" where
  "parse_flags flags args opts =
     (case parse_one flags args opts of
        Inl err \<Rightarrow> Inl err
      | Inr (seen, opts, rest) \<Rightarrow> if seen then parse_flags flags rest opts else Inr (opts, rest))"
  by pat_completeness auto
termination
  by (relation "measure (\<lambda>(flags, args, opts). length args)", rule wf_measure)
    (auto simp del: parse_one.simps dest: parse_one_shrinks)

declare parse_flags.simps [simp del]

text \<open>What holds of the options first and is kept by every flag holds of the options read.\<close>

lemma parse_flags_keep:
  assumes "parse_flags flags args opts = Inr (opts', rest)" and "P opts"
    and "\<And>name b setter v x y. (name, b, setter) \<in> set flags \<Longrightarrow> P x \<Longrightarrow> setter v x = Some y \<Longrightarrow> P y"
  shows "P opts'"
  using assms
proof (induction "length args" arbitrary: args opts rule: less_induct)
  case less
  have run: "(case parse_one flags args opts of Inl err \<Rightarrow> Inl err
      | Inr (seen, opts, rest) \<Rightarrow> if seen then parse_flags flags rest opts else Inr (opts, rest)) = Inr (opts', rest)"
    using less.prems(1) by (simp only: parse_flags.simps [of flags args opts])
  show ?case
  proof (cases "parse_one flags args opts")
    case (Inr r)
    obtain seen mid later where r: "r = (seen, mid, later)" by (cases r)
    note one = parse_one_sets [OF Inr [unfolded r]]
    show ?thesis
    proof (cases seen)
      case True
      then obtain name b setter v where o: "length later < length args" "(name, b, setter) \<in> set flags" "setter v opts = Some mid"
        using one by (simp only: if_True) blast
      have "parse_flags flags later mid = Inr (opts', rest)" using run Inr r True by simp
      from less.hyps [OF o(1) this less.prems(3) [OF o(2) less.prems(2) o(3)]] less.prems(3) show ?thesis by blast
    next
      case False
      then show ?thesis using run Inr r one less.prems(2) by simp
    qed
  qed (use run in simp)
qed

end
