(* ===== verification/Cli.thy ===== *)
theory Cli
  imports CtlSock GoFlag
begin

text \<open>
  The command line client (\<open>cmd/chatbubbles-cli/main.go\<close>): it asks the control socket and prints
  the answer. What comes of sending a text to a socket is a parameter; so is the drawing of a
  QR code. A command is an error, or the text it prints.
\<close>

section \<open>Asking the socket\<close>

text \<open>
  A peer at a path: dialling it and sending a text fails, or gives the text received, and
  changes the peer's state.
\<close>

type_synonym 's peer = "string \<Rightarrow> string \<Rightarrow> 's \<Rightarrow> string res \<times> 's"

definition socket_request :: "'s peer \<Rightarrow> string \<Rightarrow> json \<Rightarrow> 's \<Rightarrow> json res \<times> 's" where
  "socket_request peer socket_path req s =
     (case peer socket_path (write_response req) s of
        (Inl err, s) \<Rightarrow> (Inl err, s)
      | (Inr raw, s) \<Rightarrow>
          (case decode_first raw of
             None \<Rightarrow> (Inl (ErrMsg ''unexpected EOF''), s)
           | Some (resp, rest) \<Rightarrow> (Inr resp, s)))"

text \<open>
  A request, its reply read into a struct, and the error in the reply; each command does
  this. The texts of the decoder's errors are left out.
\<close>

definition ask ::
  "'s peer \<Rightarrow> string \<Rightarrow> json \<Rightarrow> 'b field list \<Rightarrow> 'b \<Rightarrow> ('b \<Rightarrow> string) \<Rightarrow> 's \<Rightarrow> 'b res \<times> 's" where
  "ask peer socket_path req flds zero error_of s =
     (case socket_request peer socket_path req s of
        (Inl err, s) \<Rightarrow> (Inl err, s)
      | (Inr resp, s) \<Rightarrow>
          (case unmarshal_struct flds resp zero of
             None \<Rightarrow> (Inl (ErrMsg ''json: cannot unmarshal''), s)
           | Some body \<Rightarrow> (if error_of body \<noteq> [] then Inl (ErrMsg (error_of body)) else Inr body, s)))"

definition command_json :: "string \<Rightarrow> json" where
  "command_json cmd = JObj [(''cmd'', JStr cmd)]"

definition out_line :: "string \<Rightarrow> string \<Rightarrow> string" where
  "out_line label v = label @ '': '' @ v @ [CHR 0x0A]"

section \<open>pair\<close>

record pair_options =
  po_ttl :: int
  po_admin :: bool

definition pair_flags :: "pair_options flag list" where
  "pair_flags = [int_flag ''ttl'' po_ttl_update, bool_flag ''admin'' po_admin_update]"

record code_reply =
  cp_code :: string
  cp_expires_at :: string
  cp_scopes :: "string list"
  cp_error :: string

definition code_reply_fields :: "code_reply field list" where
  "code_reply_fields =
     [(''code'', string_field cp_code_update), (''expires_at'', string_field cp_expires_at_update),
      (''scopes'', slice_field string_elem cp_scopes_update), (''error'', string_field cp_error_update)]"

definition no_code :: code_reply where
  "no_code = \<lparr>cp_code = [], cp_expires_at = [], cp_scopes = [], cp_error = []\<rparr>"

record host_reply =
  hp_pair_host :: string
  hp_tls_fingerprint :: string
  hp_error :: string

definition host_reply_fields :: "host_reply field list" where
  "host_reply_fields =
     [(''pair_host'', string_field hp_pair_host_update), (''tls_fingerprint'', string_field hp_tls_fingerprint_update),
      (''error'', string_field hp_error_update)]"

definition no_host :: host_reply where
  "no_host = \<lparr>hp_pair_host = [], hp_tls_fingerprint = [], hp_error = []\<rparr>"

definition code_request :: "pair_options \<Rightarrow> json" where
  "code_request opts = JObj
     [(''cmd'', JStr ''generate_pairing_code''),
      (''scopes'', JArr (map JStr ([''read'', ''send'', ''attach''] @ (if po_admin opts then [''admin''] else [])))),
      (''ttl'', JInt (po_ttl opts))]"

text \<open>What the QR code holds.\<close>

definition pair_payload :: "string \<Rightarrow> string \<Rightarrow> string \<Rightarrow> string" where
  "pair_payload host fingerprint code = json_text False (JObj
     [(''c'', JStr code), (''fp'', JStr fingerprint), (''h'', JStr host), (''v'', JInt 1)])"

definition run_pair :: "(string \<Rightarrow> string) \<Rightarrow> 's peer \<Rightarrow> string \<Rightarrow> string list \<Rightarrow> 's \<Rightarrow> string res \<times> 's" where
  "run_pair qr peer socket_path args s =
     (case parse_flags pair_flags args \<lparr>po_ttl = 120, po_admin = False\<rparr> of
        Inl err \<Rightarrow> (Inl (ErrMsg err), s)
      | Inr (opts, rest) \<Rightarrow>
          (case ask peer socket_path (code_request opts) code_reply_fields no_code cp_error s of
             (Inl err, s) \<Rightarrow> (Inl err, s)
           | (Inr body, s) \<Rightarrow>
               (case ask peer socket_path (command_json ''status'') host_reply_fields no_host hp_error s of
                  (Inl err, s) \<Rightarrow> (Inl err, s)
                | (Inr st, s) \<Rightarrow>
                    if hp_pair_host st = [] \<or> hp_tls_fingerprint st = []
                    then (Inl (ErrMsg ''status is missing pair_host or tls_fingerprint''), s)
                    else
                      (let payload = pair_payload (hp_pair_host st) (hp_tls_fingerprint st) (cp_code body) in
                       (Inr (out_line ''code'' (cp_code body) @
                             out_line ''expires_at'' (cp_expires_at body) @
                             out_line ''scopes'' (join_with '','' (cp_scopes body)) @
                             out_line ''pair_host'' (hp_pair_host st) @
                             out_line ''tls_fingerprint'' (hp_tls_fingerprint st) @
                             ''qr:'' @ [CHR 0x0A] @
                             qr payload @
                             out_line ''payload'' payload), s)))))"

section \<open>status\<close>

record status_reply =
  sp_server_name :: string
  sp_version :: string
  sp_imsg_version :: string
  sp_tailscale_ip :: string
  sp_pair_host :: string
  sp_tls_fingerprint :: string
  sp_uptime_seconds :: int
  sp_error :: string

definition status_reply_fields :: "status_reply field list" where
  "status_reply_fields =
     [(''server_name'', string_field sp_server_name_update), (''version'', string_field sp_version_update),
      (''imsg_version'', string_field sp_imsg_version_update), (''tailscale_ip'', string_field sp_tailscale_ip_update),
      (''pair_host'', string_field sp_pair_host_update), (''tls_fingerprint'', string_field sp_tls_fingerprint_update),
      (''uptime_seconds'', int_field sp_uptime_seconds_update), (''error'', string_field sp_error_update)]"

definition no_status :: status_reply where
  "no_status = \<lparr>sp_server_name = [], sp_version = [], sp_imsg_version = [], sp_tailscale_ip = [], sp_pair_host = [],
     sp_tls_fingerprint = [], sp_uptime_seconds = 0, sp_error = []\<rparr>"

definition run_status :: "'s peer \<Rightarrow> string \<Rightarrow> 's \<Rightarrow> string res \<times> 's" where
  "run_status peer socket_path s =
     (case ask peer socket_path (command_json ''status'') status_reply_fields no_status sp_error s of
        (Inl err, s) \<Rightarrow> (Inl err, s)
      | (Inr body, s) \<Rightarrow>
          (Inr (out_line ''server_name'' (sp_server_name body) @
                out_line ''version'' (sp_version body) @
                out_line ''imsg_version'' (sp_imsg_version body) @
                (if sp_tailscale_ip body \<noteq> [] then out_line ''tailscale_ip'' (sp_tailscale_ip body) else []) @
                (if sp_pair_host body \<noteq> [] then out_line ''pair_host'' (sp_pair_host body) else []) @
                out_line ''tls_fingerprint'' (sp_tls_fingerprint body) @
                out_line ''uptime_seconds'' (int_text (sp_uptime_seconds body))), s))"

section \<open>clients\<close>

record client_row =
  cw_id :: string
  cw_name :: string
  cw_type :: string
  cw_scopes :: "string list"
  cw_revoked :: bool
  cw_last_seen :: string

definition client_row_fields :: "client_row field list" where
  "client_row_fields =
     [(''id'', string_field cw_id_update), (''name'', string_field cw_name_update), (''type'', string_field cw_type_update),
      (''scopes'', slice_field string_elem cw_scopes_update), (''revoked'', bool_field cw_revoked_update),
      (''last_seen'', string_field cw_last_seen_update)]"

definition no_row :: client_row where
  "no_row = \<lparr>cw_id = [], cw_name = [], cw_type = [], cw_scopes = [], cw_revoked = False, cw_last_seen = []\<rparr>"

record clients_reply =
  cs_clients :: "client_row list"
  cs_error :: string

definition clients_reply_fields :: "clients_reply field list" where
  "clients_reply_fields =
     [(''clients'', slice_field (\<lambda>j. unmarshal_struct client_row_fields j no_row) cs_clients_update),
      (''error'', string_field cs_error_update)]"

definition client_line :: "client_row \<Rightarrow> string" where
  "client_line c =
     (let tab = [CHR 0x09] in
      cw_id c @ tab @ cw_type c @ tab @ cw_name c @ tab @ join_with '','' (cw_scopes c) @ tab @
      ''revoked='' @ (if cw_revoked c then ''true'' else ''false'') @ tab @
      ''last_seen='' @ cw_last_seen c @ [CHR 0x0A])"

definition run_clients :: "'s peer \<Rightarrow> string \<Rightarrow> 's \<Rightarrow> string res \<times> 's" where
  "run_clients peer socket_path s =
     (case ask peer socket_path (command_json ''list_clients'') clients_reply_fields
             \<lparr>cs_clients = [], cs_error = []\<rparr> cs_error s of
        (Inl err, s) \<Rightarrow> (Inl err, s)
      | (Inr body, s) \<Rightarrow> (Inr (concat (map client_line (cs_clients body))), s))"

section \<open>revoke\<close>

record ok_reply =
  ok_flag :: bool
  ok_error :: string

definition ok_reply_fields :: "ok_reply field list" where
  "ok_reply_fields = [(''ok'', bool_field ok_flag_update), (''error'', string_field ok_error_update)]"

definition revoke_request :: "string \<Rightarrow> json" where
  "revoke_request cid = JObj [(''client_id'', JStr cid), (''cmd'', JStr ''revoke_client'')]"

definition run_revoke :: "'s peer \<Rightarrow> string \<Rightarrow> string list \<Rightarrow> 's \<Rightarrow> string res \<times> 's" where
  "run_revoke peer socket_path args s =
     (case args of
        [cid] \<Rightarrow>
          (case ask peer socket_path (revoke_request cid) ok_reply_fields \<lparr>ok_flag = False, ok_error = []\<rparr> ok_error s of
             (Inl err, s) \<Rightarrow> (Inl err, s)
           | (Inr body, s) \<Rightarrow>
               if \<not> ok_flag body then (Inl (ErrMsg ''client not found''), s)
               else (Inr (''ok'' @ [CHR 0x0A]), s))
      | _ \<Rightarrow> (Inl (ErrMsg ''usage: chatbubbles-cli revoke <client-id>''), s))"

section \<open>The command line\<close>

definition default_socket_path :: "string option \<Rightarrow> string" where
  "default_socket_path home =
     (case home of
        None \<Rightarrow> ''chatbubbles.sock''
      | Some dir \<Rightarrow> path_join [dir, ''.local'', ''share'', ''chatbubbles'', ''chatbubbles.sock''])"

text \<open>The options of the program are the path of the socket.\<close>

record cli_options =
  co_socket :: string

definition run_cli :: "(string \<Rightarrow> string) \<Rightarrow> 's peer \<Rightarrow> string option \<Rightarrow> string list \<Rightarrow> 's \<Rightarrow> string res \<times> 's" where
  "run_cli qr peer home args s =
     (case parse_flags [string_flag ''socket'' co_socket_update] args \<lparr>co_socket = default_socket_path home\<rparr> of
        Inl err \<Rightarrow> (Inl (ErrMsg err), s)
      | Inr (opts, []) \<Rightarrow>
          (Inl (ErrMsg ''usage: chatbubbles-cli [--socket path] <pair|status|clients|revoke>''), s)
      | Inr (opts, cmd # rest) \<Rightarrow>
          if cmd = ''pair'' then run_pair qr peer (co_socket opts) rest s
          else if cmd = ''status'' then run_status peer (co_socket opts) s
          else if cmd = ''clients'' then run_clients peer (co_socket opts) s
          else if cmd = ''revoke'' then run_revoke peer (co_socket opts) rest s
          else (Inl (ErrMsg (''unknown command '' @ dquote # cmd @ [dquote])), s))"

text \<open>Standard output, standard error and the exit status.\<close>

definition cli_main :: "(string \<Rightarrow> string) \<Rightarrow> 's peer \<Rightarrow> string option \<Rightarrow> string list \<Rightarrow> 's \<Rightarrow> (string \<times> string \<times> int) \<times> 's" where
  "cli_main qr peer home args s =
     (case run_cli qr peer home args s of
        (Inl err, s) \<Rightarrow> (([], error_text err @ [CHR 0x0A], 1), s)
      | (Inr out, s) \<Rightarrow> ((out, [], 0), s))"

end
