(* ===== verification/CliProps.thy ===== *)
theory CliProps
  imports Cli
begin

text \<open>
  What the command line client shows of the daemon: its requests arrive as they were meant, its
  replies are read back as they were written, and what a command prints is what the daemon did.
\<close>

section \<open>Requests arrive\<close>

lemma read_response: "writable j \<Longrightarrow> decode_first (write_response j) = Some (j, [CHR 0x0A])"
  unfolding write_response_def by (rule decode_first_text) (simp_all add: num_end_def is_digit_def)

lemma ctl_request_written:
  "writable j \<Longrightarrow> ctl_request_of (write_response j) =
     unmarshal_struct ctl_fields j \<lparr>cr_cmd = [], cr_ttl = 0, cr_scopes = [], cr_client_id = []\<rparr>"
  by (simp add: ctl_request_of_def read_response)

lemma ctl_field_setters:
  "find_field ctl_fields ''cmd'' = Some (string_field cr_cmd_update)"
  "find_field ctl_fields ''ttl'' = Some (int_field cr_ttl_update)"
  "find_field ctl_fields ''scopes'' = Some (slice_field string_elem cr_scopes_update)"
  "find_field ctl_fields ''client_id'' = Some (string_field cr_client_id_update)"
  by (rule find_field_exact, simp add: ctl_fields_def)+

lemma writable_requests:
  "writable (command_json cmd)" "writable (code_request opts)" "writable (revoke_request cid)"
  by (simp_all add: command_json_def code_request_def revoke_request_def)

definition cli_scopes :: "pair_options \<Rightarrow> string list" where
  "cli_scopes opts = [''read'', ''send'', ''attach''] @ (if po_admin opts then [''admin''] else [])"

lemma requests_arrive:
  "ctl_request_of (write_response (command_json cmd)) = Some \<lparr>cr_cmd = cmd, cr_ttl = 0, cr_scopes = [], cr_client_id = []\<rparr>"
  "ctl_request_of (write_response (revoke_request cid)) =
     Some \<lparr>cr_cmd = ''revoke_client'', cr_ttl = 0, cr_scopes = [], cr_client_id = cid\<rparr>"
  "in_int64 (po_ttl opts) \<Longrightarrow> ctl_request_of (write_response (code_request opts)) =
     Some \<lparr>cr_cmd = ''generate_pairing_code'', cr_ttl = po_ttl opts, cr_scopes = cli_scopes opts, cr_client_id = []\<rparr>"
  by (simp_all add: ctl_request_written writable_requests)
    (simp_all add: command_json_def code_request_def revoke_request_def cli_scopes_def unmarshal_struct_JObj
      ctl_field_setters string_field_def int_field_def slice_field_def string_elem_def)

section \<open>Replies are read\<close>

lemma reply_field_setters:
  "find_field code_reply_fields ''code'' = Some (string_field cp_code_update)"
  "find_field code_reply_fields ''expires_at'' = Some (string_field cp_expires_at_update)"
  "find_field code_reply_fields ''scopes'' = Some (slice_field string_elem cp_scopes_update)"
  "find_field code_reply_fields ''error'' = Some (string_field cp_error_update)"
  "find_field host_reply_fields ''pair_host'' = Some (string_field hp_pair_host_update)"
  "find_field host_reply_fields ''tls_fingerprint'' = Some (string_field hp_tls_fingerprint_update)"
  "find_field host_reply_fields ''error'' = Some (string_field hp_error_update)"
  "find_field ok_reply_fields ''ok'' = Some (bool_field ok_flag_update)"
  "find_field ok_reply_fields ''error'' = Some (string_field ok_error_update)"
  by (rule find_field_exact, simp add: code_reply_fields_def host_reply_fields_def ok_reply_fields_def)+

text \<open>Members of the status that the pair command does not look at.\<close>

lemma host_reply_skips:
  "find_field host_reply_fields ''server_name'' = None" "find_field host_reply_fields ''version'' = None"
  "find_field host_reply_fields ''imsg_version'' = None" "find_field host_reply_fields ''tailscale_ip'' = None"
  "find_field host_reply_fields ''uptime_seconds'' = None" "find_field host_reply_fields ''clients'' = None"
  by code_simp+

lemma writable_client: "writable (client_json c)"
  by (simp add: client_json_def writable_slice_json writable_leaves list_all_omit_empty)

lemma writable_replies:
  "writable (pairing_json g)" "writable (status_json st)" "writable (JObj [(''ok'', JBool b)])"
  by (simp_all add: pairing_json_def status_json_def writable_slice_json writable_leaves list_all_omit_empty writable_client)

lemma read_code:
  "unmarshal_struct code_reply_fields (pairing_json g) no_code =
     Some \<lparr>cp_code = pg_code g, cp_expires_at = fmt_rfc3339 (pg_expires_at g), cp_scopes = pg_scopes g, cp_error = []\<rparr>"
  by (simp add: pairing_json_def no_code_def unmarshal_struct_JObj reply_field_setters string_field_def slice_field_def
      slice_json_def string_elem_def all_some_map comp_def)

lemma read_host:
  "unmarshal_struct host_reply_fields (status_json st) no_host =
     Some \<lparr>hp_pair_host = ss_pair_host st, hp_tls_fingerprint = ss_tls_fingerprint st, hp_error = []\<rparr>"
  by (simp add: status_json_def no_host_def unmarshal_struct_JObj set_members_append reply_field_setters host_reply_skips
      string_field_def omit_empty_def)

lemma read_ok:
  "unmarshal_struct ok_reply_fields (JObj [(''ok'', JBool b)]) \<lparr>ok_flag = False, ok_error = []\<rparr> =
     Some \<lparr>ok_flag = b, ok_error = []\<rparr>"
  by (simp add: unmarshal_struct_JObj reply_field_setters bool_field_def)

lemma read_error:
  "unmarshal_struct code_reply_fields (JObj [(''error'', JStr m)]) no_code = Some (no_code\<lparr>cp_error := m\<rparr>)"
  "unmarshal_struct host_reply_fields (JObj [(''error'', JStr m)]) no_host = Some (no_host\<lparr>hp_error := m\<rparr>)"
  "unmarshal_struct ok_reply_fields (JObj [(''error'', JStr m)]) \<lparr>ok_flag = False, ok_error = []\<rparr> =
     Some \<lparr>ok_flag = False, ok_error = m\<rparr>"
  by (simp_all add: unmarshal_struct_JObj reply_field_setters string_field_def no_code_def no_host_def)

section \<open>Flags\<close>

lemma parse_int_base0_range: "parse_int_base0 s = Some i \<Longrightarrow> in_int64 i"
  by (auto simp: parse_int_base0_def Let_def split: option.splits if_splits)

lemma pair_flags_range:
  assumes "parse_flags pair_flags args \<lparr>po_ttl = 120, po_admin = False\<rparr> = Inr (opts, rest)"
  shows "in_int64 (po_ttl opts)"
  using assms
proof (rule parse_flags_keep)
  show "in_int64 (po_ttl \<lparr>po_ttl = 120, po_admin = False\<rparr>)"
    by (simp add: in_int64_def min_int64_def max_int64_def)
  show "in_int64 (po_ttl y)" if "(name, b, setter) \<in> set pair_flags" "in_int64 (po_ttl x)" "setter v x = Some y"
    for name b setter v x y
    using that parse_int_base0_range by (auto simp: pair_flags_def int_flag_def bool_flag_def)
qed

section \<open>The contract of the daemon's end\<close>

text \<open>
  What the client relies on: at the path of the socket every text is answered by the handler of
  a connection, and the daemon never fails with an empty message, which the client would take
  for success.
\<close>

locale control_client =
  fixes gen :: "int \<Rightarrow> string list \<Rightarrow> pairing_code op"
    and clients :: "client list op"
    and revoke :: "string \<Rightarrow> bool op"
    and status :: "status op"
    and peer :: "world peer"
    and path :: string
  assumes answers: "peer path sent w =
      (case handle_conn gen clients revoke status sent w of (reply, w') \<Rightarrow> (Inr reply, w'))"
    and gen_speaks: "gen ttl scopes w = (Inl err, w') \<Longrightarrow> error_text err \<noteq> []"
    and status_speaks: "status w = (Inl err, w') \<Longrightarrow> error_text err \<noteq> []"
begin

text \<open>A request whose reply is known is read as that reply.\<close>

lemma ask_reply:
  assumes "handle_conn gen clients revoke status (write_response req) w = (write_response reply, w')"
    and "writable reply" and "unmarshal_struct flds reply zero = Some body"
  shows "ask peer path req flds zero error_of w =
    (if error_of body \<noteq> [] then Inl (ErrMsg (error_of body)) else Inr body, w')"
  using assms by (simp add: ask_def socket_request_def answers read_response)

lemmas error_reply = ask_reply [where reply = "JObj [(''error'', JStr m)]" for m, folded ctl_error_def]

lemma ask_code:
  assumes "in_int64 (po_ttl opts)"
  shows "ask peer path (code_request opts) code_reply_fields no_code cp_error w =
    (case gen (wrap_int64 (po_ttl opts * second)) (cli_scopes opts) w of
       (Inl err, w') \<Rightarrow> (Inl (ErrMsg (error_text err)), w')
     | (Inr g, w') \<Rightarrow>
         (Inr \<lparr>cp_code = pg_code g, cp_expires_at = fmt_rfc3339 (pg_expires_at g), cp_scopes = pg_scopes g, cp_error = []\<rparr>, w'))"
proof -
  obtain r w' where g: "gen (wrap_int64 (po_ttl opts * second)) (cli_scopes opts) w = (r, w')" by fastforce
  have cmd: "trim_space ''generate_pairing_code'' = ''generate_pairing_code''" by code_simp
  show ?thesis
  proof (cases r)
    case (Inl err)
    have h: "handle_conn gen clients revoke status (write_response (code_request opts)) w = (ctl_error (error_text err), w')"
      using g Inl by (simp add: handle_conn_def requests_arrive assms cmd)
    show ?thesis using error_reply [OF h _ read_error(1)] gen_speaks g Inl by simp
  next
    case (Inr c)
    have h: "handle_conn gen clients revoke status (write_response (code_request opts)) w = (write_response (pairing_json c), w')"
      using g Inr by (simp add: handle_conn_def requests_arrive assms cmd)
    show ?thesis using ask_reply [OF h writable_replies(1) read_code] g Inr by simp
  qed
qed

lemma ask_host:
  "ask peer path (command_json ''status'') host_reply_fields no_host hp_error w =
    (case status w of
       (Inl err, w') \<Rightarrow> (Inl (ErrMsg (error_text err)), w')
     | (Inr st, w') \<Rightarrow>
         (Inr \<lparr>hp_pair_host = ss_pair_host st, hp_tls_fingerprint = ss_tls_fingerprint st, hp_error = []\<rparr>, w'))"
proof -
  obtain r w' where g: "status w = (r, w')" by fastforce
  have cmd: "trim_space ''status'' = ''status''" by code_simp
  show ?thesis
  proof (cases r)
    case (Inl err)
    have h: "handle_conn gen clients revoke status (write_response (command_json ''status'')) w = (ctl_error (error_text err), w')"
      using g Inl by (simp add: handle_conn_def requests_arrive cmd)
    show ?thesis using error_reply [OF h _ read_error(2)] status_speaks g Inl by simp
  next
    case (Inr st)
    have h: "handle_conn gen clients revoke status (write_response (command_json ''status'')) w = (write_response (status_json st), w')"
      using g Inr by (simp add: handle_conn_def requests_arrive cmd)
    show ?thesis using ask_reply [OF h writable_replies(2) read_host] g Inr by simp
  qed
qed

text \<open>The pair command, given the options it reads.\<close>

lemma run_pair_result:
  assumes "parse_flags pair_flags args \<lparr>po_ttl = 120, po_admin = False\<rparr> = Inr (opts, rest)"
    and "run_pair qr peer path args w = (Inr out, w2)"
  shows "\<exists>g w1 st. gen (wrap_int64 (po_ttl opts * second)) (cli_scopes opts) w = (Inr g, w1) \<and> status w1 = (Inr st, w2) \<and>
    ss_pair_host st \<noteq> [] \<and> ss_tls_fingerprint st \<noteq> [] \<and>
    suffix (out_line ''payload'' (pair_payload (ss_pair_host st) (ss_tls_fingerprint st) (pg_code g))) out"
  using assms(2)
  by (auto simp: run_pair_def assms(1) ask_code [OF pair_flags_range [OF assms(1)]] ask_host Let_def suffix_def
      split: prod.splits sum.splits if_splits)

lemma run_pair_succeeds:
  assumes "parse_flags pair_flags args \<lparr>po_ttl = 120, po_admin = False\<rparr> = Inr (opts, rest)"
    and "gen (wrap_int64 (po_ttl opts * second)) (cli_scopes opts) w = (Inr g, w1)" and "status w1 = (Inr st, w2)"
    and "ss_pair_host st \<noteq> []" and "ss_tls_fingerprint st \<noteq> []"
  shows "\<exists>out. run_pair qr peer path args w = (Inr out, w2)"
  using assms(2-) by (simp add: run_pair_def assms(1) ask_code [OF pair_flags_range [OF assms(1)]] ask_host Let_def)

text \<open>The revoke command says ok exactly if the daemon revoked the client.\<close>

lemma run_revoke_result:
  "run_revoke peer path [cid] w =
    (case revoke cid w of
       (Inl err, w') \<Rightarrow> (Inl (ErrMsg (if error_text err = [] then ''client not found'' else error_text err)), w')
     | (Inr ok, w') \<Rightarrow> (if ok then Inr (''ok'' @ [CHR 0x0A]) else Inl (ErrMsg ''client not found''), w'))"
proof -
  obtain r w' where g: "revoke cid w = (r, w')" by fastforce
  have cmd: "trim_space ''revoke_client'' = ''revoke_client''" by code_simp
  show ?thesis
  proof (cases r)
    case (Inl err)
    have h: "handle_conn gen clients revoke status (write_response (revoke_request cid)) w = (ctl_error (error_text err), w')"
      using g Inl by (simp add: handle_conn_def requests_arrive cmd)
    show ?thesis using error_reply [OF h _ read_error(3)] g Inl by (simp add: run_revoke_def)
  next
    case (Inr ok)
    have h: "handle_conn gen clients revoke status (write_response (revoke_request cid)) w =
        (write_response (JObj [(''ok'', JBool ok)]), w')"
      using g Inr by (simp add: handle_conn_def requests_arrive cmd)
    show ?thesis using ask_reply [OF h writable_replies(3) read_ok] g Inr by (simp add: run_revoke_def)
  qed
qed

end

end
