(* ===== verification/PairFlow.thy ===== *)
theory PairFlow
  imports Daemon CliProps
begin

text \<open>
  From the command line to a paired device: the client of the control socket against the daemon,
  and then the daemon's HTTP server against the device that has read the code.
\<close>

section \<open>The daemon as the client's peer\<close>

definition daemon_peer :: "server \<Rightarrow> auth_service \<Rightarrow> exec \<Rightarrow> string \<Rightarrow> string \<Rightarrow> string \<Rightarrow> world peer" where
  "daemon_peer s sv exec host fingerprint socket path sent w =
     (if path \<noteq> socket then (Inl (ErrMsg ''dial unix: no such file''), w)
      else
        (case handle_conn (generate_pairing_code sv) (list_clients sv) (revoke_client sv)
                (daemon_status s sv exec host fingerprint) sent w of
           (reply, w) \<Rightarrow> (Inr reply, w)))"

text \<open>No error of the daemon has an empty text.\<close>

lemma load_speaks: "store_load w = (Inl err, w') \<Longrightarrow> error_text err \<noteq> []"
  by (auto simp: store_load_def error_text_def split: prod.splits option.splits)

lemma save_speaks: "store_save cfg w = (Inl err, w') \<Longrightarrow> error_text err \<noteq> []"
  by (auto simp: store_save_def error_text_def split: prod.splits option.splits if_splits)

lemma generate_speaks: "generate_pairing_code sv ttl scopes w = (Inl err, w') \<Longrightarrow> error_text err \<noteq> []"
  by (auto simp: generate_pairing_code_def store_update_def generate_code_fn_def with_eff_def Let_def
      dest: load_speaks save_speaks split: prod.splits sum.splits)

lemma version_speaks: "version exec r = Inl err \<Longrightarrow> error_text err \<noteq> []"
  by (auto simp: version_def run_def error_text_def Let_def split: sum.splits exec_outcome.splits list.splits)

lemma status_speaks: "daemon_status s sv exec host fingerprint w = (Inl err, w') \<Longrightarrow> error_text err \<noteq> []"
  by (auto simp: daemon_status_def list_clients_def dest: load_speaks version_speaks split: prod.splits sum.splits)

interpretation cli: control_client "generate_pairing_code sv" "list_clients sv" "revoke_client sv"
  "daemon_status s sv exec host fingerprint" "daemon_peer s sv exec host fingerprint socket" socket
  for s sv exec host fingerprint socket
proof
  show "daemon_peer s sv exec host fingerprint socket socket sent w =
      (case handle_conn (generate_pairing_code sv) (list_clients sv) (revoke_client sv)
         (daemon_status s sv exec host fingerprint) sent w of (reply, w') \<Rightarrow> (Inr reply, w'))" for sent w
    by (simp add: daemon_peer_def)
qed (use generate_speaks status_speaks in blast)+

lemma daemon_status_ok:
  "daemon_status s sv exec host fingerprint w = (Inr st, w') \<Longrightarrow>
     ss_pair_host st = host \<and> ss_tls_fingerprint st = fingerprint \<and> stored w' = stored w"
  using daemon_status_same [of s sv exec host fingerprint w "Inr st" w']
  by (auto simp: daemon_status_def split: prod.splits sum.splits)

section \<open>A pairing request\<close>

lemma limit_call_world:
  assumes "limit_call key 5 minute st = (a, st1)" and "key \<noteq> []"
  shows "stored (st_world st1) = stored (st_world st)" "no_faults (st_world st1) = no_faults (st_world st)"
    "clock (w_eff (st_world st1)) i = clock (w_eff (st_world st)) (Suc i)"
  using assms
  by (auto simp: limit_call_def on_eff_def with_eff_def allow_def time_now_def no_faults_def Let_def
      intro!: stored_cong split: prod.splits option.splits if_splits)

text \<open>A request that gets past the limiter with a live code is answered 200 with the code's scopes.\<close>

lemma pair_request_served:
  assumes "sr_pairing s = Some sv" and "is_pair_request r" and "serve s env events r st = (resp, st')" and "rs_status resp \<noteq> 429"
    and "decode_body pair_body_fields \<lparr>pb_code = [], pb_client_name = [], pb_client_type = []\<rparr> r = Some body"
    and "to_upper (trim_space (pb_code body)) = pc_code p" and "pc_code p \<noteq> []"
    and "trim_space (pb_client_name body) \<noteq> []" and "trim_space (pb_client_type body) \<noteq> []"
    and "no_faults (st_world st)" and "stored (st_world st) = Some c" and "marshalable c"
    and "p \<in> set (cfg_pairing_codes c)" and "\<forall>q \<in> set (cfg_pairing_codes c). pc_code q = pc_code p \<longrightarrow> q = p"
    and "clock (w_eff (st_world st)) 1 < pc_expires_at p" and "time_in_range (clock (w_eff (st_world st)) 1)"
  shows "\<exists>result. rs_status resp = 200 \<and> rs_body resp = rs_body (write_json [] 200 (pair_result_json s result)) \<and>
    pr_scopes result = pc_scopes p"
proof -
  let ?key = "pair_key (client_ip r)"
  obtain ok retry st1 where l: "limit_call ?key 5 minute st = ((ok, retry), st1)" by (metis surj_pair)
  have key: "''ip:'' @ ''pair'' @ '':'' @ client_ip r = ?key" by (simp add: pair_key_def)
  have "rq_method r \<noteq> ''OPTIONS''" using assms(2) by (simp add: is_pair_request_def)
  then obtain resp0 where h: "limit_by_ip ''pair'' 5 minute (handle_pair s) None r st = (resp0, st')"
    and resp: "rs_status resp = rs_status resp0" "rs_body resp = rs_body resp0"
    using assms(3) pair_route [OF assms(2)]
    by (auto simp: serve_def with_cors_def serve_mux_def Let_def split: prod.splits)
  have h1: "(if ok then handle_pair s None r st1 else (write_rate_limited retry, st1)) = (resp0, st')"
    using h l by (simp add: limit_by_ip_def key del: append.simps split: if_splits)
  then have hp: "handle_pair s None r st1 = (resp0, st')"
    using assms(4) resp(1) write_rate_limited_status [of retry] by (auto split: if_splits)
  have "?key \<noteq> []" by (simp add: pair_key_def)
  note w1 = limit_call_world [OF l this]
  have now: "clock (w_eff (st_world st1)) 0 = clock (w_eff (st_world st)) 1" using w1(3) [of 0] by simp
  then have "p \<in> set (live_codes (clock (w_eff (st_world st1)) 0) c)" using assms(13,15) by (simp add: live_codes_def)
  then obtain result w2 where pr: "pair sv (trim_space (pb_code body)) (trim_space (pb_client_name body))
      (trim_space (pb_client_type body)) (st_world st1) = (Inr result, w2)" "pr_scopes result = pc_scopes p"
    using pending_code_pairs [of "st_world st1" c p "trim_space (pb_code body)" "trim_space (pb_client_name body)"
        "trim_space (pb_client_type body)" sv] w1(1,2) assms now by auto
  have "trim_space (pb_code body) \<noteq> []" using pr(1) by (auto simp: pair_def Let_def to_upper_def)
  then have "resp0 = write_json [] 200 (pair_result_json s result)"
    using hp pr(1) assms(1,5,8,9) by (simp add: handle_pair_def Let_def on_world_def)
  with resp pr(2) show ?thesis by (auto simp: write_json_def)
qed

section \<open>Properties\<close>

text \<open>
  C5. The code on the screen pairs a device: if \<open>chatbubbles-cli pair\<close> succeeds against the
  daemon, it prints the payload with the daemon's host, the fingerprint and the code just
  generated; and a device that then posts this code, in either case and with whitespace around
  it, with a name and a type, before the code expires, is answered 200 with exactly the scopes the
  command asked for, unless its address is rate limited - provided the six random characters
  were not already pending and no system call fails.
\<close>

theorem cli_code_pairs:
  assumes "parse_flags pair_flags args \<lparr>po_ttl = 120, po_admin = False\<rparr> = Inr (opts, rest)"
    and "run_pair qr (daemon_peer s sv exec host fingerprint socket) socket args w = (Inr out, w1)"
    and "stored w = Some c0" and "\<forall>p \<in> set (cfg_pairing_codes c0). pc_code p \<noteq> fst (random_code 6 (w_eff w))"
    and "no_faults w1" and "sr_pairing s = Some sv" and "is_pair_request r"
    and "decode_body pair_body_fields \<lparr>pb_code = [], pb_client_name = [], pb_client_type = []\<rparr> r = Some body"
    and "to_upper (trim_space (pb_code body)) = fst (random_code 6 (w_eff w))"
    and "trim_space (pb_client_name body) \<noteq> []" and "trim_space (pb_client_type body) \<noteq> []"
    and "st_world st = w1" and "serve s env events r st = (resp, st')" and "rs_status resp \<noteq> 429"
    and "ttl = wrap_int64 (po_ttl opts * second)"
    and "clock (w_eff w1) 1 < clock (w_eff w) 0 + (if ttl \<le> 0 then sv_pairing_ttl sv else ttl)"
    and "time_in_range (clock (w_eff w1) 1)"
  shows "suffix (out_line ''payload'' (pair_payload host fingerprint (fst (random_code 6 (w_eff w))))) out \<and>
    (\<exists>result. rs_status resp = 200 \<and> rs_body resp = rs_body (write_json [] 200 (pair_result_json s result)) \<and>
       pr_scopes result = clean_scopes (cli_scopes opts))"
proof -
  obtain g wg st0 where g: "generate_pairing_code sv ttl (cli_scopes opts) w = (Inr g, wg)"
    "daemon_status s sv exec host fingerprint wg = (Inr st0, w1)"
    "suffix (out_line ''payload'' (pair_payload (ss_pair_host st0) (ss_tls_fingerprint st0) (pg_code g))) out"
    using cli.run_pair_result [OF assms(1,2)] assms(15) by blast
  have code: "pg_code g = fst (random_code 6 (w_eff w))"
    using g(1) by (cases rule: generate_pairing_code_cases) simp_all
  have fresh: "\<forall>p \<in> set (cfg_pairing_codes c0). pc_code p \<noteq> pg_code g" using assms(4) code by simp
  from generated_pending [OF g(1) assms(3) fresh] obtain p c where p: "stored wg = Some c" "marshalable c"
    "p \<in> set (cfg_pairing_codes c)" "p = \<lparr>pc_code = pg_code g, pc_scopes = pg_scopes g, pc_expires_at = pg_expires_at g\<rparr>"
    "\<forall>q \<in> set (cfg_pairing_codes c). pc_code q = pc_code p \<longrightarrow> q = p" "length (pg_code g) = 6"
    "pg_scopes g = clean_scopes (if cli_scopes opts = [] then sv_default_scope sv else cli_scopes opts)"
    "pg_expires_at g = clock (w_eff w) 0 + (if ttl \<le> 0 then sv_pairing_ttl sv else ttl)"
    by blast
  have scopes: "pg_scopes g = clean_scopes (cli_scopes opts)" using p(7) by (simp add: cli_scopes_def)
  note st0 = daemon_status_ok [OF g(2)]
  have pcode: "pc_code p = pg_code g" "pc_scopes p = pg_scopes g" "pc_expires_at p = pg_expires_at g"
    by (simp_all only: p(4) pending_pair_code.select_convs)
  have "pg_code g \<noteq> []" using p(6) by force
  then have typed: "to_upper (trim_space (pb_code body)) = pc_code p" "pc_code p \<noteq> []"
    by (simp_all only: pcode code assms(9) not_False_eq_True)
  have disk: "no_faults (st_world st)" "stored (st_world st) = Some c" using assms(5,12) st0 p(1) by simp_all
  have time: "clock (w_eff (st_world st)) 1 < pc_expires_at p" "time_in_range (clock (w_eff (st_world st)) 1)"
    by (simp_all only: assms(12,16,17) pcode p(8))
  obtain result where "rs_status resp = 200" "rs_body resp = rs_body (write_json [] 200 (pair_result_json s result))"
    "pr_scopes result = pc_scopes p"
    using pair_request_served [OF assms(6,7,13,14,8) typed assms(10,11) disk p(2,3,5) time] by blast
  moreover have "suffix (out_line ''payload'' (pair_payload host fingerprint (fst (random_code 6 (w_eff w))))) out"
    using g(3) st0 code by simp
  ultimately show ?thesis using pcode(2) scopes by auto
qed

definition old_imsg :: exec where
  "old_imsg bin args = ExecOk ''imsg 0.4''"

definition phone_body :: json where
  "phone_body = JObj [(''code'', JStr ''abcdef ''), (''client_name'', JStr ''Phone''), (''client_type'', JStr ''ios'')]"

definition phone_request :: request where
  "phone_request = (demo_request ''POST'' [''v1'', ''pair''])\<lparr>rq_body := write_response phone_body\<rparr>"

lemma phone_request_facts:
  "is_pair_request phone_request"
  "decode_body pair_body_fields \<lparr>pb_code = [], pb_client_name = [], pb_client_type = []\<rparr> phone_request =
     Some \<lparr>pb_code = ''abcdef '', pb_client_name = ''Phone'', pb_client_type = ''ios''\<rparr>"
  "to_upper (trim_space ''abcdef '') = ''ABCDEF''"
proof -
  show "is_pair_request phone_request" by (simp add: is_pair_request_def phone_request_def demo_request_def)
  have "writable phone_body" by (simp add: phone_body_def)
  note body = read_response [OF this]
  have "find_field pair_body_fields ''code'' = Some (string_field pb_code_update)"
    "find_field pair_body_fields ''client_name'' = Some (string_field pb_client_name_update)"
    "find_field pair_body_fields ''client_type'' = Some (string_field pb_client_type_update)"
    by (rule find_field_exact, simp add: pair_body_fields_def)+
  then show "decode_body pair_body_fields \<lparr>pb_code = [], pb_client_name = [], pb_client_type = []\<rparr> phone_request =
      Some \<lparr>pb_code = ''abcdef '', pb_client_name = ''Phone'', pb_client_type = ''ios''\<rparr>"
    by (simp add: decode_body_def phone_request_def body) (simp add: phone_body_def unmarshal_struct_JObj string_field_def)
  show "to_upper (trim_space ''abcdef '') = ''ABCDEF''" by code_simp
qed

lemma demo_status:
  assumes "no_faults w" and "stored w = Some c"
  shows "\<exists>st w'. daemon_status paired_server sv old_imsg host fingerprint w = (Inr st, w') \<and> no_faults w' \<and>
    ss_pair_host st = host \<and> ss_tls_fingerprint st = fingerprint \<and> clock (w_eff w') = (\<lambda>i. clock (w_eff w) (Suc i))"
proof -
  have v: "version old_imsg r = Inr ''0.4''" for r
    by (simp add: version_def run_def old_imsg_def) code_simp
  obtain w1 where l: "store_load w = (Inr c, w1)" "no_faults w1" using state.load_healthy [OF assms] by blast
  then have "w_eff w1 = w_eff w" using state.load_frame by blast
  with l show ?thesis
    by (auto simp: daemon_status_def v list_clients_def with_eff_def time_now_def no_faults_def)
qed

theorem cli_code_pairs_witness:
  "\<exists>out w1 resp st'. run_pair (\<lambda>p. []) (daemon_peer paired_server demo_service old_imsg ''mac:8443'' ''SHA256:AB'' ''sock'') ''sock'' []
       (holding zero_config) = (Inr out, w1) \<and>
     serve paired_server demo_env no_stream phone_request (quiet_state\<lparr>st_world := w1\<rparr>) = (resp, st') \<and> rs_status resp = 200"
proof -
  let ?peer = "daemon_peer paired_server demo_service old_imsg ''mac:8443'' ''SHA256:AB'' ''sock''"
  let ?opts = "\<lparr>po_ttl = 120, po_admin = False\<rparr>"
  have flags: "parse_flags pair_flags [] ?opts = Inr (?opts, [])" by (simp add: parse_flags.simps)
  have ttl: "wrap_int64 (po_ttl ?opts * second) = 2 * minute" by (simp add: wrap_int64_def)
  obtain g w where g: "generate_pairing_code demo_service (2 * minute) (cli_scopes ?opts) (holding zero_config) = (Inr g, w)"
    "no_faults w" using generate_healthy [of zero_config "2 * minute" "cli_scopes ?opts"] by auto
  have fresh: "\<forall>p \<in> set (cfg_pairing_codes zero_config). pc_code p \<noteq> fst (random_code 6 (w_eff (holding zero_config)))"
    by (simp add: zero_config_def)
  obtain c where c: "stored w = Some c" "clock (w_eff w) = (\<lambda>i. int (i + 2))"
    using g(1) by (cases rule: generate_pairing_code_cases) (auto simp: comp_def)
  obtain st0 w1 where st0: "daemon_status paired_server demo_service old_imsg ''mac:8443'' ''SHA256:AB'' w = (Inr st0, w1)"
    "no_faults w1" "ss_pair_host st0 = ''mac:8443''" "ss_tls_fingerprint st0 = ''SHA256:AB''" "clock (w_eff w1) 1 = 4"
    using demo_status [OF g(2) c(1)] c(2) by fastforce
  obtain out where run: "run_pair (\<lambda>p. []) ?peer ''sock'' [] (holding zero_config) = (Inr out, w1)"
    using cli.run_pair_succeeds [OF flags g(1) [folded ttl] st0(1), of "\<lambda>p. []" "''sock''"] st0(3,4) by auto
  obtain resp st' where sv: "serve paired_server demo_env no_stream phone_request (quiet_state\<lparr>st_world := w1\<rparr>) = (resp, st')"
    by fastforce
  have "fst (allow_step (pair_key (client_ip phone_request), 5, minute, w_eff w1) new_rate_limiter)"
    by (simp add: allow_def time_now_def new_rate_limiter_def pair_key_def Let_def)
  then have "rs_status resp \<noteq> 429"
    using serve_limits_pair [OF phone_request_facts(1) sv] by (simp add: quiet_state_def)
  from cli_code_pairs [OF flags run _ fresh st0(2) _ phone_request_facts(1,2) _ _ _ _ sv this ttl [symmetric]]
  have "rs_status resp = 200"
    using st0(5) by (simp add: phone_request_facts(3) demo_random_code demo_texts paired_server_def)
  with run sv show ?thesis by blast
qed

lemma revoke_speaks: "revoke_client sv cid w = (Inl err, w') \<Longrightarrow> error_text err \<noteq> []"
  by (auto simp: revoke_client_def store_update_def revoke_fn_def with_eff_def Let_def error_text_def
      dest: load_speaks [unfolded error_text_def] save_speaks [unfolded error_text_def] split: prod.splits sum.splits option.splits if_splits)

text \<open>
  C33. \<open>chatbubbles-cli revoke\<close> tells the truth: run against the daemon it does to the state
  file exactly what revoking the client does, prints ok and exits 0 exactly if the client was
  found and revoked, and otherwise prints nothing, says why, and exits 1.
\<close>

theorem cli_revoke_outcome:
  "cli_main qr (daemon_peer s sv exec host fingerprint (default_socket_path home)) home [''revoke'', cid] w =
    (case revoke_client sv cid w of
       (Inl err, w') \<Rightarrow> (([], error_text err @ [CHR 0x0A], 1), w')
     | (Inr revoked, w') \<Rightarrow>
         (if revoked then (''ok'' @ [CHR 0x0A], [], 0) else ([], ''client not found'' @ [CHR 0x0A], 1), w'))"
proof -
  have args: "parse_flags flags [''revoke'', cid] opts = Inr (opts, [''revoke'', cid])" for flags and opts :: cli_options
    by (simp add: parse_flags.simps)
  have "run_cli qr (daemon_peer s sv exec host fingerprint (default_socket_path home)) home [''revoke'', cid] w =
      run_revoke (daemon_peer s sv exec host fingerprint (default_socket_path home)) (default_socket_path home) [cid] w"
    by (simp add: run_cli_def args)
  then show ?thesis
    using revoke_speaks by (auto simp: cli_main_def cli.run_revoke_result error_text_def split: prod.split sum.split)
qed

end
