(* ===== verification/KeyMaterial.thy ===== *)
theory KeyMaterial
  imports Attachments
begin

text \<open>
  The daemon's own keys: the Ed25519 identity that signs tokens (\<open>internal/auth/keypair.go\<close>) and
  the self-signed certificate of the HTTP server (\<open>internal/tls/selfcert.go\<close>). Both are made at
  the first start and read back at every later one. Key generation, the DER encodings, the
  certificate and SHA-256 are parameters, as is PEM; the file system is a map of files.
\<close>

section \<open>PEM files\<close>

text \<open>\<open>pem.Encode\<close> of a type and bytes, and \<open>pem.Decode\<close>'s first block.\<close>

record pem =
  pem_encode :: "string \<Rightarrow> string \<Rightarrow> string"
  pem_decode :: "string \<Rightarrow> (string \<times> string) option"

text \<open>Both packages have their own copy of the next two.\<close>

definition file_exists :: "string \<Rightarrow> files \<times> world \<Rightarrow> bool \<times> files \<times> world" where
  "file_exists path fw =
     (case fw of (fs, w) \<Rightarrow>
        (case syscall w of
           (Some f, w) \<Rightarrow> (False, fs, w)
         | (None, w) \<Rightarrow> (fs path \<noteq> None, fs, w)))"

definition write_pem_file :: "pem \<Rightarrow> string \<Rightarrow> string \<Rightarrow> string \<Rightarrow> unit file_op" where
  "write_pem_file pm path block_type bytes fw =
     (case fw of (fs, w) \<Rightarrow>
        (case syscall w of
           (Some f, w) \<Rightarrow> (Inl (ErrMsg (''create '' @ path @ '': '' @ fault_text f)), fs, w)
         | (None, w) \<Rightarrow>
             if fs path \<noteq> None then (Inl (ErrMsg (''create '' @ path @ '': file exists'')), fs, w)
             else
               (case syscall w of
                  (Some f, w) \<Rightarrow>
                    (Inl (ErrMsg (''encode '' @ path @ '': '' @ fault_text f)),
                     fs(path \<mapsto> (case fault_torn f of None \<Rightarrow> [] | Some t \<Rightarrow> t)), w)
                | (None, w) \<Rightarrow> (Inr (), fs(path \<mapsto> pem_encode pm block_type bytes), w))))"

definition make_dir :: "unit file_op" where
  "make_dir fw =
     (case fw of (fs, w) \<Rightarrow>
        (case syscall w of
           (Some f, w) \<Rightarrow> (Inl (ErrMsg (''create data dir: '' @ fault_text f)), fs, w)
         | (None, w) \<Rightarrow> (Inr (), fs, w)))"

definition read_file :: "string \<Rightarrow> string \<Rightarrow> string file_op" where
  "read_file what path fw =
     (case fw of (fs, w) \<Rightarrow>
        (case syscall w of
           (Some f, w) \<Rightarrow> (Inl (ErrMsg (what @ '': '' @ fault_text f)), fs, w)
         | (None, w) \<Rightarrow>
             (case fs path of
                None \<Rightarrow> (Inl (ErrMsg (what @ '': no such file'')), fs, w)
              | Some raw \<Rightarrow> (Inr raw, fs, w))))"

text \<open>A random or timed effect among the file operations.\<close>

definition draw :: "'a eff \<Rightarrow> files \<times> world \<Rightarrow> 'a \<times> files \<times> world" where
  "draw m fw = (case fw of (fs, w) \<Rightarrow> (case with_eff m w of (a, w) \<Rightarrow> (a, fs, w)))"

section \<open>The identity\<close>

record identity =
  id_private :: string
  id_public :: string

text \<open>A key of the DER parsers: an Ed25519 key or one of another kind.\<close>

datatype parsed_key = Ed25519Key string | OtherKey

record key_lib =
  kl_pem :: pem
  kl_generate :: "(string \<times> string) res eff"
  kl_marshal_private :: "string \<Rightarrow> string res"
  kl_marshal_public :: "string \<Rightarrow> string res"
  kl_parse_private :: "string \<Rightarrow> parsed_key res"
  kl_parse_public :: "string \<Rightarrow> parsed_key res"

text \<open>One of the two files: its block and the key in it.\<close>

definition load_key ::
  "pem \<Rightarrow> (string \<Rightarrow> parsed_key res) \<Rightarrow> string \<Rightarrow> string \<Rightarrow> string \<Rightarrow> string file_op" where
  "load_key pm parse what block_type path fw =
     (case read_file (''read '' @ what) path fw of
        (Inl err, fw) \<Rightarrow> (Inl err, fw)
      | (Inr raw, fw) \<Rightarrow>
          (case pem_decode pm raw of
             None \<Rightarrow> (Inl (ErrMsg (what @ '' is not valid pem'')), fw)
           | Some (t, bytes) \<Rightarrow>
               if t \<noteq> block_type then (Inl (ErrMsg (what @ '' is not valid pem'')), fw)
               else
                 (case parse bytes of
                    Inl err \<Rightarrow> (Inl (ErrMsg (''parse '' @ what)), fw)
                  | Inr OtherKey \<Rightarrow> (Inl (ErrMsg (what @ '' is not ed25519'')), fw)
                  | Inr (Ed25519Key k) \<Rightarrow> (Inr k, fw))))"

definition load_identity :: "key_lib \<Rightarrow> string \<Rightarrow> string \<Rightarrow> identity file_op" where
  "load_identity kl key_path pub_path fw =
     (case load_key (kl_pem kl) (kl_parse_private kl) ''identity key'' ''PRIVATE KEY'' key_path fw of
        (Inl err, fw) \<Rightarrow> (Inl err, fw)
      | (Inr private, fw) \<Rightarrow>
          (case load_key (kl_pem kl) (kl_parse_public kl) ''identity public key'' ''PUBLIC KEY'' pub_path fw of
             (Inl err, fw) \<Rightarrow> (Inl err, fw)
           | (Inr public, fw) \<Rightarrow> (Inr \<lparr>id_private = private, id_public = public\<rparr>, fw)))"

definition create_identity :: "key_lib \<Rightarrow> string \<Rightarrow> string \<Rightarrow> identity file_op" where
  "create_identity kl key_path pub_path fw =
     (case draw (kl_generate kl) fw of
        (Inl err, fw) \<Rightarrow> (Inl (ErrMsg ''generate identity''), fw)
      | (Inr (public, private), fw) \<Rightarrow>
          (case kl_marshal_private kl private of
             Inl err \<Rightarrow> (Inl (ErrMsg ''marshal private identity''), fw)
           | Inr private_der \<Rightarrow>
               (case write_pem_file (kl_pem kl) key_path ''PRIVATE KEY'' private_der fw of
                  (Inl err, fw) \<Rightarrow> (Inl err, fw)
                | (Inr u, fw) \<Rightarrow>
                    (case kl_marshal_public kl public of
                       Inl err \<Rightarrow> (Inl (ErrMsg ''marshal public identity''), fw)
                     | Inr public_der \<Rightarrow>
                         (case write_pem_file (kl_pem kl) pub_path ''PUBLIC KEY'' public_der fw of
                            (Inl err, fw) \<Rightarrow> (Inl err, fw)
                          | (Inr u, fw) \<Rightarrow> (Inr \<lparr>id_private = private, id_public = public\<rparr>, fw))))))"

definition ensure_identity :: "key_lib \<Rightarrow> string \<Rightarrow> identity file_op" where
  "ensure_identity kl data_dir fw =
     (case make_dir fw of
        (Inl err, fw) \<Rightarrow> (Inl err, fw)
      | (Inr u, fw) \<Rightarrow>
          (let key_path = path_join [data_dir, ''identity.key''];
               pub_path = path_join [data_dir, ''identity.pub''] in
           case file_exists key_path fw of (key_exists, fw) \<Rightarrow>
           case file_exists pub_path fw of (pub_exists, fw) \<Rightarrow>
             if key_exists \<and> pub_exists then load_identity kl key_path pub_path fw
             else if key_exists \<or> pub_exists then (Inl (ErrMsg ''identity material is incomplete''), fw)
             else create_identity kl key_path pub_path fw))"

section \<open>The certificate\<close>

record tls_material =
  tm_cert_path :: string
  tm_key_path :: string
  tm_fingerprint :: string

text \<open>What of the template varies; the key usages are fixed.\<close>

record cert_template =
  ct_serial :: nat
  ct_common_name :: string
  ct_not_before :: go_time
  ct_not_after :: go_time
  ct_ip_addresses :: "string list"
  ct_dns_names :: "string list"

record cert_lib =
  cl_pem :: pem
  cl_generate :: "string res eff"
  cl_create :: "cert_template \<Rightarrow> string \<Rightarrow> string res eff"
  cl_marshal_key :: "string \<Rightarrow> string res"
  cl_is_ip :: "string \<Rightarrow> bool"
  cl_sha256 :: "string \<Rightarrow> string"

definition trimmed_hosts :: "string list \<Rightarrow> string list" where
  "trimmed_hosts hosts = filter (\<lambda>h. h \<noteq> []) (map trim_space hosts)"

text \<open>\<open>slices.Compact\<close>.\<close>

definition normalized_hosts :: "string list \<Rightarrow> string list" where
  "normalized_hosts hosts =
     remdups_adj (sort ([''localhost'', ''127.0.0.1'', ''::1''] @ trimmed_hosts hosts))"

text \<open>\<open>Time.AddDate\<close> of whole years: the 29th of February goes over to the 1st of March.\<close>

definition add_years :: "nat \<Rightarrow> go_time \<Rightarrow> go_time" where
  "add_years n t =
     (case civil_of_day (nat (t div day_ns + epoch_day)) of (y, m, d) \<Rightarrow>
        (int (day_of_civil (y + n) m 1) + int d - 1 - epoch_day) * day_ns + t mod day_ns)"

definition hex_digit :: "nat \<Rightarrow> char" where
  "hex_digit n = ''0123456789ABCDEF'' ! n"

definition hex_upper :: "string \<Rightarrow> string" where
  "hex_upper s = concat (map (\<lambda>c. [hex_digit (of_char c div 16), hex_digit (of_char c mod 16)]) s)"

definition format_fingerprint :: "cert_lib \<Rightarrow> string \<Rightarrow> string" where
  "format_fingerprint cl der = ''SHA256:'' @ hex_upper (cl_sha256 cl der)"

definition fingerprint_from_cert_file :: "cert_lib \<Rightarrow> string \<Rightarrow> string file_op" where
  "fingerprint_from_cert_file cl path fw =
     (case read_file ''read certificate'' path fw of
        (Inl err, fw) \<Rightarrow> (Inl err, fw)
      | (Inr raw, fw) \<Rightarrow>
          (case pem_decode (cl_pem cl) raw of
             None \<Rightarrow> (Inl (ErrMsg ''certificate is not valid pem''), fw)
           | Some (t, bytes) \<Rightarrow>
               if t \<noteq> ''CERTIFICATE'' then (Inl (ErrMsg ''certificate is not valid pem''), fw)
               else (Inr (format_fingerprint cl bytes), fw)))"

definition bytes_nat :: "string \<Rightarrow> nat" where
  "bytes_nat s = foldl (\<lambda>n c. 256 * n + of_char c) 0 s"

text \<open>The serial is \<open>rand.Int\<close> below 2^128: sixteen bytes.\<close>

definition make_template :: "cert_lib \<Rightarrow> string \<Rightarrow> string list \<Rightarrow> cert_template eff" where
  "make_template cl server_name hosts e =
     (case time_now e of (now, e) \<Rightarrow>
      case rand_read 16 e of (raw, e) \<Rightarrow>
        (\<lparr>ct_serial = bytes_nat raw, ct_common_name = trim_space server_name,
          ct_not_before = now - 5 * minute, ct_not_after = add_years 5 now,
          ct_ip_addresses = filter (cl_is_ip cl) (normalized_hosts hosts),
          ct_dns_names = filter (\<lambda>h. \<not> cl_is_ip cl h) (normalized_hosts hosts)\<rparr>, e))"

definition create_material :: "cert_lib \<Rightarrow> string \<Rightarrow> string list \<Rightarrow> string \<Rightarrow> string \<Rightarrow> tls_material file_op" where
  "create_material cl server_name hosts cert_path key_path fw =
     (case draw (cl_generate cl) fw of
        (Inl err, fw) \<Rightarrow> (Inl (ErrMsg ''generate key''), fw)
      | (Inr private, fw) \<Rightarrow>
          (case draw (make_template cl server_name hosts) fw of (template, fw) \<Rightarrow>
          (case draw (cl_create cl template private) fw of
             (Inl err, fw) \<Rightarrow> (Inl (ErrMsg ''create certificate''), fw)
           | (Inr cert_der, fw) \<Rightarrow>
               (case write_pem_file (cl_pem cl) cert_path ''CERTIFICATE'' cert_der fw of
                  (Inl err, fw) \<Rightarrow> (Inl err, fw)
                | (Inr u, fw) \<Rightarrow>
                    (case cl_marshal_key cl private of
                       Inl err \<Rightarrow> (Inl (ErrMsg ''marshal private key''), fw)
                     | Inr key_der \<Rightarrow>
                         (case write_pem_file (cl_pem cl) key_path ''PRIVATE KEY'' key_der fw of
                            (Inl err, fw) \<Rightarrow> (Inl err, fw)
                          | (Inr u, fw) \<Rightarrow>
                              (Inr \<lparr>tm_cert_path = cert_path, tm_key_path = key_path,
                                    tm_fingerprint = format_fingerprint cl cert_der\<rparr>, fw)))))))"

definition ensure_material :: "cert_lib \<Rightarrow> string \<Rightarrow> string \<Rightarrow> string list \<Rightarrow> tls_material file_op" where
  "ensure_material cl data_dir server_name hosts fw =
     (case make_dir fw of
        (Inl err, fw) \<Rightarrow> (Inl err, fw)
      | (Inr u, fw) \<Rightarrow>
          (let cert_path = path_join [data_dir, ''tls.crt''];
               key_path = path_join [data_dir, ''tls.key''] in
           case file_exists cert_path fw of (cert_exists, fw) \<Rightarrow>
           case file_exists key_path fw of (key_exists, fw) \<Rightarrow>
             if cert_exists \<and> key_exists then
               (case fingerprint_from_cert_file cl cert_path fw of
                  (Inl err, fw) \<Rightarrow> (Inl err, fw)
                | (Inr fingerprint, fw) \<Rightarrow>
                    (Inr \<lparr>tm_cert_path = cert_path, tm_key_path = key_path, tm_fingerprint = fingerprint\<rparr>, fw))
             else if cert_exists \<or> key_exists then (Inl (ErrMsg ''tls material is incomplete''), fw)
             else create_material cl server_name hosts cert_path key_path fw))"

section \<open>Facts\<close>

text \<open>What the files are after each operation, whatever fails.\<close>

named_theorems file_cases

lemma make_dir_files [file_cases]: "make_dir (fs, w) = (r, fs', w') \<Longrightarrow> fs' = fs"
  by (auto simp: make_dir_def split: prod.splits option.splits)

lemma file_exists_files [file_cases]: "file_exists path (fs, w) = (b, fs', w') \<Longrightarrow> fs' = fs \<and> (b \<longrightarrow> fs path \<noteq> None)"
  by (auto simp: file_exists_def split: prod.splits option.splits)

lemma read_file_files: "read_file what path (fs, w) = (r, fs', w') \<Longrightarrow> fs' = fs \<and> (\<forall>raw. r = Inr raw \<longrightarrow> fs path = Some raw)"
  by (auto simp: read_file_def split: prod.splits option.splits)

lemma draw_files [file_cases]: "draw m (fs, w) = (a, fs', w') \<Longrightarrow> fs' = fs"
  by (auto simp: draw_def split: prod.splits)

lemma write_pem_file_cases:
  "write_pem_file pm path t b (fs, w) = (r, fs', w') \<Longrightarrow>
     map_le fs fs' \<and> (r = Inr () \<longrightarrow> fs path = None \<and> fs' = fs(path \<mapsto> pem_encode pm t b))"
  by (auto simp: write_pem_file_def map_le_def split: prod.splits option.splits if_splits)

text \<open>The key in a file, if there is one.\<close>

definition key_in :: "pem \<Rightarrow> (string \<Rightarrow> parsed_key res) \<Rightarrow> string \<Rightarrow> string \<Rightarrow> files \<Rightarrow> string option" where
  "key_in pm parse block_type path fs =
     (case Option.bind (fs path) (pem_decode pm) of
        None \<Rightarrow> None
      | Some (t, bytes) \<Rightarrow>
          if t \<noteq> block_type then None
          else (case parse bytes of Inr (Ed25519Key k) \<Rightarrow> Some k | _ \<Rightarrow> None))"

lemma key_in_exists: "key_in pm parse t path fs = Some k \<Longrightarrow> fs path \<noteq> None"
  by (cases "fs path") (simp_all add: key_in_def)

lemma load_key_files:
  "load_key pm parse what t path (fs, w) = (r, fs', w') \<Longrightarrow>
     fs' = fs \<and> (\<forall>k. r = Inr k \<longrightarrow> key_in pm parse t path fs = Some k)"
  by (auto simp: load_key_def key_in_def split: prod.splits sum.splits option.splits if_splits parsed_key.splits
      dest!: read_file_files)

text \<open>In a world without faults a system call changes nothing.\<close>

lemma no_faults_syscall: "no_faults w \<Longrightarrow> syscall w = (None, w)"
  by (cases w) (auto simp: syscall_def no_faults_def)

lemma healthy_steps:
  assumes "no_faults w"
  shows "make_dir (fs, w) = (Inr (), fs, w)" "file_exists path (fs, w) = (fs path \<noteq> None, fs, w)"
    "fs path = Some raw \<Longrightarrow> read_file what path (fs, w) = (Inr raw, fs, w)"
  using no_faults_syscall [OF assms] by (auto simp: make_dir_def file_exists_def read_file_def)

lemma load_key_healthy:
  assumes "no_faults w" and "key_in pm parse t path fs = Some k"
  shows "load_key pm parse what t path (fs, w) = (Inr k, fs, w)"
proof -
  obtain raw bytes where raw: "fs path = Some raw" "pem_decode pm raw = Some (t, bytes)" "parse bytes = Inr (Ed25519Key k)"
    using assms(2) by (auto simp: key_in_def bind_eq_Some_conv split: option.splits if_splits sum.splits parsed_key.splits)
  show ?thesis using raw(2,3) by (simp add: load_key_def healthy_steps(3) [where path = path and fs = fs and raw = raw, OF assms(1) raw(1)])
qed

section \<open>The contract of key material\<close>

text \<open>
  What a start relies on, and what both kinds of material give it: the material is made once,
  kept in files, and a success means that the files now hold it. \<open>holds\<close> says what is in them.
\<close>

locale kept_material =
  fixes ensure :: "'a \<Rightarrow> 'm file_op"
    and holds :: "files \<Rightarrow> 'm \<Rightarrow> bool"
    and paths :: "string set"
    and sound :: bool
  assumes keeps: "ensure a (fs, w) = (r, fs', w') \<Longrightarrow> map_le fs fs'"
    and made: "sound \<Longrightarrow> ensure a (fs, w) = (Inr m, fs', w') \<Longrightarrow> holds fs' m"
    and found: "no_faults w \<Longrightarrow> holds fs m \<Longrightarrow> ensure a (fs, w) = (Inr m, fs, w)"
    and local: "\<forall>p \<in> paths. fs' p = fs p \<Longrightarrow> holds fs m \<Longrightarrow> holds fs' m"
begin

lemma survives:
  assumes "sound" and "ensure a (fs, w) = (Inr m, fs1, w1)" and "\<forall>p \<in> paths. fs2 p = fs1 p" and "no_faults w2"
  shows "ensure b (fs2, w2) = (Inr m, fs2, w2)"
  using found [OF assms(4) local [OF assms(3) made [OF assms(1,2)]]] .

end

section \<open>Both keep it\<close>

definition sound_pem :: "pem \<Rightarrow> bool" where
  "sound_pem pm \<longleftrightarrow> (\<forall>t b. pem_decode pm (pem_encode pm t b) = Some (t, b))"

text \<open>What the encodings promise: a key reads back as the key it was written from.\<close>

definition sound_keys :: "key_lib \<Rightarrow> bool" where
  "sound_keys kl \<longleftrightarrow> sound_pem (kl_pem kl) \<and>
     (\<forall>k der. kl_marshal_private kl k = Inr der \<longrightarrow> kl_parse_private kl der = Inr (Ed25519Key k)) \<and>
     (\<forall>k der. kl_marshal_public kl k = Inr der \<longrightarrow> kl_parse_public kl der = Inr (Ed25519Key k))"

definition identity_in :: "key_lib \<Rightarrow> string \<Rightarrow> files \<Rightarrow> identity \<Rightarrow> bool" where
  "identity_in kl data_dir fs idn \<longleftrightarrow>
     key_in (kl_pem kl) (kl_parse_private kl) ''PRIVATE KEY'' (path_join [data_dir, ''identity.key'']) fs = Some (id_private idn) \<and>
     key_in (kl_pem kl) (kl_parse_public kl) ''PUBLIC KEY'' (path_join [data_dir, ''identity.pub'']) fs = Some (id_public idn)"

lemma load_identity_files:
  assumes "load_identity kl kp pp (fs, w) = (r, fs', w')"
  shows "fs' = fs \<and> (\<forall>idn. r = Inr idn \<longrightarrow>
    key_in (kl_pem kl) (kl_parse_private kl) ''PRIVATE KEY'' kp fs = Some (id_private idn) \<and>
    key_in (kl_pem kl) (kl_parse_public kl) ''PUBLIC KEY'' pp fs = Some (id_public idn))"
  using assms by (auto simp: load_identity_def split: prod.splits sum.splits dest!: load_key_files)

lemma create_identity_files:
  assumes "create_identity kl kp pp (fs, w) = (r, fs', w')"
  shows "map_le fs fs' \<and> (\<forall>idn. sound_keys kl \<longrightarrow> r = Inr idn \<longrightarrow>
    key_in (kl_pem kl) (kl_parse_private kl) ''PRIVATE KEY'' kp fs' = Some (id_private idn) \<and>
    key_in (kl_pem kl) (kl_parse_public kl) ''PUBLIC KEY'' pp fs' = Some (id_public idn))"
proof -
  obtain g fs1 w1 where g: "draw (kl_generate kl) (fs, w) = (g, fs1, w1)" by (metis prod.collapse)
  then have fs1: "fs1 = fs" by (rule draw_files)
  show ?thesis
  proof (cases "\<exists>publ priv der. g = Inr (publ, priv) \<and> kl_marshal_private kl priv = Inr der")
    case False
    then show ?thesis using assms g fs1 by (auto simp: create_identity_def split: sum.splits)
  next
    case True
    then obtain publ priv der where p: "g = Inr (publ, priv)" "kl_marshal_private kl priv = Inr der" by blast
    obtain r2 fs2 w2 where w: "write_pem_file (kl_pem kl) kp ''PRIVATE KEY'' der (fs1, w1) = (r2, fs2, w2)" by (metis prod.collapse)
    note w' = write_pem_file_cases [OF w]
    show ?thesis
    proof (cases "\<exists>pub_der. r2 = Inr () \<and> kl_marshal_public kl publ = Inr pub_der")
      case False
      then show ?thesis using assms g p w w' fs1 by (auto simp: create_identity_def split: sum.splits)
    next
      case True
      then obtain pub_der where q: "r2 = Inr ()" "kl_marshal_public kl publ = Inr pub_der" by blast
      obtain r3 fs3 w3 where v: "write_pem_file (kl_pem kl) pp ''PUBLIC KEY'' pub_der (fs2, w2) = (r3, fs3, w3)"
        by (metis prod.collapse)
      note v' = write_pem_file_cases [OF v]
      have "fs' = fs3" "r = (case r3 of Inl err \<Rightarrow> Inl err | Inr u \<Rightarrow> Inr \<lparr>id_private = priv, id_public = publ\<rparr>)"
        using assms g p w q v by (auto simp: create_identity_def split: sum.splits)
      moreover have "map_le fs fs3" using w' v' fs1 map_le_trans by blast
      moreover have "kp \<noteq> pp" if "r3 = Inr ()" using w' v' q(1) that by auto
      ultimately show ?thesis
        using w' v' p q fs1
        by (auto simp: key_in_def sound_keys_def sound_pem_def split: sum.splits)
    qed
  qed
qed

definition identity_paths :: "string \<Rightarrow> string set" where
  "identity_paths data_dir = {path_join [data_dir, ''identity.key''], path_join [data_dir, ''identity.pub'']}"

lemma ensure_identity_files:
  assumes "ensure_identity kl dir (fs, w) = (r, fs', w')"
  shows "map_le fs fs' \<and> (\<forall>idn. sound_keys kl \<longrightarrow> r = Inr idn \<longrightarrow> identity_in kl dir fs' idn)"
  using assms
  by (auto simp: ensure_identity_def Let_def identity_in_def split: prod.splits sum.splits if_splits
      dest!: file_cases load_identity_files create_identity_files)

lemma ensure_identity_found:
  assumes "no_faults w" and "identity_in kl dir fs idn"
  shows "ensure_identity kl dir (fs, w) = (Inr idn, fs, w)"
proof -
  let ?kp = "path_join [dir, ''identity.key'']" and ?pp = "path_join [dir, ''identity.pub'']"
  from assms(2) have k: "key_in (kl_pem kl) (kl_parse_private kl) ''PRIVATE KEY'' ?kp fs = Some (id_private idn)"
    "key_in (kl_pem kl) (kl_parse_public kl) ''PUBLIC KEY'' ?pp fs = Some (id_public idn)"
    by (simp_all add: identity_in_def)
  show ?thesis
    using key_in_exists [OF k(1)] key_in_exists [OF k(2)] load_key_healthy [OF assms(1) k(1)] load_key_healthy [OF assms(1) k(2)]
    by (simp add: ensure_identity_def load_identity_def healthy_steps [OF assms(1)])
qed

interpretation own_identity: kept_material "\<lambda>_ :: unit. ensure_identity kl dir" "identity_in kl dir" "identity_paths dir" "sound_keys kl"
  for kl dir
proof
  show "map_le fs fs'" if "ensure_identity kl dir (fs, w) = (r, fs', w')" for fs w r fs' w'
    using ensure_identity_files [OF that] by blast
  show "identity_in kl dir fs' m" if "sound_keys kl" "ensure_identity kl dir (fs, w) = (Inr m, fs', w')" for fs w m fs' w'
    using ensure_identity_files [OF that(2)] that(1) by blast
  show "ensure_identity kl dir (fs, w) = (Inr m, fs, w)" if "no_faults w" "identity_in kl dir fs m" for fs w m
    using ensure_identity_found that by blast
  show "identity_in kl dir fs' m" if "\<forall>p \<in> identity_paths dir. fs' p = fs p" "identity_in kl dir fs m" for fs fs' m
    using that by (simp add: identity_in_def key_in_def identity_paths_def)
qed

text \<open>The certificate: the file that counts is the one with the certificate; the key need only exist.\<close>

definition tls_paths :: "string \<Rightarrow> string set" where
  "tls_paths data_dir = {path_join [data_dir, ''tls.crt''], path_join [data_dir, ''tls.key'']}"

definition material_in :: "cert_lib \<Rightarrow> string \<Rightarrow> files \<Rightarrow> tls_material \<Rightarrow> bool" where
  "material_in cl data_dir fs m \<longleftrightarrow>
     tm_cert_path m = path_join [data_dir, ''tls.crt''] \<and> tm_key_path m = path_join [data_dir, ''tls.key''] \<and>
     fs (tm_key_path m) \<noteq> None \<and>
     (\<exists>der. Option.bind (fs (tm_cert_path m)) (pem_decode (cl_pem cl)) = Some (''CERTIFICATE'', der) \<and>
        tm_fingerprint m = format_fingerprint cl der)"

lemma fingerprint_files:
  "fingerprint_from_cert_file cl path (fs, w) = (r, fs', w') \<Longrightarrow>
     fs' = fs \<and> (\<forall>fp. r = Inr fp \<longrightarrow> (\<exists>der. Option.bind (fs path) (pem_decode (cl_pem cl)) = Some (''CERTIFICATE'', der) \<and>
       fp = format_fingerprint cl der))"
  by (auto simp: fingerprint_from_cert_file_def split: prod.splits sum.splits option.splits if_splits dest!: read_file_files)

lemma create_material_files:
  assumes "create_material cl name hosts cp kp (fs, w) = (r, fs', w')"
  shows "map_le fs fs' \<and> (\<forall>m. sound_pem (cl_pem cl) \<longrightarrow> r = Inr m \<longrightarrow>
    tm_cert_path m = cp \<and> tm_key_path m = kp \<and> fs' kp \<noteq> None \<and>
    (\<exists>der. Option.bind (fs' cp) (pem_decode (cl_pem cl)) = Some (''CERTIFICATE'', der) \<and> tm_fingerprint m = format_fingerprint cl der))"
proof -
  obtain g fs1 w1 where 1: "draw (cl_generate cl) (fs, w) = (g, fs1, w1)" by (metis prod.collapse)
  obtain tmpl fs2 w2 where 2: "draw (make_template cl name hosts) (fs1, w1) = (tmpl, fs2, w2)" by (metis prod.collapse)
  have fs: "fs1 = fs" "fs2 = fs" using draw_files [OF 1] draw_files [OF 2] by auto
  show ?thesis
  proof (cases g)
    case (Inl err)
    then show ?thesis using assms 1 fs by (auto simp: create_material_def)
  next
    case (Inr key)
    obtain c fs3 w3 where 3: "draw (cl_create cl tmpl key) (fs2, w2) = (c, fs3, w3)" by (metis prod.collapse)
    have fs3: "fs3 = fs" using draw_files [OF 3] fs by simp
    show ?thesis
    proof (cases c)
      case (Inl err)
      then show ?thesis using assms 1 2 3 Inr fs3 by (auto simp: create_material_def)
    next
      case c: (Inr der)
      obtain r4 fs4 w4 where 4: "write_pem_file (cl_pem cl) cp ''CERTIFICATE'' der (fs3, w3) = (r4, fs4, w4)" by (metis prod.collapse)
      note created = write_pem_file_cases [OF 4]
      show ?thesis
      proof (cases "\<exists>key_der. r4 = Inr () \<and> cl_marshal_key cl key = Inr key_der")
        case False
        then show ?thesis using assms 1 2 3 4 created Inr c fs3 by (auto simp: create_material_def split: sum.splits)
      next
        case True
        then obtain key_der where q: "r4 = Inr ()" "cl_marshal_key cl key = Inr key_der" by blast
        obtain r5 fs5 w5 where 5: "write_pem_file (cl_pem cl) kp ''PRIVATE KEY'' key_der (fs4, w4) = (r5, fs5, w5)"
          by (metis prod.collapse)
        note keyed = write_pem_file_cases [OF 5]
        have "fs' = fs5" "r = (case r5 of Inl err \<Rightarrow> Inl err | Inr u \<Rightarrow>
            Inr \<lparr>tm_cert_path = cp, tm_key_path = kp, tm_fingerprint = format_fingerprint cl der\<rparr>)"
          using assms 1 2 3 4 5 Inr c q by (auto simp: create_material_def split: sum.splits)
        moreover have "map_le fs fs5" using created keyed fs3 map_le_trans by blast
        moreover have "cp \<noteq> kp" if "r5 = Inr ()" using created keyed q(1) that by auto
        ultimately show ?thesis using created keyed q fs3 by (auto simp: sound_pem_def split: sum.splits)
      qed
    qed
  qed
qed

lemma ensure_material_files:
  assumes "ensure_material cl dir name hosts (fs, w) = (r, fs', w')"
  shows "map_le fs fs' \<and> (\<forall>m. sound_pem (cl_pem cl) \<longrightarrow> r = Inr m \<longrightarrow> material_in cl dir fs' m)"
  using assms
  by (auto simp: ensure_material_def Let_def material_in_def split: prod.splits sum.splits if_splits
      dest!: file_cases fingerprint_files create_material_files)

lemma ensure_material_found:
  assumes "no_faults w" and "material_in cl dir fs m"
  shows "ensure_material cl dir name hosts (fs, w) = (Inr m, fs, w)"
proof -
  let ?cp = "path_join [dir, ''tls.crt'']" and ?kp = "path_join [dir, ''tls.key'']"
  obtain raw der where m: "tm_cert_path m = ?cp" "tm_key_path m = ?kp" "fs ?kp \<noteq> None" "fs ?cp = Some raw"
    "pem_decode (cl_pem cl) raw = Some (''CERTIFICATE'', der)" "tm_fingerprint m = format_fingerprint cl der"
    using assms(2) by (auto simp: material_in_def bind_eq_Some_conv)
  have "m = \<lparr>tm_cert_path = ?cp, tm_key_path = ?kp, tm_fingerprint = format_fingerprint cl der\<rparr>" using m by simp
  then show ?thesis using m(3-5)
    by (simp add: ensure_material_def fingerprint_from_cert_file_def healthy_steps [OF assms(1)])
qed

interpretation own_certificate: kept_material "\<lambda>(name, hosts). ensure_material cl dir name hosts" "material_in cl dir"
  "tls_paths dir" "sound_pem (cl_pem cl)" for cl dir
proof
  fix a :: "string \<times> string list"
  obtain name hosts where a: "a = (name, hosts)" by (cases a)
  show "map_le fs fs'" if "(case a of (name, hosts) \<Rightarrow> ensure_material cl dir name hosts) (fs, w) = (r, fs', w')" for fs w r fs' w'
    using ensure_material_files that by (auto simp: a)
  show "material_in cl dir fs' m" if "sound_pem (cl_pem cl)"
    "(case a of (name, hosts) \<Rightarrow> ensure_material cl dir name hosts) (fs, w) = (Inr m, fs', w')" for fs w m fs' w'
    using ensure_material_files that by (auto simp: a)
  show "(case a of (name, hosts) \<Rightarrow> ensure_material cl dir name hosts) (fs, w) = (Inr m, fs, w)"
    if "no_faults w" "material_in cl dir fs m" for fs w m
    using ensure_material_found that by (auto simp: a)
  show "material_in cl dir fs' m" if "\<forall>p \<in> tls_paths dir. fs' p = fs p" "material_in cl dir fs m" for fs fs' m
    using that by (auto simp: material_in_def tls_paths_def)
qed

lemma set_trimmed_hosts: "set (trimmed_hosts hosts) = trim_space ` set hosts - {[]}"
  by (auto simp: trimmed_hosts_def)

lemma sorted_distinct_adj: "sorted xs \<Longrightarrow> distinct_adj xs \<Longrightarrow> distinct (xs :: 'a :: linorder list)"
  by (induction xs rule: induct_list012) auto

lemma normalized_hosts_spec:
  "set (normalized_hosts hosts) = {''localhost'', ''127.0.0.1'', ''::1''} \<union> (trim_space ` set hosts - {[]})"
  "sorted (normalized_hosts hosts)" "distinct (normalized_hosts hosts)"
proof -
  have "set (remdups_adj (sort xs)) = set xs" "sorted (remdups_adj (sort xs))" "distinct (remdups_adj (sort xs))"
    for xs :: "string list"
    by (simp_all add: sorted_distinct_adj)
  note this [of "[''localhost'', ''127.0.0.1'', ''::1''] @ trimmed_hosts hosts", folded normalized_hosts_def]
  then show "set (normalized_hosts hosts) = {''localhost'', ''127.0.0.1'', ''::1''} \<union> (trim_space ` set hosts - {[]})"
    "sorted (normalized_hosts hosts)" "distinct (normalized_hosts hosts)"
    unfolding set_append set_trimmed_hosts by simp_all
qed

section \<open>Properties\<close>

text \<open>
  The daemon keeps its identity: no start ever changes a file that was there, whatever
  fails and however incomplete the material is; and once a start has returned an identity,
  made or found, every later start that meets no fault returns the same keys and changes nothing at all.
\<close>

theorem identity_survives:
  assumes "sound_keys kl" and "ensure_identity kl dir (fs, w) = (r, fs1, w1)"
    and "\<forall>p \<in> identity_paths dir. fs2 p = fs1 p" and "no_faults w2"
  shows "map_le fs fs1 \<and> (\<forall>idn. r = Inr idn \<longrightarrow> ensure_identity kl dir (fs2, w2) = (Inr idn, fs2, w2))"
  using own_identity.keeps [OF assms(2)] own_identity.survives [OF assms(1) _ assms(3,4)] assms(2) by blast

definition test_pem :: pem where
  "test_pem = \<lparr>pem_encode = (\<lambda>t b. replicate (length t) (CHR ''x'') @ CHR ''.'' # t @ b),
     pem_decode = (\<lambda>s. map_option (\<lambda>(a, r). (take (length a) r, drop (length a) r)) (cut_at (CHR ''.'') s))\<rparr>"

definition test_keys :: key_lib where
  "test_keys = \<lparr>kl_pem = test_pem, kl_generate = (\<lambda>e. (Inr (''public'', ''private''), e)),
     kl_marshal_private = Inr, kl_marshal_public = Inr,
     kl_parse_private = (\<lambda>d. Inr (Ed25519Key d)), kl_parse_public = (\<lambda>d. Inr (Ed25519Key d))\<rparr>"

lemma test_pem_sound: "sound_pem test_pem"
  by (simp add: sound_pem_def test_pem_def cut_at_append)

lemma test_keys_sound: "sound_keys test_keys"
  using test_pem_sound by (simp add: sound_keys_def test_keys_def)

lemma test_paths:
  "path_join [''/data'', ''identity.key''] = ''/data/identity.key''" "path_join [''/data'', ''identity.pub''] = ''/data/identity.pub''"
  "path_join [''/data'', ''tls.crt''] = ''/data/tls.crt''" "path_join [''/data'', ''tls.key''] = ''/data/tls.key''"
  by code_simp+

lemma calm_syscall: "syscall calm_world = (None, calm_world)"
  by (simp add: syscall_def calm_world_def)

theorem identity_survives_witness:
  "\<exists>fs1 w1. ensure_identity test_keys ''/data'' (Map.empty, calm_world) = (Inr \<lparr>id_private = ''private'', id_public = ''public''\<rparr>, fs1, w1) \<and>
     ensure_identity test_keys ''/data'' (fs1, calm_world) = (Inr \<lparr>id_private = ''private'', id_public = ''public''\<rparr>, fs1, calm_world)"
proof -
  have "\<exists>fs1 w1. ensure_identity test_keys ''/data'' (Map.empty, calm_world) = (Inr \<lparr>id_private = ''private'', id_public = ''public''\<rparr>, fs1, w1)"
    by (simp add: ensure_identity_def make_dir_def file_exists_def create_identity_def draw_def with_eff_def write_pem_file_def
        test_keys_def test_paths calm_syscall)
  then obtain fs1 w1 where r: "ensure_identity test_keys ''/data'' (Map.empty, calm_world) =
    (Inr \<lparr>id_private = ''private'', id_public = ''public''\<rparr>, fs1, w1)" by blast
  from identity_survives [OF test_keys_sound r, of fs1 calm_world] r show ?thesis by auto
qed

text \<open>
  C34. The certificate a client has pinned stays: no start changes a file that was there, and
  once a start has returned material, every later start that meets no fault returns the same paths
  and fingerprint and writes nothing, whatever the server is then called and reached by; so the
  fingerprint shown for pairing is that of the certificate served. A new certificate names every
  host it is asked for and the local ones, once each.
\<close>

theorem certificate_survives:
  assumes "sound_pem (cl_pem cl)" and "ensure_material cl dir name hosts (fs, w) = (r, fs1, w1)"
    and "\<forall>p \<in> tls_paths dir. fs2 p = fs1 p" and "no_faults w2"
  shows "map_le fs fs1 \<and>
    (\<forall>m. r = Inr m \<longrightarrow> ensure_material cl dir name2 hosts2 (fs2, w2) = (Inr m, fs2, w2)) \<and>
    distinct (normalized_hosts hosts) \<and>
    set (normalized_hosts hosts) = {''localhost'', ''127.0.0.1'', ''::1''} \<union> (trim_space ` set hosts - {[]})"
proof -
  let ?ensure = "\<lambda>(name, hosts). ensure_material cl dir name hosts"
  have e: "?ensure (name, hosts) (fs, w) = (r, fs1, w1)" using assms(2) by simp
  have "ensure_material cl dir name2 hosts2 (fs2, w2) = (Inr m, fs2, w2)" if "r = Inr m" for m
    using own_certificate.survives [OF assms(1) e [unfolded that] assms(3,4), of "(name2, hosts2)"] by simp
  then show ?thesis
    by (intro conjI allI impI own_certificate.keeps [OF e] normalized_hosts_spec) blast
qed

definition test_certs :: cert_lib where
  "test_certs = \<lparr>cl_pem = test_pem, cl_generate = (\<lambda>e. (Inr ''key'', e)), cl_create = (\<lambda>t k e. (Inr (ct_common_name t @ k), e)),
     cl_marshal_key = Inr, cl_is_ip = (\<lambda>h. h = ''127.0.0.1'' \<or> h = ''::1''), cl_sha256 = (\<lambda>s. s)\<rparr>"

theorem certificate_survives_witness:
  "\<exists>m fs1 w1. ensure_material test_certs ''/data'' ''mac'' [''100.64.0.7''] (Map.empty, calm_world) = (Inr m, fs1, w1) \<and>
     ensure_material test_certs ''/data'' ''other'' [] (fs1, calm_world) = (Inr m, fs1, calm_world)"
proof -
  obtain t e where t: "make_template test_certs ''mac'' [''100.64.0.7''] at_zero = (t, e)" by fastforce
  have "\<exists>m fs1 w1. ensure_material test_certs ''/data'' ''mac'' [''100.64.0.7''] (Map.empty, calm_world) = (Inr m, fs1, w1)"
    using t by (simp add: ensure_material_def make_dir_def file_exists_def create_material_def draw_def with_eff_def write_pem_file_def
        test_certs_def test_paths syscall_def calm_world_def Let_def)
  then obtain m fs1 w1 where r: "ensure_material test_certs ''/data'' ''mac'' [''100.64.0.7''] (Map.empty, calm_world) = (Inr m, fs1, w1)"
    by blast
  have "sound_pem (cl_pem test_certs)" using test_pem_sound by (simp add: test_certs_def)
  moreover have "no_faults calm_world" by (rule cat_simps(3))
  ultimately show ?thesis using certificate_survives [OF _ r, of fs1 calm_world "''other''" "[]"] r by auto
qed

end
