(* ===== verification/Startup.thy ===== *)
theory Startup
  imports PairFlow KeyMaterial
begin

text \<open>
  The start of the daemon (\<open>main\<close> in \<open>cmd/chatbubbles/main.go\<close>, \<open>NewServer\<close> in \<open>internal/api/router.go\<close>):
  the options, the address it advertises, its keys and certificate, the state file, the services
  made from them and the first pairing code. A fatal error ends the start.
\<close>

section \<open>Where it runs\<close>

text \<open>An address of an interface: one with a network, which may carry no IP, or of another type.\<close>

datatype iface_addr = IPNet ip_addr | OtherAddr

text \<open>
  What \<open>os\<close> and \<open>net\<close> say of the host (\<open>None\<close> is an error), what \<open>imsg\<close> needs to find its binary,
  and the libraries of the keys, the certificate, the signatures and the sealing of descriptors.
\<close>

record start_env =
  en_hostname :: "string option"
  en_home :: "string option"
  en_ifaces :: "iface_addr list option list option"
  en_proc :: proc_env
  en_keys :: key_lib
  en_certs :: cert_lib
  en_scheme :: "identity \<Rightarrow> token_manager"
  en_aead :: aead

definition hostname :: "start_env \<Rightarrow> string" where
  "hostname env = (case en_hostname env of None \<Rightarrow> ''chatbubbles'' | Some name \<Rightarrow> if name = [] then ''chatbubbles'' else name)"

definition default_data_dir :: "start_env \<Rightarrow> string" where
  "default_data_dir env =
     (case en_home env of
        None \<Rightarrow> ''chatbubbles-data''
      | Some home \<Rightarrow> path_join [home, ''.local'', ''share'', ''chatbubbles''])"

definition tailscale_addr :: "iface_addr \<Rightarrow> string option" where
  "tailscale_addr a =
     (case a of OtherAddr \<Rightarrow> None
      | IPNet ip \<Rightarrow> (case unmap_addr ip of V4 v \<Rightarrow> if octet v 0 = 100 then Some (v4_text v) else None | _ \<Rightarrow> None))"

fun first_tailscale :: "iface_addr list option list \<Rightarrow> string" where
  "first_tailscale [] = []"
| "first_tailscale (None # ifaces) = first_tailscale ifaces"
| "first_tailscale (Some addrs # ifaces) =
     (case List.map_filter tailscale_addr addrs of [] \<Rightarrow> first_tailscale ifaces | ip # _ \<Rightarrow> ip)"

definition detect_tailscale_ip :: "start_env \<Rightarrow> string" where
  "detect_tailscale_ip env = (case en_ifaces env of None \<Rightarrow> [] | Some ifaces \<Rightarrow> first_tailscale ifaces)"

section \<open>Options\<close>

record daemon_options =
  do_listen :: string
  do_server_name :: string
  do_tailscale_ip :: string
  do_data_dir :: string
  do_imsg_bin :: string
  do_socket :: string

definition daemon_flags :: "daemon_options flag list" where
  "daemon_flags =
     [string_flag ''listen'' do_listen_update, string_flag ''server-name'' do_server_name_update,
      string_flag ''tailscale-ip'' do_tailscale_ip_update, string_flag ''data-dir'' do_data_dir_update,
      string_flag ''imsg-bin'' do_imsg_bin_update, string_flag ''socket'' do_socket_update]"

text \<open>Arguments after the flags are ignored.\<close>

definition options_of :: "start_env \<Rightarrow> string list \<Rightarrow> string + daemon_options" where
  "options_of env args =
     map_sum id fst (parse_flags daemon_flags args
       \<lparr>do_listen = '':8443'', do_server_name = hostname env, do_tailscale_ip = [], do_data_dir = default_data_dir env,
        do_imsg_bin = [], do_socket = []\<rparr>)"

definition build_version :: string where
  "build_version = ''dev''"

section \<open>The server\<close>

definition new_server :: "start_env \<Rightarrow> api_config \<Rightarrow> runner \<Rightarrow> auth_service \<Rightarrow> attachment_service \<Rightarrow> server" where
  "new_server env cfg r sv ats =
     \<lparr>sr_cfg = (if ap_tailscale_ip cfg = [] then cfg\<lparr>ap_tailscale_ip := detect_tailscale_ip env\<rparr> else cfg),
      sr_pairing = Some sv, sr_runner = r, sr_webhooks = True, sr_attachments = Some ats\<rparr>"

definition new_api_state :: "files \<Rightarrow> world \<Rightarrow> api_state" where
  "new_api_state fs w =
     \<lparr>st_world = w, st_files = fs, st_history = new_message_history_cache (30 * minute), st_limiter = new_rate_limiter\<rparr>"

section \<open>The start\<close>

record daemon =
  da_server :: server
  da_service :: auth_service
  da_material :: tls_material
  da_pair_host :: string
  da_socket :: string
  da_last_row :: int64
  da_bootstrap :: string

definition on_store :: "'a op \<Rightarrow> 'a file_op" where
  "on_store m fw = (case fw of (fs, w) \<Rightarrow> (case m w of (r, w) \<Rightarrow> (r, fs, w)))"

definition start_daemon :: "start_env \<Rightarrow> daemon_options \<Rightarrow> daemon file_op" where
  "start_daemon env opts fw =
     (case draw time_now fw of (started_at, fw) \<Rightarrow>
        let tailscale_ip = (if do_tailscale_ip opts = [] then detect_tailscale_ip env else do_tailscale_ip opts);
            cfg = \<lparr>ap_server_name = do_server_name opts, ap_tailscale_ip = tailscale_ip, ap_version = build_version,
                   ap_started_at = started_at\<rparr>;
            host = pair_host (do_listen opts) tailscale_ip;
            socket_path = (if do_socket opts = [] then path_join [do_data_dir opts, ''chatbubbles.sock''] else do_socket opts) in
        (case ensure_material (en_certs env) (do_data_dir opts) (do_server_name opts) [tailscale_ip, hostname env] fw of
           (Inl err, fw) \<Rightarrow> (Inl err, fw)
         | (Inr material, fw) \<Rightarrow>
             (case ensure_identity (en_keys env) (do_data_dir opts) fw of
                (Inl err, fw) \<Rightarrow> (Inl err, fw)
              | (Inr idn, fw) \<Rightarrow>
                  (case on_store store_load fw of
                     (Inl err, fw) \<Rightarrow> (Inl err, fw)
                   | (Inr saved, fw) \<Rightarrow>
                       (let sv = new_service (en_scheme env idn);
                            ats = new_attachment_service (en_aead env) (id_private idn) (path_join [do_data_dir opts, ''tmp'']) in
                        case on_store (ensure_bootstrap sv (do_server_name opts)) fw of
                          (Inl err, fw) \<Rightarrow> (Inl err, fw)
                        | (Inr code, fw) \<Rightarrow>
                            (Inr \<lparr>da_server = new_server env cfg (new_runner (en_proc env) (do_imsg_bin opts)) sv ats,
                                  da_service = sv, da_material = material, da_pair_host = host, da_socket = socket_path,
                                  da_last_row = cfg_last_watch_rowid saved, da_bootstrap = code\<rparr>, fw))))))"

section \<open>Facts\<close>

lemma material_in_le: "map_le fs fs' \<Longrightarrow> material_in cl dir fs m \<Longrightarrow> material_in cl dir fs' m"
proof -
  assume le: "map_le fs fs'" and m: "material_in cl dir fs m"
  have same: "fs' p = fs p" if "fs p \<noteq> None" for p using le that by (auto simp: map_le_def dom_def)
  have "fs (tm_cert_path m) \<noteq> None" "fs (tm_key_path m) \<noteq> None" using m by (auto simp: material_in_def bind_eq_Some_conv)
  from same [OF this(1)] same [OF this(2)] m show ?thesis by (auto simp: material_in_def)
qed

text \<open>What a start that succeeds has done to the files and made its services from.\<close>

lemma start_daemon_made:
  assumes "start_daemon env opts (fs, w) = (Inr d, fs1, w1)"
    and "sound_keys (en_keys env)" and "sound_pem (cl_pem (en_certs env))"
  obtains idn where "identity_in (en_keys env) (do_data_dir opts) fs1 idn" "da_service d = new_service (en_scheme env idn)"
    "sr_attachments (da_server d) = Some (new_attachment_service (en_aead env) (id_private idn) (path_join [do_data_dir opts, ''tmp'']))"
    "material_in (en_certs env) (do_data_dir opts) fs1 (da_material d)" "map_le fs fs1"
proof -
  obtain t fs0 wa where a: "draw time_now (fs, w) = (t, fs0, wa)" by (metis prod.collapse)
  then have fs0: "fs0 = fs" by (rule draw_files)
  define hosts where "hosts = [if do_tailscale_ip opts = [] then detect_tailscale_ip env else do_tailscale_ip opts, hostname env]"
  obtain rm fsb wb where b: "ensure_material (en_certs env) (do_data_dir opts) (do_server_name opts) hosts (fs, wa) = (rm, fsb, wb)"
    by (metis prod.collapse)
  obtain ri fsc wc where c: "ensure_identity (en_keys env) (do_data_dir opts) (fsb, wb) = (ri, fsc, wc)" by (metis prod.collapse)
  obtain material where m: "rm = Inr material"
    using assms(1) a fs0 b by (cases rm) (auto simp: start_daemon_def Let_def hosts_def)
  obtain idn where i: "ri = Inr idn"
    using assms(1) a fs0 b c m by (cases ri) (auto simp: start_daemon_def Let_def hosts_def)
  have d: "fs1 = fsc \<and> da_service d = new_service (en_scheme env idn) \<and> da_material d = material \<and>
      sr_attachments (da_server d) = Some (new_attachment_service (en_aead env) (id_private idn) (path_join [do_data_dir opts, ''tmp'']))"
    using assms(1) a fs0 b c m i
    by (auto simp: start_daemon_def Let_def hosts_def on_store_def new_server_def split: prod.splits sum.splits)
  note mb = ensure_material_files [OF b] and ic = ensure_identity_files [OF c]
  have "map_le fsb fs1" "map_le fs fs1" using mb ic d map_le_trans by blast+
  moreover have "material_in (en_certs env) (do_data_dir opts) fsb material" using mb m assms(3) by blast
  moreover have "identity_in (en_keys env) (do_data_dir opts) fs1 idn" using ic i d assms(2) by blast
  ultimately show thesis using that [of idn] d material_in_le by blast
qed

lemma draw_time: "draw time_now (fs, w) = (clock (w_eff w) 0, fs, w\<lparr>w_eff := (w_eff w)\<lparr>clock := (\<lambda>i. clock (w_eff w) (Suc i))\<rparr>\<rparr>)"
  by (simp add: draw_def with_eff_def time_now_def)

text \<open>With an active client the state file only gets the server's name and loses expired codes.\<close>

lemma bootstrap_active:
  assumes "no_faults w" and "stored w = Some c" and "marshalable c" and "\<exists>x \<in> set (cfg_clients c). \<not> cl_revoked x"
  shows "\<exists>w'. ensure_bootstrap sv name w = (Inr [], w') \<and> no_faults w' \<and>
    stored w' = Some (c\<lparr>cfg_server_name := name, cfg_pairing_codes := live_codes (clock (w_eff w) 0) c\<rparr>) \<and>
    marshalable (c\<lparr>cfg_server_name := name, cfg_pairing_codes := live_codes (clock (w_eff w) 0) c\<rparr>) \<and>
    clock (w_eff w') = (\<lambda>i. clock (w_eff w) (Suc i))"
proof -
  let ?c = "c\<lparr>cfg_server_name := name, cfg_pairing_codes := live_codes (clock (w_eff w) 0) c\<rparr>"
  have f: "bootstrap_fn sv name c (w_eff w) = (Inr (?c, []), (w_eff w)\<lparr>clock := (\<lambda>i. clock (w_eff w) (Suc i))\<rparr>)"
    using assms(4) by (auto simp: bootstrap_fn_def time_now_def prune_expired_codes_def live_codes_def list_ex_iff Let_def)
  have m: "marshalable ?c"
    using assms(3) set_live_codes by (fastforce simp: marshalable_def list_all_iff)
  obtain w' where u: "store_update (bootstrap_fn sv name) w = (Inr (?c, []), w')" "no_faults w'"
    using state.update_healthy [where fn = "bootstrap_fn sv name", OF assms(1,2) f m] by blast
  have "stored w' = Some ?c" "bootstrap_fn sv name c (w_eff w) = (Inr (?c, []), w_eff w')"
    using state.update_commit [OF u(1)] assms(2) by auto
  moreover from f this(2) have "w_eff w' = (w_eff w)\<lparr>clock := (\<lambda>i. clock (w_eff w) (Suc i))\<rparr>" by simp
  then have "clock (w_eff w') = (\<lambda>i. clock (w_eff w) (Suc i))" by simp
  ultimately show ?thesis using u m by (simp add: ensure_bootstrap_def)
qed

text \<open>A start that finds everything in place.\<close>

lemma start_daemon_found:
  assumes "identity_in (en_keys env) (do_data_dir opts) fs idn" and "material_in (en_certs env) (do_data_dir opts) fs m"
    and "no_faults w" and "stored w = Some c" and "marshalable c" and "\<exists>x \<in> set (cfg_clients c). \<not> cl_revoked x"
  shows "\<exists>d w'. start_daemon env opts (fs, w) = (Inr d, fs, w') \<and> da_service d = new_service (en_scheme env idn) \<and>
    sr_attachments (da_server d) = Some (new_attachment_service (en_aead env) (id_private idn) (path_join [do_data_dir opts, ''tmp''])) \<and>
    da_material d = m \<and> da_bootstrap d = [] \<and> da_last_row d = cfg_last_watch_rowid c \<and> no_faults w' \<and>
    clock (w_eff w') = (\<lambda>i. clock (w_eff w) (i + 2)) \<and>
    (\<exists>c'. stored w' = Some c' \<and> marshalable c' \<and> cfg_clients c' = cfg_clients c)"
proof -
  define wt where "wt = w\<lparr>w_eff := (w_eff w)\<lparr>clock := (\<lambda>i. clock (w_eff w) (Suc i))\<rparr>\<rparr>"
  have wt: "no_faults wt" "stored wt = Some c" "clock (w_eff wt) = (\<lambda>i. clock (w_eff w) (Suc i))"
    using assms(3,4) by (simp_all add: wt_def no_faults_def stored_def)
  obtain wl where l: "store_load wt = (Inr c, wl)" "no_faults wl" using state.load_healthy [OF wt(1,2)] by blast
  have wl: "stored wl = Some c" "w_eff wl = w_eff wt" using state.load_frame [OF l(1)] wt(2) by simp_all
  let ?sv = "new_service (en_scheme env idn)"
  obtain w' where b: "ensure_bootstrap ?sv (do_server_name opts) wl = (Inr [], w')" "no_faults w'"
    "stored w' = Some (c\<lparr>cfg_server_name := do_server_name opts, cfg_pairing_codes := live_codes (clock (w_eff wl) 0) c\<rparr>)"
    "marshalable (c\<lparr>cfg_server_name := do_server_name opts, cfg_pairing_codes := live_codes (clock (w_eff wl) 0) c\<rparr>)"
    "clock (w_eff w') = (\<lambda>i. clock (w_eff wl) (Suc i))"
    using bootstrap_active [OF l(2) wl(1) assms(5,6)] by blast
  show ?thesis
    using b wl(2) wt(3) l(1)
    by (simp add: start_daemon_def draw_time flip: wt_def)
      (simp add: ensure_material_found [OF wt(1) assms(2)] ensure_identity_found [OF wt(1) assms(1)] on_store_def new_server_def Let_def)
qed

section \<open>Properties\<close>

text \<open>
  C6. A restart is seamless for a paired device: if a daemon that had started has paired it,
  then a later start on the same data directory, with its key files and state as they were and no
  fault, but whatever options, host name and addresses, succeeds without touching a file, shows
  the same fingerprint, offers no pairing code, opens the same attachment ids, and takes the
  token of the device for that device until the token's 90 days are over.
\<close>

theorem restart_keeps_devices:
  assumes "start_daemon env opts (fs, w) = (Inr d, fs1, w1)"
    and "sound_keys (en_keys env)" and "sound_pem (cl_pem (en_certs env))" and "\<forall>idn. sound_scheme (en_scheme env idn)"
    and "pair (da_service d) code name type wp = (Inr result, wq)"
    and "en_keys env2 = en_keys env" and "en_certs env2 = en_certs env" and "en_scheme env2 = en_scheme env" and "en_aead env2 = en_aead env"
    and "do_data_dir opts2 = do_data_dir opts"
    and "\<forall>p \<in> identity_paths (do_data_dir opts) \<union> tls_paths (do_data_dir opts). fs2 p = fs1 p"
    and "no_faults w2" and "stored w2 = stored wq"
    and "in_int64 (unix_of (clock (w_eff wp) 1 + 90 * 24 * hour))"
    and "unix_of (clock (w_eff w2) 2) < unix_of (clock (w_eff wp) 1 + 90 * 24 * hour)"
    and "time_in_range (clock (w_eff w2) 3)"
  shows "\<exists>d2 w3 ac claims w4. start_daemon env2 opts2 (fs2, w2) = (Inr d2, fs2, w3) \<and>
    tm_fingerprint (da_material d2) = tm_fingerprint (da_material d) \<and> da_bootstrap d2 = [] \<and>
    sr_attachments (da_server d2) = sr_attachments (da_server d) \<and>
    authenticate (da_service d2) (pr_token result) w3 = (Inr (ac, claims), w4) \<and> ac_id ac = pr_client_id result"
proof -
  obtain idn where made: "identity_in (en_keys env) (do_data_dir opts) fs1 idn" "da_service d = new_service (en_scheme env idn)"
    "sr_attachments (da_server d) = Some (new_attachment_service (en_aead env) (id_private idn) (path_join [do_data_dir opts, ''tmp'']))"
    "material_in (en_certs env) (do_data_dir opts) fs1 (da_material d)"
    using start_daemon_made [OF assms(1-3)] by blast
  have files: "identity_in (en_keys env2) (do_data_dir opts2) fs2 idn" "material_in (en_certs env2) (do_data_dir opts2) fs2 (da_material d)"
    using own_identity.local [OF _ made(1), of fs2] own_certificate.local [OF _ made(4), of fs2] assms(6,7,10,11) by simp_all
  let ?sv = "new_service (en_scheme env idn)"
  from assms(5) obtain cq cid token claims ps nm ty now where p: "stored wq = Some cq" "marshalable cq"
    "grants ?sv ps (sv_default_ttl ?sv) (w_eff wp) cid token claims" "pr_token result = token" "pr_client_id result = cid"
    "new_client cid nm ty ps claims now \<in> set (cfg_clients cq)"
  proof (cases rule: pair_cases)
    case (paired c0 i p cid token claims)
    have "marshalable c1" if "stored wq = Some c1" for c1
      using assms(5) that by (auto simp: pair_def Let_def split: if_splits sum.splits prod.splits dest!: state.update_commit)
    from this [OF paired(9)] have m: "marshalable (c0\<lparr>cfg_pairing_codes := remove_at i (live_codes (clock (w_eff wp) 0) c0),
        cfg_clients := cfg_clients c0 @ [new_client cid (trim_space name) (trim_space type) (pc_scopes p) claims (clock (w_eff wp) 0)]\<rparr>)" .
    show thesis using that [OF paired(9) m, of "pc_scopes p" cid token claims] paired(7,8) made(2) by auto
  qed simp
  have active: "\<exists>x \<in> set (cfg_clients cq). \<not> cl_revoked x" by (rule bexI [OF _ p(6)]) (simp add: new_client_def)
  have stored: "stored w2 = Some cq" using assms(13) p(1) by simp
  from start_daemon_found [OF files assms(12) stored p(2) active] obtain d2 w3 c3 where s2:
    "start_daemon env2 opts2 (fs2, w2) = (Inr d2, fs2, w3)" "da_service d2 = new_service (en_scheme env2 idn)"
    "sr_attachments (da_server d2) = Some (new_attachment_service (en_aead env2) (id_private idn) (path_join [do_data_dir opts2, ''tmp'']))"
    "da_material d2 = da_material d" "da_bootstrap d2 = []" "no_faults w3" "clock (w_eff w3) = (\<lambda>i. clock (w_eff w2) (i + 2))"
    "stored w3 = Some c3" "marshalable c3" "cfg_clients c3 = cfg_clients cq" by blast
  have ttl: "sv_default_ttl ?sv = 90 * 24 * hour" by (simp add: new_service_def)
  have scheme: "sound_scheme (sv_tokens ?sv)" using assms(4) by (simp add: new_service_def)
  have clock3: "clock (w_eff w3) 0 = clock (w_eff w2) 2" "clock (w_eff w3) 1 = clock (w_eff w2) 3" unfolding s2(7)
    by (simp_all add: numeral_2_eq_2 numeral_3_eq_3)
  have times: "in_int64 (unix_of (clock (w_eff wp) 1 + sv_default_ttl ?sv))"
    "unix_of (clock (w_eff w3) 0) < unix_of (clock (w_eff wp) 1 + sv_default_ttl ?sv)" "time_in_range (clock (w_eff w3) 1)"
    unfolding ttl clock3 by (fact assms(14-16))+
  have member: "new_client cid nm ty ps claims now \<in> set (cfg_clients c3)" using p(6) s2(10) by simp
  obtain ac w4 where "authenticate ?sv token w3 = (Inr (ac, claims), w4)" "ac_id ac = cid"
    using grant_authenticates [OF p(3) scheme times(1) s2(6,8,9) member times(2,3)] by blast
  with s2 made(3) p(4,5) assms(8-10) show ?thesis by auto
qed

text \<open>A host without a name or a network, and a data directory that has its keys.\<close>

definition bare_env :: start_env where
  "bare_env = \<lparr>en_hostname = None, en_home = Some ''/home/me'', en_ifaces = None,
     en_proc = \<lparr>pe_getenv = (\<lambda>k. []), pe_getwd = None, pe_executable = None, pe_stat = (\<lambda>p. None)\<rparr>,
     en_keys = test_keys, en_certs = test_certs, en_scheme = (\<lambda>idn. tag_manager), en_aead = plain_aead\<rparr>"

definition bare_options :: "string \<Rightarrow> daemon_options" where
  "bare_options name = \<lparr>do_listen = '':8443'', do_server_name = name, do_tailscale_ip = [], do_data_dir = ''/data'',
     do_imsg_bin = ''imsg'', do_socket = []\<rparr>"

definition kept_files :: files where
  "kept_files = [''/data/identity.key'' \<mapsto> pem_encode test_pem ''PRIVATE KEY'' ''private'',
     ''/data/identity.pub'' \<mapsto> pem_encode test_pem ''PUBLIC KEY'' ''public'',
     ''/data/tls.crt'' \<mapsto> pem_encode test_pem ''CERTIFICATE'' ''cert'', ''/data/tls.key'' \<mapsto> []]"

lemma kept_files_hold:
  "identity_in (en_keys bare_env) (do_data_dir (bare_options name)) kept_files \<lparr>id_private = ''private'', id_public = ''public''\<rparr>"
  "material_in (en_certs bare_env) (do_data_dir (bare_options name)) kept_files
     \<lparr>tm_cert_path = ''/data/tls.crt'', tm_key_path = ''/data/tls.key'', tm_fingerprint = format_fingerprint test_certs ''cert''\<rparr>"
proof -
  have decode: "pem_decode test_pem (pem_encode test_pem t b) = Some (t, b)" for t b
    using test_pem_sound by (simp add: sound_pem_def)
  have libs: "kl_pem test_keys = test_pem" "kl_parse_private test_keys b = Inr (Ed25519Key b)"
    "kl_parse_public test_keys b = Inr (Ed25519Key b)" "cl_pem test_certs = test_pem" for b
    by (simp_all add: test_keys_def test_certs_def)
  show "identity_in (en_keys bare_env) (do_data_dir (bare_options name)) kept_files \<lparr>id_private = ''private'', id_public = ''public''\<rparr>"
    by (simp add: identity_in_def key_in_def bare_env_def bare_options_def test_paths libs kept_files_def decode)
  show "material_in (en_certs bare_env) (do_data_dir (bare_options name)) kept_files
     \<lparr>tm_cert_path = ''/data/tls.crt'', tm_key_path = ''/data/tls.key'', tm_fingerprint = format_fingerprint test_certs ''cert''\<rparr>"
    by (simp add: material_in_def bare_env_def bare_options_def test_paths libs kept_files_def decode)
qed

theorem restart_keeps_devices_witness:
  "\<exists>d w1 result wq d2 w3 ac claims w4. start_daemon bare_env (bare_options ''mac'') (kept_files, holding one_client) = (Inr d, kept_files, w1) \<and>
     pair (da_service d) '' abc234'' ''Phone'' ''ios'' (holding demo_config) = (Inr result, wq) \<and>
     start_daemon bare_env (bare_options ''studio'') (kept_files, wq) = (Inr d2, kept_files, w3) \<and>
     authenticate (da_service d2) (pr_token result) w3 = (Inr (ac, claims), w4)"
proof -
  have active: "\<exists>x \<in> set (cfg_clients one_client). \<not> cl_revoked x" by (simp add: one_client_def zero_client_def)
  obtain d w1 where s1: "start_daemon bare_env (bare_options ''mac'') (kept_files, holding one_client) = (Inr d, kept_files, w1)"
    "da_service d = new_service (en_scheme bare_env \<lparr>id_private = ''private'', id_public = ''public''\<rparr>)"
    using start_daemon_found [OF kept_files_hold, of "holding one_client" one_client "''mac''"] active by auto
  have service: "da_service d = demo_service" using s1(2) by (simp add: bare_env_def demo_service_def)
  obtain result wq where p: "pair demo_service '' abc234'' ''Phone'' ''ios'' (holding demo_config) = (Inr result, wq)" "no_faults wq"
    using demo_pairs by blast
  have clock: "clock (w_eff wq) = (\<lambda>i. int (i + 2))"
    using p(1) by (cases rule: pair_cases) auto
  have libs: "sound_keys (en_keys bare_env)" "sound_pem (cl_pem (en_certs bare_env))" "\<forall>idn. sound_scheme (en_scheme bare_env idn)"
    using test_keys_sound test_pem_sound demo_service_facts(1)
    by (simp_all add: bare_env_def test_certs_def demo_service_def new_service_def)
  have times: "in_int64 (unix_of (clock (w_eff (holding demo_config)) 1 + 90 * 24 * hour))"
    "unix_of (clock (w_eff wq) 2) < unix_of (clock (w_eff (holding demo_config)) 1 + 90 * 24 * hour)"
    "time_in_range (clock (w_eff wq) 3)"
    by (simp_all add: clock unix_of_def in_int64_def min_int64_def max_int64_def time_in_range_small)
  have pd: "pair (da_service d) '' abc234'' ''Phone'' ''ios'' (holding demo_config) = (Inr result, wq)" using p(1) service by simp
  have same: "do_data_dir (bare_options ''studio'') = do_data_dir (bare_options ''mac'')" by (simp add: bare_options_def)
  from restart_keeps_devices [OF s1(1) libs pd refl refl refl refl same _ p(2) refl times, of kept_files]
  show ?thesis using s1(1) pd by blast
qed

end
