(* ===== verification/CtlServer.thy ===== *)
theory CtlServer
  imports CtlSock
begin

text \<open>
  The life of the control socket (\<open>Server.Run\<close> of \<open>internal/ctlsock/server.go\<close>): the socket file is
  made, narrowed to its owner and removed again, and connections are accepted in between. One turn
  of \<open>Run\<close> is the return of the call it stands at; what the call returned is an argument, so every
  call can fail. Beside it runs the goroutine that closes the listener when the context ends.
\<close>

section \<open>Socket files\<close>

text \<open>Permission bits, and the two kinds of users a mode can tell apart.\<close>

type_synonym file_mode = "9 word"

datatype user = Owner | Stranger

text \<open>To connect is to write to the socket file.\<close>

definition write_bits :: "user \<Rightarrow> file_mode" where
  "write_bits u = (case u of Owner \<Rightarrow> 0x80 | Stranger \<Rightarrow> 0x12)"

definition may_connect :: "user \<Rightarrow> file_mode \<Rightarrow> bool" where
  "may_connect u m \<longleftrightarrow> and m (write_bits u) \<noteq> 0"

text \<open>Which \<open>Run\<close> is bound to a socket file, by a number, and the mode of the file.\<close>

record socket_file =
  sk_run :: nat
  sk_mode :: file_mode

record paths =
  pa_files :: files
  pa_sockets :: "string \<rightharpoonup> socket_file"

definition remove_path :: "string \<Rightarrow> paths \<Rightarrow> paths" where
  "remove_path p ps = ps\<lparr>pa_files := (pa_files ps)(p := None), pa_sockets := (pa_sockets ps)(p := None)\<rparr>"

text \<open>A removal whose error is ignored.\<close>

definition try_remove :: "string \<Rightarrow> string option \<Rightarrow> paths \<Rightarrow> paths" where
  "try_remove p err ps = (if err = None then remove_path p ps else ps)"

definition bind_socket :: "file_mode \<Rightarrow> nat \<Rightarrow> string \<Rightarrow> paths \<Rightarrow> paths" where
  "bind_socket umask i p ps =
     ps\<lparr>pa_sockets := (pa_sockets ps)(p \<mapsto> \<lparr>sk_run = i, sk_mode = and 0x1FF (not umask)\<rparr>)\<rparr>"

definition chmod_socket :: "file_mode \<Rightarrow> string \<Rightarrow> paths \<Rightarrow> paths" where
  "chmod_socket m p ps = ps\<lparr>pa_sockets := (pa_sockets ps)(p := map_option (sk_mode_update (\<lambda>_. m)) (pa_sockets ps p))\<rparr>"

section \<open>Run\<close>

text \<open>The call at which \<open>Run\<close> stands; the last three are its deferred calls.\<close>

datatype run_place =
    AtMkdir | AtClear | AtListen | AtChmod | AtAccept
  | AtWait | AtRemove | AtClose | RunReturned

text \<open>A connection is a number and the user behind it.\<close>

type_synonym dialled = "nat \<times> user"

record ctl_run =
  cx_at :: run_place
  cx_open :: bool
  cx_watched :: bool
  cx_backlog :: "dialled list"
  cx_conns :: "dialled list"
  cx_result :: "string option"

definition new_run :: ctl_run where
  "new_run = \<lparr>cx_at = AtMkdir, cx_open = False, cx_watched = False, cx_backlog = [], cx_conns = [], cx_result = None\<rparr>"

text \<open>\<open>Close\<close> of a listener removes the path it was bound to, the first time only.\<close>

definition close_listener :: "string \<Rightarrow> string option \<Rightarrow> ctl_run \<times> paths \<Rightarrow> ctl_run \<times> paths" where
  "close_listener p err s =
     (case s of (r, ps) \<Rightarrow>
        if cx_open r then (r\<lparr>cx_open := False, cx_backlog := []\<rparr>, try_remove p err ps) else (r, ps))"

text \<open>
  One turn: the call returns with an error or without. \<open>None\<close>: it cannot return so. The boolean
  is whether the context has ended.
\<close>

definition run_turn :: "file_mode \<Rightarrow> nat \<Rightarrow> string \<Rightarrow> bool \<Rightarrow> string option \<Rightarrow> ctl_run \<times> paths \<Rightarrow> (ctl_run \<times> paths) option" where
  "run_turn umask i p ended err s =
     (case s of (r, ps) \<Rightarrow>
        (case cx_at r of
           AtMkdir \<Rightarrow>
             (case err of
                Some e \<Rightarrow> Some (r\<lparr>cx_at := RunReturned, cx_result := Some (''create socket dir: '' @ e)\<rparr>, ps)
              | None \<Rightarrow> Some (r\<lparr>cx_at := AtClear\<rparr>, ps))
         | AtClear \<Rightarrow> Some (r\<lparr>cx_at := AtListen\<rparr>, try_remove p err ps)
         | AtListen \<Rightarrow>
             (case err of
                Some e \<Rightarrow> Some (r\<lparr>cx_at := RunReturned, cx_result := Some (''listen unix socket: '' @ e)\<rparr>, ps)
              | None \<Rightarrow>
                  if pa_files ps p = None \<and> pa_sockets ps p = None
                  then Some (r\<lparr>cx_at := AtChmod, cx_open := True\<rparr>, bind_socket umask i p ps)
                  else None)
         | AtChmod \<Rightarrow>
             (case err of
                Some e \<Rightarrow> Some (r\<lparr>cx_at := AtRemove, cx_result := Some (''chmod socket: '' @ e)\<rparr>, ps)
              | None \<Rightarrow>
                  if pa_files ps p = None \<and> pa_sockets ps p = None then None
                  else Some (r\<lparr>cx_at := AtAccept, cx_watched := True\<rparr>, chmod_socket 0x180 p ps))
         | AtAccept \<Rightarrow>
             (case err of
                Some e \<Rightarrow>
                  Some (r\<lparr>cx_at := AtWait,
                      cx_result := (if ended \<or> \<not> cx_open r then None else Some (''accept control socket: '' @ e))\<rparr>, ps)
              | None \<Rightarrow>
                  (case cx_backlog r of
                     [] \<Rightarrow> None
                   | c # cs \<Rightarrow>
                       if cx_open r then Some (r\<lparr>cx_backlog := cs, cx_conns := cx_conns r @ [c]\<rparr>, ps) else None))
         | AtWait \<Rightarrow> if cx_conns r = [] then Some (r\<lparr>cx_at := AtRemove\<rparr>, ps) else None
         | AtRemove \<Rightarrow> Some (r\<lparr>cx_at := AtClose\<rparr>, try_remove p err ps)
         | AtClose \<Rightarrow> Some (close_listener p err (r\<lparr>cx_at := RunReturned\<rparr>, ps))
         | RunReturned \<Rightarrow> None))"

text \<open>The goroutine that waits for the end of the context.\<close>

definition watch_turn :: "string \<Rightarrow> bool \<Rightarrow> string option \<Rightarrow> ctl_run \<times> paths \<Rightarrow> (ctl_run \<times> paths) option" where
  "watch_turn p ended err s =
     (case s of (r, ps) \<Rightarrow>
        if ended \<and> cx_watched r then Some (close_listener p err (r\<lparr>cx_watched := False\<rparr>, ps)) else None)"

text \<open>A user connects, and a handler ends.\<close>

definition dial :: "nat \<Rightarrow> string \<Rightarrow> dialled \<Rightarrow> ctl_run \<times> paths \<Rightarrow> (ctl_run \<times> paths) option" where
  "dial i p c s =
     (case s of (r, ps) \<Rightarrow>
        (case pa_sockets ps p of
           None \<Rightarrow> None
         | Some k \<Rightarrow>
             if sk_run k = i \<and> cx_open r \<and> may_connect (snd c) (sk_mode k)
             then Some (r\<lparr>cx_backlog := cx_backlog r @ [c]\<rparr>, ps) else None))"

definition hang_up :: "dialled \<Rightarrow> ctl_run \<Rightarrow> ctl_run option" where
  "hang_up c r = (if c \<in> set (cx_conns r) then Some (r\<lparr>cx_conns := remove1 c (cx_conns r)\<rparr>) else None)"

text \<open>Turn after turn, with what each call returns.\<close>

fun run_all :: "file_mode \<Rightarrow> nat \<Rightarrow> string \<Rightarrow> bool \<Rightarrow> string option list \<Rightarrow> ctl_run \<times> paths \<Rightarrow> (ctl_run \<times> paths) option" where
  "run_all umask i p ended [] s = Some s"
| "run_all umask i p ended (err # errs) s = Option.bind (run_turn umask i p ended err s) (run_all umask i p ended errs)"

section \<open>Facts\<close>

text \<open>With healthy calls \<open>Run\<close> comes to accept, whatever socket file was left at its path.\<close>

definition opened :: "nat \<Rightarrow> string \<Rightarrow> paths \<Rightarrow> paths" where
  "opened i p ps = ps\<lparr>pa_files := (pa_files ps)(p := None), pa_sockets := (pa_sockets ps)(p \<mapsto> \<lparr>sk_run = i, sk_mode = 0x180\<rparr>)\<rparr>"

lemma run_opens:
  "run_all umask i p ended [None, None, None, None] (new_run, ps) =
     Some (new_run\<lparr>cx_at := AtAccept, cx_open := True, cx_watched := True\<rparr>, opened i p ps)"
  by (simp add: run_turn_def new_run_def try_remove_def remove_path_def bind_socket_def chmod_socket_def opened_def)

lemma owner_connects: "may_connect Owner 0x180" "\<not> may_connect Stranger 0x180"
  by (simp_all add: may_connect_def write_bits_def)

section \<open>Who gets in\<close>

text \<open>What a \<open>Run\<close> that has its path to itself knows of it.\<close>

definition held :: "file_mode \<Rightarrow> nat \<Rightarrow> string \<Rightarrow> ctl_run \<Rightarrow> paths \<Rightarrow> bool" where
  "held umask i p r ps \<longleftrightarrow>
     (cx_open r \<longrightarrow> cx_at r \<notin> {AtMkdir, AtClear, AtListen, RunReturned}) \<and>
     (cx_open r \<and> cx_at r = AtChmod \<longrightarrow> pa_sockets ps p = Some \<lparr>sk_run = i, sk_mode = and 0x1FF (not umask)\<rparr>) \<and>
     (cx_open r \<and> cx_at r \<in> {AtAccept, AtWait} \<longrightarrow> pa_sockets ps p = Some \<lparr>sk_run = i, sk_mode = 0x180\<rparr>)"

lemma held_new: "held umask i p new_run ps"
  by (simp add: held_def new_run_def)

lemma held_updates [simp]:
  "held umask i p r (ps\<lparr>pa_files := fs\<rparr>) = held umask i p r ps"
  "held umask i p (r\<lparr>cx_conns := cs\<rparr>) ps = held umask i p r ps"
  by (simp_all add: held_def)

lemma run_turn_held:
  assumes "run_turn umask i p ended err (r, ps) = Some (r', ps')" and "held umask i p r ps"
  shows "held umask i p r' ps'"
  using assms
  by (cases "cx_at r") (auto simp: run_turn_def held_def bind_socket_def chmod_socket_def close_listener_def
      split: option.splits if_splits list.splits)

lemma watch_turn_held:
  assumes "watch_turn p ended err (r, ps) = Some (r', ps')"
  shows "held umask i p r ps \<Longrightarrow> held umask i p r' ps'"
  using assms by (auto simp: watch_turn_def held_def close_listener_def split: if_splits)

lemma dial_held:
  assumes "dial j q c (r, ps) = Some (r', ps')"
  shows "held umask i p r ps \<Longrightarrow> held umask i p r' ps'"
  using assms by (auto simp: dial_def held_def split: option.splits if_splits)

text \<open>Sockets of the given runs that only their owner may use, and a \<open>Run\<close> whose callers are owners.\<close>

definition tight :: "nat set \<Rightarrow> paths \<Rightarrow> bool" where
  "tight I ps \<longleftrightarrow> (\<forall>p k. pa_sockets ps p = Some k \<longrightarrow> sk_run k \<in> I \<longrightarrow> \<not> may_connect Stranger (sk_mode k))"

definition owners :: "ctl_run \<Rightarrow> bool" where
  "owners r \<longleftrightarrow> (\<forall>c \<in> set (cx_backlog r @ cx_conns r). snd c = Owner)"

lemma owners_new: "owners new_run"
  by (simp add: owners_def new_run_def)

lemma masked_mode:
  assumes "and umask 0x12 = (0x12 :: file_mode)"
  shows "\<not> may_connect Stranger (and 0x1FF (not umask))"
proof -
  have "and (not umask) 0x12 = and (not umask) (and umask 0x12)" using assms by simp
  also have "\<dots> = 0" by (simp add: and.assoc [symmetric])
  finally show ?thesis by (simp add: may_connect_def write_bits_def and.assoc)
qed

lemma tight_files [simp]: "tight I (ps\<lparr>pa_files := fs\<rparr>) = tight I ps"
  by (simp add: tight_def)

lemma try_remove_tight: "tight I ps \<Longrightarrow> tight I (try_remove p err ps)"
  by (auto simp: tight_def try_remove_def remove_path_def)

lemma close_listener_tight:
  assumes "close_listener p err (r, ps) = (r', ps')"
  shows "tight I ps \<Longrightarrow> tight I ps'" and "owners r \<Longrightarrow> owners r'"
  using assms by (auto simp: close_listener_def owners_def try_remove_tight split: if_splits)

lemma chmod_tight: "tight I ps \<Longrightarrow> tight I (chmod_socket 0x180 p ps)"
  by (auto simp: tight_def chmod_socket_def owner_connects)

lemma bind_tight: "and umask 0x12 = 0x12 \<Longrightarrow> tight I ps \<Longrightarrow> tight I (bind_socket umask i p ps)"
  using masked_mode by (auto simp: tight_def bind_socket_def)

lemma run_turn_tight:
  assumes "run_turn umask i p ended err (r, ps) = Some (r', ps')" and "and umask 0x12 = 0x12"
  shows "tight I ps \<Longrightarrow> tight I ps'" and "owners r \<Longrightarrow> owners r'"
proof -
  show "tight I ps'" if "tight I ps"
    using assms that
    by (cases "cx_at r") (auto simp: run_turn_def try_remove_tight chmod_tight bind_tight
        split: option.splits if_splits list.splits dest: close_listener_tight(1))
  show "owners r'" if "owners r"
    using assms(1) that
    by (cases "cx_at r") (auto simp: run_turn_def owners_def close_listener_def split: option.splits if_splits list.splits)
qed

lemma watch_turn_tight:
  assumes "watch_turn p ended err (r, ps) = Some (r', ps')"
  shows "tight I ps \<Longrightarrow> tight I ps'" and "owners r \<Longrightarrow> owners r'"
  using assms by (auto simp: watch_turn_def close_listener_def owners_def try_remove_tight split: if_splits)

lemma dial_tight:
  assumes "dial i p c (r, ps) = Some (r', ps')" and "tight I ps" and "i \<in> I"
  shows "ps' = ps" and "owners r \<Longrightarrow> owners r'"
proof -
  show "ps' = ps" using assms(1) by (auto simp: dial_def split: option.splits if_splits)
  show "owners r'" if "owners r"
    using assms that by (cases "snd c") (fastforce simp: dial_def tight_def owners_def split: option.splits if_splits)+
qed

lemma hang_up_owners: "hang_up c r = Some r' \<Longrightarrow> owners r \<Longrightarrow> owners r' \<and> snd c = Owner"
  by (auto simp: hang_up_def owners_def split: if_splits dest: set_mp [OF set_remove1_subset])

end
