(* ===== verification/Lifecycle.thy ===== *)
theory Lifecycle
  imports Startup CtlServer
begin

text \<open>
  A machine over time: daemons start, serve requests over HTTP and on their control sockets, are
  told to stop, return from \<open>main\<close>, fail or are killed, and others start after them or beside
  them. This composes the start (\<open>Startup\<close>), the control socket (\<open>CtlServer\<close>), the handlers
  (\<open>Daemon\<close>) and the end of \<open>main\<close>; the state file and the other files are all that lasts.
\<close>

section \<open>Processes\<close>

text \<open>
  A daemon from the end of its start on: its caches, whether its context has ended, its \<open>Run\<close>,
  whether its HTTP server listens, the requests in flight, and its exit status.
\<close>

record proc =
  px_daemon :: daemon
  px_history :: message_history_cache
  px_limiter :: rate_limiter
  px_ended :: bool
  px_run :: ctl_run
  px_serving :: bool
  px_requests :: "request list"
  px_exit :: "nat option"

definition new_proc :: "daemon \<Rightarrow> proc" where
  "new_proc d =
     \<lparr>px_daemon = d, px_history = new_message_history_cache (30 * minute), px_limiter = new_rate_limiter,
      px_ended = False, px_run = new_run, px_serving = True, px_requests = [], px_exit = None\<rparr>"

record host =
  ho_world :: world
  ho_paths :: paths
  ho_procs :: "nat \<rightharpoonup> proc"

definition running :: "host \<Rightarrow> nat \<Rightarrow> proc option" where
  "running h i = (case ho_procs h i of None \<Rightarrow> None | Some x \<Rightarrow> if px_exit x = None then Some x else None)"

definition set_proc :: "nat \<Rightarrow> proc \<Rightarrow> host \<Rightarrow> host" where
  "set_proc i x h = h\<lparr>ho_procs := (ho_procs h)(i \<mapsto> x)\<rparr>"

text \<open>What the handlers of a process see of the machine, and what they leave.\<close>

definition proc_state :: "host \<Rightarrow> proc \<Rightarrow> api_state" where
  "proc_state h x =
     \<lparr>st_world = ho_world h, st_files = pa_files (ho_paths h), st_history = px_history x, st_limiter = px_limiter x\<rparr>"

definition put_state :: "nat \<Rightarrow> proc \<Rightarrow> api_state \<Rightarrow> host \<Rightarrow> host" where
  "put_state i x st h =
     set_proc i (x\<lparr>px_history := st_history st, px_limiter := st_limiter st\<rparr>)
       (h\<lparr>ho_world := st_world st, ho_paths := (ho_paths h)\<lparr>pa_files := st_files st\<rparr>\<rparr>)"

definition proc_path :: "proc \<Rightarrow> string" where
  "proc_path x = da_socket (px_daemon x)"

text \<open>The \<open>Run\<close> of a process and the paths, before and after.\<close>

definition put_run :: "nat \<Rightarrow> proc \<Rightarrow> ctl_run \<times> paths \<Rightarrow> host \<Rightarrow> host" where
  "put_run i x s h = set_proc i (x\<lparr>px_run := fst s\<rparr>) (h\<lparr>ho_paths := snd s\<rparr>)"

abbreviation run_of :: "host \<Rightarrow> proc \<Rightarrow> ctl_run \<times> paths" where
  "run_of h x \<equiv> (px_run x, ho_paths h)"

section \<open>Steps\<close>

datatype host_event =
    Refused go_error
  | Began nat daemon
  | Signalled nat
  | ShutDown nat
  | Exited nat nat
  | RunTurn nat
  | WatchTurn nat
  | Dialled nat dialled
  | Answered nat dialled string string
  | Arrived nat request
  | Replied nat request response
  | Aside nat

text \<open>
  With \<open>lone\<close> a daemon starts only when no other runs. \<open>main\<close> returns as soon as its server has
  been shut down, and a failing server ends it with \<open>log.Fatal\<close>; either way, and when it is
  killed, its goroutines are gone and what they held is lost. A connection that ends, or sends no
  request, is answered like one that sent the bytes it did.
\<close>

inductive host_step :: "file_mode \<Rightarrow> bool \<Rightarrow> host \<Rightarrow> host_event \<Rightarrow> host \<Rightarrow> bool"
  for umask :: file_mode and lone :: bool where
  refused: "(lone \<longrightarrow> (\<forall>j. running h j = None)) \<Longrightarrow>
    start_daemon env opts (pa_files (ho_paths h), ho_world h) = (Inl err, fs, w) \<Longrightarrow>
    host_step umask lone h (Refused err) (h\<lparr>ho_world := w, ho_paths := (ho_paths h)\<lparr>pa_files := fs\<rparr>\<rparr>)"
| began: "(lone \<longrightarrow> (\<forall>j. running h j = None)) \<Longrightarrow> ho_procs h i = None \<Longrightarrow>
    (\<forall>p k. pa_sockets (ho_paths h) p = Some k \<longrightarrow> sk_run k \<noteq> i) \<Longrightarrow>
    start_daemon env opts (pa_files (ho_paths h), ho_world h) = (Inr d, fs, w) \<Longrightarrow>
    host_step umask lone h (Began i d)
      (set_proc i (new_proc d) (h\<lparr>ho_world := w, ho_paths := (ho_paths h)\<lparr>pa_files := fs\<rparr>\<rparr>))"
| signalled: "running h i = Some x \<Longrightarrow>
    host_step umask lone h (Signalled i) (set_proc i (x\<lparr>px_ended := True\<rparr>) h)"
| shut_down: "running h i = Some x \<Longrightarrow> px_ended x \<Longrightarrow>
    host_step umask lone h (ShutDown i) (set_proc i (x\<lparr>px_serving := False\<rparr>) h)"
| returned: "running h i = Some x \<Longrightarrow> \<not> px_serving x \<Longrightarrow>
    host_step umask lone h (Exited i 0) (set_proc i (x\<lparr>px_exit := Some 0\<rparr>) h)"
| failed: "running h i = Some x \<Longrightarrow> px_serving x \<Longrightarrow>
    host_step umask lone h (Exited i 1) (set_proc i (x\<lparr>px_exit := Some 1\<rparr>) h)"
| killed: "running h i = Some x \<Longrightarrow>
    host_step umask lone h (Exited i 137) (set_proc i (x\<lparr>px_exit := Some 137\<rparr>) h)"
| run_turns: "running h i = Some x \<Longrightarrow>
    run_turn umask i (proc_path x) (px_ended x) err (run_of h x) = Some s \<Longrightarrow>
    host_step umask lone h (RunTurn i) (put_run i x s h)"
| watch_turns: "running h i = Some x \<Longrightarrow>
    watch_turn (proc_path x) (px_ended x) err (run_of h x) = Some s \<Longrightarrow>
    host_step umask lone h (WatchTurn i) (put_run i x s h)"
| dials: "running h i = Some x \<Longrightarrow> dial i (proc_path x) c (run_of h x) = Some s \<Longrightarrow>
    host_step umask lone h (Dialled i c) (put_run i x s h)"
| answers: "running h i = Some x \<Longrightarrow> hang_up c (px_run x) = Some r \<Longrightarrow>
    daemon_step (da_server (px_daemon x)) (da_service (px_daemon x)) (proc_state h x) (Controlled sent reply) st \<Longrightarrow>
    host_step umask lone h (Answered i c sent reply) (put_state i (x\<lparr>px_run := r\<rparr>) st h)"
| arrives: "running h i = Some x \<Longrightarrow> px_serving x \<Longrightarrow>
    host_step umask lone h (Arrived i q) (set_proc i (x\<lparr>px_requests := px_requests x @ [q]\<rparr>) h)"
| replies: "running h i = Some x \<Longrightarrow> q \<in> set (px_requests x) \<Longrightarrow>
    daemon_step (da_server (px_daemon x)) (da_service (px_daemon x)) (proc_state h x) (Served q resp) st \<Longrightarrow>
    host_step umask lone h (Replied i q resp) (put_state i (x\<lparr>px_requests := remove1 q (px_requests x)\<rparr>) st h)"
| aside: "running h i = Some x \<Longrightarrow>
    daemon_step (da_server (px_daemon x)) (da_service (px_daemon x)) (proc_state h x) Elsewhere st \<Longrightarrow>
    host_step umask lone h (Aside i) (put_state i x st h)"

inductive host_run :: "file_mode \<Rightarrow> bool \<Rightarrow> host \<Rightarrow> host_event list \<Rightarrow> host \<Rightarrow> bool"
  for umask :: file_mode and lone :: bool where
  host_Nil: "host_run umask lone h [] h"
| host_Cons: "host_step umask lone h l h1 \<Longrightarrow> host_run umask lone h1 ls h2 \<Longrightarrow> host_run umask lone h (l # ls) h2"

inductive_cases host_run_ConsE: "host_run umask lone h (l # ls) h'"
inductive_simps host_run_Nil_iff [simp]: "host_run umask lone h [] h'"
inductive_cases replied_stepE: "host_step umask lone h (Replied i q resp) h'"
inductive_cases answered_stepE: "host_step umask lone h (Answered i c sent reply) h'"

lemma host_run_trans: "host_run umask lone h xs m \<Longrightarrow> host_run umask lone m ys h' \<Longrightarrow> host_run umask lone h (xs @ ys) h'"
  by (induction rule: host_run.induct) (auto intro: host_Cons)

lemma host_run_append:
  "host_run umask lone h (xs @ ys) h' \<Longrightarrow> \<exists>m. host_run umask lone h xs m \<and> host_run umask lone m ys h'"
proof (induction xs arbitrary: h)
  case (Cons x xs)
  then show ?case by (auto elim!: host_run_ConsE) (metis host_Cons)
qed auto

section \<open>A start and the state file\<close>

text \<open>The operations on key files leave the state file alone.\<close>

named_theorems state_kept

lemma file_ops_state [state_kept]:
  "make_dir (fs, w) = (r, fs', w') \<Longrightarrow> stored w' = stored w"
  "file_exists path (fs, w) = (b, fs', w') \<Longrightarrow> stored w' = stored w"
  "read_file what path (fs, w) = (raw, fs', w') \<Longrightarrow> stored w' = stored w"
  "write_pem_file pm path t bytes (fs, w) = (u, fs', w') \<Longrightarrow> stored w' = stored w"
  by (auto simp: make_dir_def file_exists_def read_file_def write_pem_file_def
      split: prod.splits option.splits if_splits intro!: stored_cong dest!: syscall_pair)

lemma draw_state [state_kept]: "draw m (fs, w) = (a, fs', w') \<Longrightarrow> stored w' = stored w"
  by (auto simp: draw_def split: prod.splits dest: stored_with_eff)

lemma load_key_state [state_kept]:
  "load_key pm parse what t path (fs, w) = (r, fs', w') \<Longrightarrow> stored w' = stored w"
  by (auto simp: load_key_def split: prod.splits sum.splits option.splits if_splits parsed_key.splits dest!: state_kept)

lemma load_identity_state [state_kept]:
  "load_identity kl kp pp (fs, w) = (r, fs', w') \<Longrightarrow> stored w' = stored w"
  by (auto simp: load_identity_def split: prod.splits sum.splits dest!: state_kept)

lemma create_identity_state [state_kept]:
  "create_identity kl kp pp (fs, w) = (r, fs', w') \<Longrightarrow> stored w' = stored w"
  by (auto simp: create_identity_def split: prod.splits sum.splits dest!: state_kept)

lemma ensure_identity_state [state_kept]:
  "ensure_identity kl dir (fs, w) = (r, fs', w') \<Longrightarrow> stored w' = stored w"
  by (auto simp: ensure_identity_def Let_def split: prod.splits sum.splits if_splits dest!: state_kept)

lemma fingerprint_state [state_kept]:
  "fingerprint_from_cert_file cl path (fs, w) = (r, fs', w') \<Longrightarrow> stored w' = stored w"
  by (auto simp: fingerprint_from_cert_file_def split: prod.splits sum.splits option.splits if_splits dest!: state_kept)

lemma create_material_state [state_kept]:
  "create_material cl name hosts cp kp (fs, w) = (r, fs', w') \<Longrightarrow> stored w' = stored w"
  by (auto simp: create_material_def split: prod.splits sum.splits dest!: state_kept)

lemma ensure_material_state [state_kept]:
  "ensure_material cl dir name hosts (fs, w) = (r, fs', w') \<Longrightarrow> stored w' = stored w"
  by (auto simp: ensure_material_def Let_def split: prod.splits sum.splits if_splits dest!: state_kept)

lemma reaches_bootstrap: "ensure_bootstrap sv name w = (r, w') \<Longrightarrow> reaches sv 0 w w'"
  using auth_step.bootstrap [of sv name "full w" r w'] by (auto intro: reachesI [OF auth_reach_step])

text \<open>A start leads the state file on by what the first pairing code needs, even when it fails.\<close>

lemma start_daemon_state:
  assumes "start_daemon env opts (fs, w) = (r, fs', w')"
  shows "\<exists>sv. reaches sv 0 w w'"
    and "r = Inr d \<Longrightarrow> sr_pairing (da_server d) = Some (da_service d)"
proof -
  obtain t fs0 wa where a: "draw time_now (fs, w) = (t, fs0, wa)" by (metis prod.collapse)
  define hosts where "hosts = [if do_tailscale_ip opts = [] then detect_tailscale_ip env else do_tailscale_ip opts, hostname env]"
  obtain rm fsb wb where b: "ensure_material (en_certs env) (do_data_dir opts) (do_server_name opts) hosts (fs0, wa) = (rm, fsb, wb)"
    by (metis prod.collapse)
  obtain ri fsc wc where c: "ensure_identity (en_keys env) (do_data_dir opts) (fsb, wb) = (ri, fsc, wc)" by (metis prod.collapse)
  obtain rl wl where l: "store_load wc = (rl, wl)" by fastforce
  have st: "stored wb = stored w" "stored wc = stored w" "stored wl = stored w"
    using a b c state.load_frame [OF l] by (auto dest!: state_kept simp: stored_def)
  have "w' = wb \<or> w' = wc \<or> w' = wl \<or> (\<exists>sv rb. ensure_bootstrap sv (do_server_name opts) wl = (rb, w'))"
    using assms a b c l
    by (cases rm; cases ri; cases rl) (auto simp: start_daemon_def Let_def hosts_def on_store_def split: prod.splits sum.splits)
  then show "\<exists>sv. reaches sv 0 w w'"
    using st reaches_same reaches_after_same [OF st(3) reaches_bootstrap] by blast
  show "sr_pairing (da_server d) = Some (da_service d)" if "r = Inr d"
    using assms that by (auto simp: start_daemon_def Let_def new_server_def split: prod.splits sum.splits)
qed

section \<open>Processes over time\<close>

lemma runningD: "running h i = Some x \<Longrightarrow> ho_procs h i = Some x \<and> px_exit x = None"
  by (auto simp: running_def split: option.splits if_splits)

lemma host_puts [simp]:
  "ho_world (set_proc i x h) = ho_world h" "ho_paths (set_proc i x h) = ho_paths h"
  "ho_procs (set_proc i x h) = (ho_procs h)(i \<mapsto> x)"
  "ho_world (put_run i x s h) = ho_world h" "ho_paths (put_run i x s h) = snd s"
  "ho_procs (put_run i x s h) = (ho_procs h)(i \<mapsto> x\<lparr>px_run := fst s\<rparr>)"
  "ho_world (put_state i x st h) = st_world st"
  "ho_paths (put_state i x st h) = (ho_paths h)\<lparr>pa_files := st_files st\<rparr>"
  "ho_procs (put_state i x st h) = (ho_procs h)(i \<mapsto> x\<lparr>px_history := st_history st, px_limiter := st_limiter st\<rparr>)"
  by (simp_all add: set_proc_def put_run_def put_state_def)

lemma new_proc_simps [simp]: "px_daemon (new_proc d) = d" "px_run (new_proc d) = new_run" "px_exit (new_proc d) = None"
  "px_ended (new_proc d) = False"
  by (simp_all add: new_proc_def)

text \<open>Turns of \<open>Run\<close> alone are a run of the machine.\<close>

lemma running_put: "px_exit x = None \<Longrightarrow> running (put_run i x s h) i = Some (x\<lparr>px_run := fst s\<rparr>)"
  by (simp add: running_def)

lemma put_run_same: "running h i = Some x \<Longrightarrow> put_run i x (run_of h x) h = h"
  by (cases h) (auto simp: put_run_def set_proc_def fun_upd_idem dest!: runningD)

lemma put_run_twice: "put_run i (x\<lparr>px_run := r\<rparr>) s' (put_run i x s h) = put_run i x s' h"
  by (simp add: put_run_def set_proc_def)

lemma run_all_host:
  assumes "running h i = Some x" and "run_all umask i (proc_path x) (px_ended x) errs (run_of h x) = Some s"
  shows "host_run umask lone h (replicate (length errs) (RunTurn i)) (put_run i x s h)"
  using assms
proof (induction errs arbitrary: h x)
  case Nil
  then show ?case by (auto simp: put_run_same)
next
  case (Cons err errs)
  then obtain s1 where s1: "run_turn umask i (proc_path x) (px_ended x) err (run_of h x) = Some s1"
      "run_all umask i (proc_path x) (px_ended x) errs s1 = Some s"
    by (auto simp: bind_eq_Some_conv)
  let ?x = "x\<lparr>px_run := fst s1\<rparr>" and ?h = "put_run i x s1 h"
  have r1: "running ?h i = Some ?x" by (rule running_put) (use Cons.prems(1) in \<open>simp add: runningD\<close>)
  have same: "proc_path ?x = proc_path x" by (simp add: proc_path_def)
  have all: "run_all umask i (proc_path ?x) (px_ended ?x) errs (run_of ?h ?x) = Some s"
    unfolding same using s1(2) by simp
  have "host_run umask lone ?h (replicate (length errs) (RunTurn i)) (put_run i x s h)"
    using Cons.IH [OF r1 all] by (simp add: put_run_twice)
  from host_Cons [OF host_step.run_turns [OF Cons.prems(1) s1(1)] this] show ?case by simp
qed

text \<open>A process stays the daemon it began as.\<close>

lemma host_step_daemons:
  assumes "host_step umask lone h l h'"
  shows "\<forall>j x. ho_procs h j = Some x \<longrightarrow> (\<exists>x'. ho_procs h' j = Some x' \<and> px_daemon x' = px_daemon x)"
    and "l = Began j d \<Longrightarrow> \<exists>x'. ho_procs h' j = Some x' \<and> px_daemon x' = d"
    and "ho_procs h' j = Some x' \<Longrightarrow> (\<exists>x. ho_procs h j = Some x) \<or> l = Began j (px_daemon x')"
  using assms by (cases; auto dest!: runningD split: if_splits)+

lemma host_run_daemons:
  assumes "host_run umask lone h ls h'"
  shows "(\<forall>x. ho_procs h j = Some x \<longrightarrow> (\<exists>x'. ho_procs h' j = Some x' \<and> px_daemon x' = px_daemon x)) \<and>
    (\<forall>d. Began j d \<in> set ls \<longrightarrow> (\<exists>x'. ho_procs h' j = Some x' \<and> px_daemon x' = d))"
  using assms
proof (induction rule: host_run.induct)
  case (host_Cons h l h1 ls h2)
  show ?case
    using host_Cons.IH host_step_daemons(1) [OF host_Cons.hyps(1)] host_step_daemons(2) [OF host_Cons.hyps(1), of j]
    by (fastforce simp del: split_paired_All)
qed auto

definition wired :: "host \<Rightarrow> bool" where
  "wired h \<longleftrightarrow> (\<forall>i x. ho_procs h i = Some x \<longrightarrow> sr_pairing (da_server (px_daemon x)) = Some (da_service (px_daemon x)))"

lemma wired_running: "wired h \<Longrightarrow> running h i = Some x \<Longrightarrow> sr_pairing (da_server (px_daemon x)) = Some (da_service (px_daemon x))"
  by (auto simp: wired_def dest: runningD)

lemma host_step_wired:
  assumes "host_step umask lone h l h'" and "wired h"
  shows "wired h'"
  using assms by cases (auto simp: wired_def dest!: runningD start_daemon_state(2) split: if_splits)

text \<open>Every step leads the state file on like a run of the pairing service.\<close>

lemma host_step_reaches:
  assumes "host_step umask lone h l h'" and "wired h"
  shows "\<exists>sv n. reaches sv n (ho_world h) (ho_world h')"
  using assms(1)
proof cases
  case (answers i x c r sent reply st)
  then show ?thesis
    using daemon_step_reaches [OF wired_running [OF assms(2) answers(3)] answers(5)] by (auto simp: proc_state_def)
next
  case (replies i x q resp st)
  then show ?thesis
    using daemon_step_reaches [OF wired_running [OF assms(2) replies(3)] replies(5)] by (auto simp: proc_state_def)
next
  case (aside i x st)
  then show ?thesis
    using daemon_step_reaches [OF wired_running [OF assms(2) aside(3)] aside(4)] by (auto simp: proc_state_def)
qed (auto dest!: start_daemon_state(1))

section \<open>Clients over time\<close>

definition host_clients :: "host \<Rightarrow> string list" where
  "host_clients h = map cl_id (clients_of (full (ho_world h)))"

definition barred :: "string \<Rightarrow> host \<Rightarrow> bool" where
  "barred cid h \<longleftrightarrow> shut_out cid (full (ho_world h))"

lemma host_step_clients:
  assumes "host_step umask lone h l h'" and "wired h"
  obtains new where "host_clients h' = host_clients h @ new" and "\<And>cid. cid \<notin> set new \<Longrightarrow> barred cid h \<Longrightarrow> barred cid h'"
proof -
  obtain sv n where "reaches sv n (ho_world h) (ho_world h')" using host_step_reaches [OF assms] by blast
  then have "reaches sv n (st_world (new_api_state (pa_files (ho_paths h)) (ho_world h)))
      (st_world (new_api_state (pa_files (ho_paths h')) (ho_world h')))" by (simp add: new_api_state_def)
  from reaches_clients [OF this] that show thesis
    by (auto simp: host_clients_def barred_def client_ids_def locked_out_def new_api_state_def)
qed

lemma host_run_clients:
  assumes "host_run umask lone h ls h'" and "wired h"
  shows "wired h' \<and> (\<exists>new. host_clients h' = host_clients h @ new)"
  using assms
proof (induction rule: host_run.induct)
  case (host_Cons h l h1 ls h2)
  from host_Cons.IH [OF host_step_wired [OF host_Cons.hyps(1) host_Cons.prems]] show ?case
    using host_step_clients [OF host_Cons.hyps(1) host_Cons.prems] by (metis append_assoc)
qed simp

text \<open>A client that is barred is refused from then on.\<close>

lemma host_run_barred:
  assumes "host_run umask lone h ls h'" and "wired h"
    and "barred cid h" and "cid \<in> set (host_clients h)" and "distinct (host_clients h')"
    and "Replied j q resp \<in> set ls" and "(m, pat, scope) \<in> set access_policy" and "asks m pat q"
    and "ho_procs h' j = Some x" and "claims \<in> token_reading (da_service (px_daemon x)) (request_token q)"
    and "tc_sub claims = cid"
  shows "rs_status resp = 401"
  using assms
proof (induction rule: host_run.induct)
  case (host_Cons h l h1 ls h2)
  note wired1 = host_step_wired [OF host_Cons.hyps(1) host_Cons.prems(1)]
  obtain new where new: "host_clients h1 = host_clients h @ new" "cid \<notin> set new \<Longrightarrow> barred cid h1"
    using host_step_clients [OF host_Cons.hyps(1) host_Cons.prems(1)] host_Cons.prems(2) by metis
  obtain more where "host_clients h2 = host_clients h1 @ more" using host_run_clients [OF host_Cons.hyps(2) wired1] by blast
  then have "cid \<notin> set new" using host_Cons.prems(3,4) new(1) by auto
  then have h1: "barred cid h1" "cid \<in> set (host_clients h1)" using new host_Cons.prems(3) by auto
  show ?case
  proof (cases "l = Replied j q resp")
    case True
    obtain y st where y: "running h j = Some y"
        "daemon_step (da_server (px_daemon y)) (da_service (px_daemon y)) (proc_state h y) (Served q resp) st"
        "ho_procs h1 j = Some (y\<lparr>px_requests := remove1 q (px_requests y), px_history := st_history st, px_limiter := st_limiter st\<rparr>)"
      using host_Cons.hyps(1) [unfolded True] by (cases rule: replied_stepE) auto
    have "px_daemon y = px_daemon x"
      using host_run_daemons [OF host_Cons.hyps(2), of j] host_Cons.prems(8) y(3) by auto
    then have token: "claims \<in> token_reading (da_service (px_daemon y)) (request_token q)" using host_Cons.prems(9) by simp
    obtain env events where sv: "serve (da_server (px_daemon y)) env events q (proc_state h y) = (resp, st)"
      using y(2) by (blast elim: served_stepE)
    have "locked_out (tc_sub claims) (proc_state h y)"
      using host_Cons.prems(2,10) by (simp add: locked_out_def barred_def proc_state_def)
    from locked_out_refused [OF host_Cons.prems(6,7) wired_running [OF host_Cons.prems(1) y(1)] sv token this] show ?thesis .
  next
    case False
    then show ?thesis using host_Cons.IH [OF wired1 h1 host_Cons.prems(4)] host_Cons.prems(5-) by auto
  qed
qed simp

section \<open>Control sockets over time\<close>

lemma running_puts:
  "running (set_proc i x h) j = (if j = i then if px_exit x = None then Some x else None else running h j)"
  "running (put_run i x s h) j = (if j = i then if px_exit x = None then Some (x\<lparr>px_run := fst s\<rparr>) else None else running h j)"
  "running (put_state i x st h) j = (if j = i then if px_exit x = None
     then Some (x\<lparr>px_history := st_history st, px_limiter := st_limiter st\<rparr>) else None else running h j)"
  by (simp_all add: running_def)

lemma running_host_updates [simp]:
  "running (h\<lparr>ho_world := w\<rparr>) j = running h j" "running (h\<lparr>ho_paths := ps\<rparr>) j = running h j"
  by (simp_all add: running_def)

lemma proc_path_updates [simp]:
  "proc_path (x\<lparr>px_run := r\<rparr>) = proc_path x" "proc_path (x\<lparr>px_ended := e\<rparr>) = proc_path x"
  "proc_path (x\<lparr>px_serving := b\<rparr>) = proc_path x" "proc_path (x\<lparr>px_requests := qs\<rparr>) = proc_path x"
  "proc_path (x\<lparr>px_exit := code\<rparr>) = proc_path x" "proc_path (x\<lparr>px_history := hi\<rparr>) = proc_path x" "proc_path (x\<lparr>px_limiter := li\<rparr>) = proc_path x"
  by (simp_all add: proc_path_def)

text \<open>When daemons run one at a time, the one that runs has its path to itself.\<close>

definition alone :: "file_mode \<Rightarrow> host \<Rightarrow> bool" where
  "alone umask h \<longleftrightarrow>
     (\<forall>i j. running h i \<noteq> None \<longrightarrow> running h j \<noteq> None \<longrightarrow> i = j) \<and>
     (\<forall>i x. running h i = Some x \<longrightarrow> held umask i (proc_path x) (px_run x) (ho_paths h))"

lemma alone_none: "(\<And>j. running h j = None) \<Longrightarrow> alone umask h"
  by (simp add: alone_def)

lemma alone_one:
  assumes "alone umask h" and "running h i = Some x" and "\<And>j. j \<noteq> i \<Longrightarrow> running h' j = running h j"
    and "\<And>x'. running h' i = Some x' \<Longrightarrow> held umask i (proc_path x) (px_run x) (ho_paths h) \<Longrightarrow>
      held umask i (proc_path x') (px_run x') (ho_paths h')"
  shows "alone umask h'"
proof -
  have only: "running h j = None" if "j \<noteq> i" for j
    using conjunct1 [OF assms(1) [unfolded alone_def], THEN spec, THEN spec, of j i] assms(2) that by simp
  have other: "running h' j = None" if "j \<noteq> i" for j using assms(3) [OF that] only [OF that] by simp
  have base: "held umask i (proc_path x) (px_run x) (ho_paths h)"
    using conjunct2 [OF assms(1) [unfolded alone_def], THEN spec, THEN spec, of i x] assms(2) by simp
  show ?thesis unfolding alone_def
  proof (intro conjI allI impI)
    fix j k assume "running h' j \<noteq> None" "running h' k \<noteq> None"
    then show "j = k" using other [of j] other [of k] by (cases "j = i"; cases "k = i") simp_all
  next
    fix j y assume y: "running h' j = Some y"
    then have "j = i" using other [of j] by (cases "j = i") simp_all
    then show "held umask j (proc_path y) (px_run y) (ho_paths h')" using assms(4) [OF _ base, of y] y by simp
  qed
qed

lemma alone_set:
  assumes "alone umask h" and "running h i = Some x" and "proc_path x' = proc_path x" and "px_run x' = px_run x"
  shows "alone umask (set_proc i x' h)"
  by (rule alone_one [OF assms(1,2)]) (use assms(3,4) in \<open>auto simp: running_puts split: if_splits\<close>)

lemma host_step_alone:
  assumes "host_step umask True h l h'" and "alone umask h"
  shows "alone umask h'"
  using assms(1)
proof cases
  case (refused env opts err fs w)
  then show ?thesis by (intro alone_none) simp
next
  case (began i env opts d fs w)
  then show ?thesis by (auto simp: alone_def running_puts held_new split: if_splits)
next
  case (run_turns i x err s)
  show ?thesis
    by (rule alone_one [OF assms(2) run_turns(3)]) (use run_turns run_turn_held [of umask i _ _ _ _ _ "fst s" "snd s"] in \<open>auto simp: running_puts runningD\<close>)
next
  case (watch_turns i x err s)
  show ?thesis
    by (rule alone_one [OF assms(2) watch_turns(3)])
      (use watch_turns watch_turn_held [of _ _ _ _ _ "fst s" "snd s"] in \<open>auto simp: running_puts runningD\<close>)
next
  case (dials i x c s)
  show ?thesis
    by (rule alone_one [OF assms(2) dials(3)]) (use dials dial_held [of i "proc_path x" c "px_run x" "ho_paths h" "fst s" "snd s"] in \<open>auto simp: running_puts runningD\<close>)
next
  case (answers i x c r sent reply st)
  show ?thesis
    by (rule alone_one [OF assms(2) answers(3)])
      (use answers(2,3,4) in \<open>auto simp: running_puts runningD hang_up_def split: if_splits\<close>)
next
  case (replies i x q resp st)
  show ?thesis
    by (rule alone_one [OF assms(2) replies(3)]) (use replies(2,3) in \<open>auto simp: running_puts runningD\<close>)
next
  case (aside i x st)
  show ?thesis
    by (rule alone_one [OF assms(2) aside(3)]) (use aside(2,3) in \<open>auto simp: running_puts runningD\<close>)
qed (auto intro: alone_set [OF assms(2)])

text \<open>When new files are made without write permission for others, nobody else ever gets in.\<close>

definition owners_only :: "host \<Rightarrow> bool" where
  "owners_only h \<longleftrightarrow> tight (dom (ho_procs h)) (ho_paths h) \<and> (\<forall>i x. ho_procs h i = Some x \<longrightarrow> owners (px_run x))"

lemma owners_only_set:
  assumes "owners_only h" and "ho_procs h i = Some x" and "owners (px_run x')"
  shows "owners_only (set_proc i x' h)"
  using assms by (auto simp: owners_only_def insert_absorb domI)

lemma owners_only_run:
  assumes "owners_only h" and "ho_procs h i = Some x" and "tight (dom (ho_procs h)) (snd s)" and "owners (fst s)"
  shows "owners_only (put_run i x s h)"
  using assms by (auto simp: owners_only_def insert_absorb domI)

lemma owners_only_state:
  assumes "owners_only h" and "ho_procs h i = Some x" and "owners (px_run x')"
  shows "owners_only (put_state i x' st h)"
  using assms by (auto simp: owners_only_def insert_absorb domI)

lemma host_step_owners:
  assumes "host_step umask lone h l h'" and "and umask 0x12 = 0x12" and "owners_only h"
  shows "owners_only h'"
proof -
  have tight: "tight (dom (ho_procs h)) (ho_paths h)" using assms(3) by (simp add: owners_only_def)
  have at: "ho_procs h i = Some x \<and> owners (px_run x)" if "running h i = Some x" for i x
    using assms(3) runningD [OF that] by (auto simp: owners_only_def)
  from assms(1) show ?thesis
  proof cases
    case (began i env opts d fs w)
    have "tight (insert i (dom (ho_procs h))) (ho_paths h)" using tight began(5) by (auto simp: tight_def)
    then show ?thesis using assms(3) began(2) owners_new by (auto simp: owners_only_def)
  next
    case (run_turns i x err s)
    then show ?thesis
      using owners_only_run [OF assms(3), of i x s] at [OF run_turns(3)] tight
        run_turn_tight [of umask i _ _ _ _ _ "fst s" "snd s", OF _ assms(2)] by simp
  next
    case (watch_turns i x err s)
    then show ?thesis
      using owners_only_run [OF assms(3), of i x s] at [OF watch_turns(3)] tight
        watch_turn_tight [of _ _ _ _ _ "fst s" "snd s"] by simp
  next
    case (dials i x c s)
    then show ?thesis
      using owners_only_run [OF assms(3), of i x s] at [OF dials(3)] tight
        dial_tight [of i "proc_path x" c "px_run x" "ho_paths h" "fst s" "snd s" "dom (ho_procs h)"] by (simp add: domI)
  next
    case (answers i x c r sent reply st)
    then show ?thesis
      using owners_only_state [OF assms(3), of i x] at [OF answers(3)] hang_up_owners [OF answers(4)] by simp
  next
    case (replies i x q resp st)
    then show ?thesis using owners_only_state [OF assms(3), of i x] at [OF replies(3)] by simp
  next
    case (aside i x st)
    then show ?thesis using owners_only_state [OF assms(3), of i x] at [OF aside(3)] by simp
  next
    case (refused env opts err fs w)
    then show ?thesis using assms(3) by (simp add: owners_only_def)
  qed (use owners_only_set [OF assms(3)] at in simp_all)
qed

lemma host_run_owners:
  assumes "host_run umask lone h ls h'" and "and umask 0x12 = 0x12" and "owners_only h" and "Answered i c sent reply \<in> set ls"
  shows "snd c = Owner"
  using assms
proof (induction rule: host_run.induct)
  case (host_Cons h l h1 ls h2)
  show ?case
  proof (cases "l = Answered i c sent reply")
    case True
    obtain x r where x: "running h i = Some x" "hang_up c (px_run x) = Some r"
      using host_Cons.hyps(1) [unfolded True] by (cases rule: answered_stepE)
    have "owners (px_run x)" using host_Cons.prems(2) runningD [OF x(1)] by (auto simp: owners_only_def)
    then show ?thesis using hang_up_owners [OF x(2)] by simp
  next
    case False
    then show ?thesis
      using host_Cons.IH [OF host_Cons.prems(1) host_step_owners [OF host_Cons.hyps(1) host_Cons.prems(1,2)]] host_Cons.prems(3) by auto
  qed
qed simp

lemma host_run_alone:
  assumes "host_run umask lone h ls h'" and "lone" and "alone umask h"
  shows "alone umask h'"
  using assms by (induction rule: host_run.induct) (auto dest: host_step_alone)

section \<open>What a shutdown leaves\<close>

text \<open>
  \<open>Shutdown\<close> waits for the requests in flight, but \<open>main\<close> does not wait for \<open>Shutdown\<close>: it may
  return at once, with status 0, and the requests are dropped and the socket file stays. The next
  daemon clears the path (\<open>owner_is_heard\<close>).
\<close>

lemma shutdown_drops_requests:
  assumes "running h i = Some x"
  obtains h' x' where "host_run umask lone h [Signalled i, ShutDown i, Exited i 0] h'" "ho_procs h' i = Some x'"
    "px_exit x' = Some 0" "px_requests x' = px_requests x" "ho_paths h' = ho_paths h"
proof -
  let ?x1 = "x\<lparr>px_ended := True\<rparr>" let ?h1 = "set_proc i ?x1 h"
  let ?x2 = "?x1\<lparr>px_serving := False\<rparr>" let ?h2 = "set_proc i ?x2 ?h1"
  let ?x3 = "?x2\<lparr>px_exit := Some 0\<rparr>" let ?h3 = "set_proc i ?x3 ?h2"
  have r1: "running ?h1 i = Some ?x1" and r2: "running ?h2 i = Some ?x2"
    using runningD [OF assms] by (simp_all add: running_puts)
  have "host_run umask lone h [Signalled i, ShutDown i, Exited i 0] ?h3"
    using host_Cons [OF host_step.signalled [OF assms] host_Cons [OF host_step.shut_down [OF r1]
      host_Cons [OF host_step.returned [OF r2] host_Nil]]] by simp
  then show thesis by (rule that [where x' = ?x3]) simp_all
qed

text \<open>With daemons side by side on one path, the one that stops takes the path from the other.\<close>

lemma stopping_takes_path:
  assumes "running h i = Some x" and "cx_open (px_run x)" and "cx_watched (px_run x)" and "px_ended x"
  obtains h' where "host_step umask lone h (WatchTurn i) h'" "pa_sockets (ho_paths h') (proc_path x) = None"
    "\<And>j. j \<noteq> i \<Longrightarrow> running h' j = running h j"
proof -
  let ?s = "close_listener (proc_path x) None (px_run x\<lparr>cx_watched := False\<rparr>, ho_paths h)"
  have "watch_turn (proc_path x) (px_ended x) None (run_of h x) = Some ?s"
    using assms(3,4) by (simp add: watch_turn_def)
  from host_step.watch_turns [OF assms(1) this] show thesis
    by (rule that) (use assms(2) in \<open>simp_all add: close_listener_def try_remove_def remove_path_def running_puts\<close>)
qed

text \<open>A connection that sends nothing keeps \<open>Run\<close> from returning.\<close>

lemma silent_caller_blocks: "cx_at r = AtWait \<Longrightarrow> cx_conns r \<noteq> [] \<Longrightarrow> run_turn umask i p ended err (r, ps) = None"
  by (simp add: run_turn_def)

section \<open>Properties\<close>

text \<open>
  C3. A revocation outlives the daemons: once any control socket on the machine has answered one
  with ok, every later request to a protected call whose token reads as one of that client is
  answered 401, by that daemon and by every one started later, whichever of them return, fail or are
  killed in between, provided the random client ids in the state file are distinct at the end.
  Daemons may run side by side here as long as their operations on the state file do not overlap,
  which their locks do not prevent; with \<open>lone\<close> that cannot arise.
\<close>

theorem revocation_outlives_daemons:
  assumes "host_run umask lone h (before @ Answered i c sent reply # after) h'" and "ho_procs h = Map.empty"
    and "ctl_request_of sent = Some req" and "trim_space (cr_cmd req) = ''revoke_client''"
    and "reply = write_response (JObj [(''ok'', JBool True)])" and "distinct (host_clients h')"
    and "Replied j q resp \<in> set after" and "(m, pat, scope) \<in> set access_policy" and "asks m pat q"
    and "Began j d \<in> set (before @ after)" and "claims \<in> token_reading (da_service d) (request_token q)"
    and "tc_sub claims = trim_space (cr_client_id req)"
  shows "rs_status resp = 401"
proof -
  obtain m1 m2 where run: "host_run umask lone h before m1" "host_step umask lone m1 (Answered i c sent reply) m2"
      "host_run umask lone m2 after h'"
    using host_run_append [OF assms(1)] by (blast elim: host_run_ConsE)
  have wired0: "wired h" using assms(2) by (simp add: wired_def)
  have wired1: "wired m1" using host_run_clients [OF run(1) wired0] by blast
  have wired2: "wired m2" using host_step_wired [OF run(2) wired1] .
  obtain x st where x: "running m1 i = Some x" "ho_world m2 = st_world st"
      "daemon_step (da_server (px_daemon x)) (da_service (px_daemon x)) (proc_state m1 x) (Controlled sent reply) st"
    using run(2) by (cases rule: answered_stepE) auto
  obtain new more where ids: "host_clients m2 = host_clients m1 @ new" "host_clients h' = host_clients m2 @ more"
    using host_step_clients [OF run(2) wired1] host_run_clients [OF run(3) wired2] by metis
  then have "distinct (client_ids (proc_state m1 x))"
    using assms(6) by (simp add: host_clients_def client_ids_def proc_state_def)
  from controlled_revocation [OF x(3) assms(3-5) this]
  have m2: "barred (trim_space (cr_client_id req)) m2" "trim_space (cr_client_id req) \<in> set (host_clients m2)"
    by (simp_all add: barred_def locked_out_def host_clients_def client_ids_def x(2))
  obtain y where y: "ho_procs h' j = Some y" "px_daemon y = d"
    using host_run_daemons [OF assms(1), of j] assms(10) by auto
  from host_run_barred [OF run(3) wired2 m2 assms(6-9) y(1) _ assms(12)] y(2) assms(11)
  show ?thesis by simp
qed

text \<open>Two clients; one is revoked, its daemon killed, and another started.\<close>

definition two_clients :: config where
  "two_clients = zero_config\<lparr>cfg_clients :=
     [(hd (cfg_clients one_client))\<lparr>cl_id := ''c_1''\<rparr>, (hd (cfg_clients one_client))\<lparr>cl_id := ''c_2''\<rparr>]\<rparr>"

definition bare_host :: host where
  "bare_host = \<lparr>ho_world = holding two_clients, ho_paths = \<lparr>pa_files = kept_files, pa_sockets = Map.empty\<rparr>, ho_procs = Map.empty\<rparr>"

lemma two_clients_facts [simp]:
  "marshalable two_clients" "map cl_id (cfg_clients two_clients) = [''c_1'', ''c_2'']"
  "\<exists>x \<in> set (cfg_clients two_clients). \<not> cl_revoked x"
  by (simp_all add: two_clients_def one_client_def marshalable_def zero_config_def zero_client_def)

lemma start_daemon_socket:
  assumes "start_daemon env opts fw = (Inr d, fw')"
  shows "da_socket d = (if do_socket opts = [] then path_join [do_data_dir opts, ''chatbubbles.sock''] else do_socket opts)"
  using assms by (auto simp: start_daemon_def Let_def split: prod.splits sum.splits)

lemma bare_socket_path: "path_join [''/data'', ''chatbubbles.sock''] = ''/data/chatbubbles.sock''"
  by code_simp

lemma kept_files_socket: "kept_files ''/data/chatbubbles.sock'' = None"
  by (simp add: kept_files_def)

lemma bare_start:
  assumes "no_faults w" and "stored w = Some c" and "marshalable c" and "\<exists>x \<in> set (cfg_clients c). \<not> cl_revoked x"
  obtains d w' c' where "start_daemon bare_env (bare_options ''mac'') (kept_files, w) = (Inr d, kept_files, w')"
    "da_service d = demo_service" "da_socket d = ''/data/chatbubbles.sock''" "no_faults w'" "stored w' = Some c'"
    "marshalable c'" "cfg_clients c' = cfg_clients c"
proof -
  obtain d w' c' where d: "start_daemon bare_env (bare_options ''mac'') (kept_files, w) = (Inr d, kept_files, w')"
    "da_service d = new_service (en_scheme bare_env \<lparr>id_private = ''private'', id_public = ''public''\<rparr>)"
    "no_faults w'" "stored w' = Some c'" "marshalable c'" "cfg_clients c' = cfg_clients c"
    using start_daemon_found [OF kept_files_hold assms] by blast
  have "da_service d = demo_service" using d(2) by (simp add: bare_env_def demo_service_def)
  moreover have "da_socket d = ''/data/chatbubbles.sock''"
    using start_daemon_socket [OF d(1)] by (simp add: bare_options_def bare_socket_path)
  ultimately show thesis using that d by blast
qed

text \<open>The revocation of the first client, in any healthy world that holds the two.\<close>

lemma two_clients_revoked:
  assumes "no_faults w" and "stored w = Some c" and "marshalable c" and "cfg_clients c = cfg_clients two_clients"
  obtains w' c' where "revoke_client demo_service ''c_1'' w = (Inr True, w')" "no_faults w'" "stored w' = Some c'"
    "marshalable c'" "\<exists>x \<in> set (cfg_clients c'). \<not> cl_revoked x" "map cl_id (cfg_clients c') = [''c_1'', ''c_2'']"
proof -
  let ?c = "c\<lparr>cfg_clients := (cfg_clients c)[0 := (cfg_clients c ! 0)\<lparr>cl_revoked := True\<rparr>]\<rparr>"
  have f: "revoke_fn ''c_1'' c (w_eff w) = (Inr (?c, True), w_eff w)"
    using assms(4) by (simp add: revoke_fn_def two_clients_def)
  have t: "trim_space ''c_1'' = ''c_1''" by code_simp
  have m: "marshalable ?c"
    using assms(3,4) by (simp add: two_clients_def one_client_def marshalable_def)
  obtain w' where u: "store_update (revoke_fn ''c_1'') w = (Inr (?c, True), w')" "no_faults w'"
    using state.update_healthy [where fn = "revoke_fn ''c_1''", OF assms(1,2) f m] by blast
  have "stored w' = Some ?c" using state.update_commit [OF u(1)] by simp
  moreover have "revoke_client demo_service ''c_1'' w = (Inr True, w')" using u by (simp add: revoke_client_def t)
  ultimately show thesis
    using that [of w' ?c] u(2) m assms(4) by (simp add: two_clients_def one_client_def zero_client_def)
qed

text \<open>With healthy calls a daemon comes to hold a connection of its owner.\<close>

lemma owner_is_heard:
  assumes "running h i = Some x" and "px_run x = new_run"
  obtains h' r r' where "host_run umask lone h (replicate 4 (RunTurn i) @ [Dialled i (n, Owner), RunTurn i]) h'"
    "ho_world h' = ho_world h" "ho_paths h' = opened i (proc_path x) (ho_paths h)"
    "ho_procs h' = (ho_procs h)(i \<mapsto> x\<lparr>px_run := r\<rparr>)" "hang_up (n, Owner) r = Some r'" "cx_at r = AtAccept" "cx_open r"
proof -
  let ?p = "proc_path x" and ?ps = "opened i (proc_path x) (ho_paths h)"
  let ?r = "new_run\<lparr>cx_at := AtAccept, cx_open := True, cx_watched := True\<rparr>"
  let ?h1 = "put_run i x (?r, ?ps) h" and ?x1 = "x\<lparr>px_run := ?r\<rparr>"
  let ?h2 = "put_run i ?x1 (?r\<lparr>cx_backlog := [(n, Owner)]\<rparr>, ?ps) ?h1" and ?x2 = "x\<lparr>px_run := ?r\<lparr>cx_backlog := [(n, Owner)]\<rparr>\<rparr>"
  let ?r3 = "?r\<lparr>cx_conns := [(n, Owner)]\<rparr>"
  let ?h3 = "put_run i ?x2 (?r3, ?ps) ?h2"
  have len: "length [None :: string option, None, None, None] = 4" by simp
  have one: "host_run umask lone h (replicate 4 (RunTurn i)) ?h1"
    using run_all_host [OF assms(1), of umask "[None, None, None, None]" "(?r, ?ps)" lone]
    by (simp only: assms(2) run_opens len)
  have x1: "running ?h1 i = Some ?x1" using running_put [of x i "(?r, ?ps)" h] runningD [OF assms(1)] by simp
  have "dial i (proc_path ?x1) (n, Owner) (run_of ?h1 ?x1) = Some (?r\<lparr>cx_backlog := [(n, Owner)]\<rparr>, ?ps)"
    by (simp add: dial_def proc_path_def opened_def owner_connects new_run_def)
  note two = host_step.dials [OF x1 this, of umask lone]
  have x2: "running ?h2 i = Some ?x2"
    using running_put [of ?x1 i "(?r\<lparr>cx_backlog := [(n, Owner)]\<rparr>, ?ps)" ?h1] runningD [OF assms(1)] by simp
  have "run_turn umask i (proc_path ?x2) (px_ended ?x2) None (run_of ?h2 ?x2) = Some (?r3, ?ps)"
    by (simp add: run_turn_def new_run_def)
  note three = host_step.run_turns [OF x2 this, of lone]
  have "host_run umask lone h (replicate 4 (RunTurn i) @ [Dialled i (n, Owner), RunTurn i]) ?h3"
    using host_run_trans [OF one host_Cons [OF two host_Cons [OF three host_Nil]]] .
  then show thesis by (rule that [where r = ?r3]) (simp_all add: hang_up_def)
qed

lemma bare_reply:
  assumes "da_service d = demo_service" and "sr_pairing (da_server d) = Some demo_service"
  obtains resp st' where "daemon_step (da_server d) (da_service d) st (Served their_request resp) st'"
    "client_ids st' = client_ids st"
proof -
  obtain resp st' where "serve (da_server d) demo_env no_stream their_request st = (resp, st')" by fastforce
  note step = serve_request [where sv = demo_service, OF this]
  have "\<not> joined (Served their_request resp)"
    by (auto simp: joins_by_def joining_def asks_def their_request_def demo_request_def)
  then have "reaches demo_service 0 (st_world st) (st_world st')"
    using daemon_step_reaches [OF assms(2) step] by (simp only: if_False)
  from reaches_clients [OF this] have "client_ids st' = client_ids st" by auto
  with step that show thesis by (simp add: assms(1))
qed

lemma client_ids_simps:
  "host_clients h = (case stored (ho_world h) of None \<Rightarrow> [] | Some c \<Rightarrow> map cl_id (cfg_clients c))"
  "client_ids st = (case stored (st_world st) of None \<Rightarrow> [] | Some c \<Rightarrow> map cl_id (cfg_clients c))"
  by (simp_all add: host_clients_def client_ids_def clients_of_def split: option.split)

text \<open>The first daemon starts, opens its socket and takes a connection.\<close>

lemma bare_opening:
  obtains d1 c1 h2 r r' where "host_run 0x12 True bare_host (Began 1 d1 # replicate 4 (RunTurn 1) @ [Dialled 1 (7, Owner), RunTurn 1]) h2"
    "da_service d1 = demo_service" "no_faults (ho_world h2)" "stored (ho_world h2) = Some c1" "marshalable c1"
    "cfg_clients c1 = cfg_clients two_clients"
    "ho_paths h2 = opened 1 ''/data/chatbubbles.sock'' \<lparr>pa_files = kept_files, pa_sockets = Map.empty\<rparr>"
    "ho_procs h2 = [1 \<mapsto> (new_proc d1)\<lparr>px_run := r\<rparr>]" "hang_up (7, Owner) r = Some r'" "cx_at r = AtAccept" "cx_open r"
proof -
  have none: "running bare_host j = None" for j by (simp add: running_def bare_host_def)
  obtain d1 w1 c1 where d1: "start_daemon bare_env (bare_options ''mac'') (kept_files, holding two_clients) = (Inr d1, kept_files, w1)"
    "da_service d1 = demo_service" "da_socket d1 = ''/data/chatbubbles.sock''" "no_faults w1" "stored w1 = Some c1"
    "marshalable c1" "cfg_clients c1 = cfg_clients two_clients"
    using bare_start [of "holding two_clients" two_clients] by auto
  define h1 where "h1 = set_proc 1 (new_proc d1) (bare_host\<lparr>ho_world := w1\<rparr>)"
  have s1: "host_step 0x12 True bare_host (Began 1 d1) h1"
    using host_step.began [where h = bare_host and i = 1 and lone = True and umask = "0x12" and env = bare_env and
        opts = "bare_options ''mac''" and d = d1 and fs = kept_files and w = w1] d1(1) none
    by (simp add: h1_def bare_host_def set_proc_def)
  have x1: "running h1 1 = Some (new_proc d1)" by (simp add: running_def h1_def)
  obtain h2 r r' where h2: "host_run 0x12 True h1 (replicate 4 (RunTurn 1) @ [Dialled 1 (7, Owner), RunTurn 1]) h2"
    "ho_world h2 = w1" "ho_paths h2 = opened 1 ''/data/chatbubbles.sock'' \<lparr>pa_files = kept_files, pa_sockets = Map.empty\<rparr>"
    "ho_procs h2 = [1 \<mapsto> (new_proc d1)\<lparr>px_run := r\<rparr>]" "hang_up (7, Owner) r = Some r'" "cx_at r = AtAccept" "cx_open r"
    using owner_is_heard [OF x1, of "0x12" True 7] d1(3) by (auto simp: h1_def bare_host_def proc_path_def)
  show thesis
    by (rule that [OF host_Cons [OF s1 h2(1), unfolded append_Cons] d1(2) _ _ d1(6,7) h2(3-7)]) (use d1(4,5) h2(2) in simp_all)
qed

theorem revocation_outlives_daemons_witness:
  "\<exists>d1 d2 reply resp h'. host_run 0x12 True bare_host
     ((Began 1 d1 # replicate 4 (RunTurn 1) @ [Dialled 1 (7, Owner), RunTurn 1]) @ Answered 1 (7, Owner) revoke_line reply #
      [Exited 1 137, Began 2 d2, Arrived 2 their_request, Replied 2 their_request resp]) h' \<and> rs_status resp = 401"
proof -
  obtain d1 c1 h2 r r' where h2: "host_run 0x12 True bare_host (Began 1 d1 # replicate 4 (RunTurn 1) @ [Dialled 1 (7, Owner), RunTurn 1]) h2"
    "da_service d1 = demo_service" "no_faults (ho_world h2)" "stored (ho_world h2) = Some c1" "marshalable c1"
    "cfg_clients c1 = cfg_clients two_clients"
    "ho_paths h2 = opened 1 ''/data/chatbubbles.sock'' \<lparr>pa_files = kept_files, pa_sockets = Map.empty\<rparr>"
    "ho_procs h2 = [1 \<mapsto> (new_proc d1)\<lparr>px_run := r\<rparr>]" "hang_up (7, Owner) r = Some r'"
    using bare_opening .
  obtain w2 c2 where w2: "revoke_client demo_service ''c_1'' (ho_world h2) = (Inr True, w2)" "no_faults w2" "stored w2 = Some c2"
    "marshalable c2" "\<exists>x \<in> set (cfg_clients c2). \<not> cl_revoked x" "map cl_id (cfg_clients c2) = [''c_1'', ''c_2'']"
    using two_clients_revoked [OF h2(3-6)] .
  let ?ok = "write_response (JObj [(''ok'', JBool True)])" and ?x2 = "(new_proc d1)\<lparr>px_run := r\<rparr>"
  have "handle_conn (generate_pairing_code demo_service) (list_clients demo_service) (revoke_client demo_service)
      (daemon_status (da_server d1) demo_service (ce_exec demo_env) [] []) revoke_line (st_world (proc_state h2 ?x2)) = (?ok, w2)"
    using w2(1) by (simp add: handle_conn_def revoke_line_request proc_state_def Let_def)
  note answer = control [where s = "da_server d1", OF this]
  have x2: "running h2 1 = Some ?x2" by (simp add: running_def h2(8))
  define h3 where "h3 = put_state 1 (?x2\<lparr>px_run := r'\<rparr>) ((proc_state h2 ?x2)\<lparr>st_world := w2\<rparr>) h2"
  have s3: "host_step 0x12 True h2 (Answered 1 (7, Owner) revoke_line ?ok) h3"
    unfolding h3_def
    by (rule host_step.answers [OF x2]) (use h2(9) answer h2(2) in simp_all)
  have h3: "ho_world h3 = w2" "pa_files (ho_paths h3) = kept_files"
    "ho_procs h3 = [1 \<mapsto> ?x2\<lparr>px_run := r'\<rparr>]"
    using h2(7,8) by (simp_all add: h3_def proc_state_def opened_def kept_files_socket fun_upd_idem)
  have socks: "sk_run k = 1" if "pa_sockets (ho_paths h3) p = Some k" for p k
    using that h2(7) by (auto simp: h3_def opened_def split: if_splits)
  have y: "running h3 1 = Some (?x2\<lparr>px_run := r'\<rparr>)" by (simp add: running_def h3(3))
  define h4 where "h4 = set_proc 1 (?x2\<lparr>px_run := r', px_exit := Some 137\<rparr>) h3"
  note s4 = host_step.killed [OF y, of "0x12" True]
  obtain d2 w5 c5 where d2: "start_daemon bare_env (bare_options ''mac'') (kept_files, w2) = (Inr d2, kept_files, w5)"
    "da_service d2 = demo_service" "stored w5 = Some c5" "cfg_clients c5 = cfg_clients c2"
    using bare_start [OF w2(2-5)] by blast
  define h5 where "h5 = set_proc 2 (new_proc d2) (h4\<lparr>ho_world := w5, ho_paths := (ho_paths h4)\<lparr>pa_files := kept_files\<rparr>\<rparr>)"
  have none4: "running h4 j = None" for j by (simp add: running_def h4_def h3(3))
  have s5: "host_step 0x12 True h4 (Began 2 d2) h5"
    unfolding h5_def
    by (rule host_step.began [where env = bare_env and opts = "bare_options ''mac''"])
      (use d2(1) none4 h3 socks in \<open>auto simp: h4_def\<close>)
  have x5: "running h5 2 = Some (new_proc d2)" by (simp add: running_def h5_def)
  let ?x6 = "(new_proc d2)\<lparr>px_requests := [their_request]\<rparr>"
  define h6 where "h6 = set_proc 2 ?x6 h5"
  have s6: "host_step 0x12 True h5 (Arrived 2 their_request) h6"
    using host_step.arrives [OF x5, of "0x12" True their_request] by (simp add: h6_def new_proc_def)
  have x6: "running h6 2 = Some ?x6" by (simp add: running_def h6_def)
  have "sr_pairing (da_server d2) = Some demo_service" using start_daemon_state(2) [OF d2(1)] d2(2) by auto
  from bare_reply [OF d2(2) this] obtain resp st7 where
    "daemon_step (da_server d2) (da_service d2) (proc_state h6 ?x6) (Served their_request resp) st7"
    "client_ids st7 = client_ids (proc_state h6 ?x6)" by blast
  then obtain h7 where h7: "host_step 0x12 True h6 (Replied 2 their_request resp) h7" "ho_world h7 = st_world st7"
    "client_ids st7 = client_ids (proc_state h6 ?x6)"
    using host_step.replies [OF x6, of their_request resp st7 "0x12" True] by auto
  have run: "host_run 0x12 True bare_host
     ((Began 1 d1 # replicate 4 (RunTurn 1) @ [Dialled 1 (7, Owner), RunTurn 1]) @ Answered 1 (7, Owner) revoke_line ?ok #
      [Exited 1 137, Began 2 d2, Arrived 2 their_request, Replied 2 their_request resp]) h7"
    using host_run_trans [OF h2(1) host_Cons [OF s3 host_Cons [OF s4 [folded h4_def]
      host_Cons [OF s5 host_Cons [OF s6 host_Cons [OF h7(1) host_Nil]]]]]] by simp
  have "ho_world h6 = w5" by (simp add: h6_def h5_def)
  then have ids: "distinct (host_clients h7)"
    using h7(2,3) d2(3,4) w2(6) by (simp add: client_ids_simps proc_state_def)
  have pol: "(''GET'', [Some ''v1'', Some ''events''], ''read'') \<in> set access_policy" by (simp add: access_policy_def)
  have claims: "their_claims \<in> token_reading (da_service d2) (request_token their_request)"
    using their_request_facts(2) d2(2) by simp
  have "rs_status resp = 401"
    using revocation_outlives_daemons [OF run _ revoke_line_request(1) _ refl ids _ pol their_request_facts(1) _ claims]
      revoke_line_request(2,3) by (simp add: bare_host_def their_claims_def)
  with run show ?thesis by blast
qed

text \<open>
  C8. The control socket is its owner's: while daemons run one at a time, whatever calls fail and
  however they end, a daemon that accepts connections does so on its own socket file at its own
  path, with mode 0600; and, when the umask takes write permission from others, no stranger's
  request is ever answered.
\<close>

theorem control_socket_private:
  assumes "host_run umask True h ls h'" and "ho_procs h = Map.empty"
  shows "(running h' i = Some x \<and> cx_open (px_run x) \<and> cx_at (px_run x) \<in> {AtAccept, AtWait} \<longrightarrow>
      pa_sockets (ho_paths h') (proc_path x) = Some \<lparr>sk_run = i, sk_mode = 0x180\<rparr>) \<and>
    (and umask 0x12 = 0x12 \<and> Answered j c sent reply \<in> set ls \<longrightarrow> snd c = Owner)"
proof -
  have "alone umask h" by (rule alone_none) (simp add: running_def assms(2))
  then have alone: "alone umask h'" using host_run_alone [OF assms(1)] by simp
  have "held umask i (proc_path x) (px_run x) (ho_paths h')" if "running h' i = Some x"
    using conjunct2 [OF alone [unfolded alone_def], THEN spec, THEN spec, of i x] that by simp
  moreover have "owners_only h" by (simp add: owners_only_def assms(2) tight_def)
  ultimately show ?thesis
    using host_run_owners [OF assms(1), of j c sent reply] by (auto simp: held_def)
qed

theorem control_socket_private_witness:
  "\<exists>ls h' x. host_run 0x12 True bare_host ls h' \<and> running h' 1 = Some x \<and>
     pa_sockets (ho_paths h') (proc_path x) = Some \<lparr>sk_run = 1, sk_mode = 0x180\<rparr>"
proof -
  obtain d1 c1 h2 r r' where h2: "host_run 0x12 True bare_host (Began 1 d1 # replicate 4 (RunTurn 1) @ [Dialled 1 (7, Owner), RunTurn 1]) h2"
    "ho_procs h2 = [1 \<mapsto> (new_proc d1)\<lparr>px_run := r\<rparr>]" "cx_at r = AtAccept" "cx_open r"
    using bare_opening .
  have x: "running h2 1 = Some ((new_proc d1)\<lparr>px_run := r\<rparr>)" by (simp add: running_def h2(2))
  have "ho_procs bare_host = Map.empty" by (simp add: bare_host_def)
  from control_socket_private [OF h2(1) this, of 1 "(new_proc d1)\<lparr>px_run := r\<rparr>"] x h2(3,4)
  have "pa_sockets (ho_paths h2) (proc_path ((new_proc d1)\<lparr>px_run := r\<rparr>)) = Some \<lparr>sk_run = 1, sk_mode = 0x180\<rparr>" by simp
  with h2(1) x show ?thesis by blast
qed

end
