(* ===== verification/EventStream.thy ===== *)
theory EventStream
  imports EventHub Imsg
begin

text \<open>
  The event stream (\<open>internal/api/ws.go\<close>): the handler subscribes to the hub and then, in a loop of
  one \<open>select\<close>, ends with its context, passes on an event, or sends a heartbeat; when it returns it
  unsubscribes. The websocket library is left out but for whether a write succeeds and when it
  ends the context. Many connections run at once, beside the publisher and the subscription that
  keeps the history cache (\<open>watchHistoryInvalidation\<close>).
\<close>

section \<open>A connection\<close>

type_synonym hub_event = "message event"

datatype frame = EventFrame hub_event | Heartbeat go_time

definition event_json :: "hub_event \<Rightarrow> json" where
  "event_json e = JObj [(''type'', JStr (ev_type e)), (''data'', message_json (ev_data e))]"

definition frame_json :: "frame \<Rightarrow> json" where
  "frame_json f =
     (case f of EventFrame e \<Rightarrow> event_json e
      | Heartbeat t \<Rightarrow> JObj [(''type'', JStr ''heartbeat''), (''ts'', JStr (fmt_rfc3339nano t))])"

text \<open>The channel, whether the context has ended, the frames written and whether the loop still runs.\<close>

record conn =
  cn_chan :: nat
  cn_done :: bool
  cn_sent :: "frame list"
  cn_open :: bool

text \<open>A case of the select, with whether its write succeeds.\<close>

datatype chosen = CtxDone | FromHub bool | Tick go_time bool

definition send_frame :: "bool \<Rightarrow> frame \<Rightarrow> conn \<Rightarrow> conn" where
  "send_frame ok f c = (if ok then c\<lparr>cn_sent := cn_sent c @ [f]\<rparr> else c)"

text \<open>
  One turn of the loop by one case: whether the loop goes on. \<open>None\<close>: the case is not ready.
\<close>

definition stream_select :: "chosen \<Rightarrow> conn \<Rightarrow> hub_event hub \<Rightarrow> (bool \<times> conn \<times> hub_event hub) option" where
  "stream_select k c h =
     (case k of
        CtxDone \<Rightarrow> if cn_done c then Some (False, c, h) else None
      | FromHub ok \<Rightarrow>
          (case chan_recv (cn_chan c) h of
             Some (e, h) \<Rightarrow> Some (ok, send_frame ok (EventFrame e) c, h)
           | None \<Rightarrow> if ch_closed (heap h ! cn_chan c) then Some (False, c, h) else None)
      | Tick t ok \<Rightarrow> Some (ok, send_frame ok (Heartbeat t) c, h))"

section \<open>All connections\<close>

text \<open>Connections by the id of their subscription.\<close>

record streams =
  sy_hub :: "hub_event hub"
  sy_conns :: "int \<rightharpoonup> conn"

text \<open>The server has subscribed for its history cache: id 0, channel 0.\<close>

definition start_streams :: streams where
  "start_streams = \<lparr>sy_hub = snd (snd (hub_subscribe 32 new_hub)), sy_conns = Map.empty\<rparr>"

definition join_stream :: "streams \<Rightarrow> int \<times> nat \<times> streams" where
  "join_stream s =
     (case hub_subscribe 32 (sy_hub s) of
        (ch, i, h) \<Rightarrow>
          (i, ch, s\<lparr>sy_hub := h,
             sy_conns := (sy_conns s)(i \<mapsto> \<lparr>cn_chan = ch, cn_done = False, cn_sent = [], cn_open = True\<rparr>)\<rparr>))"

text \<open>A turn, and the deferred unsubscribing when the handler returns. A panic is \<open>None\<close> too.\<close>

definition turn_stream :: "int \<Rightarrow> chosen \<Rightarrow> streams \<Rightarrow> streams option" where
  "turn_stream i k s =
     (case sy_conns s i of
        None \<Rightarrow> None
      | Some c \<Rightarrow>
          if \<not> cn_open c then None
          else
            (case stream_select k c (sy_hub s) of
               None \<Rightarrow> None
             | Some (True, c, h) \<Rightarrow> Some (s\<lparr>sy_hub := h, sy_conns := (sy_conns s)(i \<mapsto> c)\<rparr>)
             | Some (False, c, h) \<Rightarrow>
                 (case hub_unsubscribe i h of
                    None \<Rightarrow> None
                  | Some h \<Rightarrow> Some (s\<lparr>sy_hub := h, sy_conns := (sy_conns s)(i \<mapsto> c\<lparr>cn_open := False\<rparr>)\<rparr>))))"

text \<open>The label of a turn: what it does to the hub.\<close>

definition turn_label :: "int \<Rightarrow> chosen \<Rightarrow> streams \<Rightarrow> hub_event hub_label list" where
  "turn_label i k s =
     (case sy_conns s i of
        None \<Rightarrow> []
      | Some c \<Rightarrow>
          (case k of
             FromHub ok \<Rightarrow> (case chan_recv (cn_chan c) (sy_hub s) of None \<Rightarrow> [] | Some (e, h) \<Rightarrow> [Received (cn_chan c) e])
           | _ \<Rightarrow> []) @
          (case stream_select k c (sy_hub s) of Some (False, _) \<Rightarrow> [Unsubscribed i] | _ \<Rightarrow> []))"

inductive stream_step :: "streams \<Rightarrow> hub_event hub_label list \<Rightarrow> streams \<Rightarrow> bool" where
  join: "join_stream s = (i, ch, s') \<Longrightarrow> stream_step s [Subscribed 32 ch i] s'"
| turn: "turn_stream i k s = Some s' \<Longrightarrow> stream_step s (turn_label i k s) s'"
| context_ends: "sy_conns s i = Some c \<Longrightarrow>
    stream_step s [] (s\<lparr>sy_conns := (sy_conns s)(i \<mapsto> c\<lparr>cn_done := True\<rparr>)\<rparr>)"
| publishes: "range_order (subscribers (sy_hub s)) order \<Longrightarrow> publish_loop order e (sy_hub s) = Some h \<Longrightarrow>
    stream_step s [Published e] (s\<lparr>sy_hub := h\<rparr>)"
| invalidates: "chan_recv 0 (sy_hub s) = Some (e, h) \<Longrightarrow> stream_step s [Received 0 e] (s\<lparr>sy_hub := h\<rparr>)"

text \<open>A run, with all that it does to the hub.\<close>

inductive stream_run :: "streams \<Rightarrow> hub_event hub_label list \<Rightarrow> streams \<Rightarrow> bool" where
  stream_Nil: "stream_run s [] s"
| stream_Cons: "stream_step s l s1 \<Longrightarrow> stream_run s1 ls s2 \<Longrightarrow> stream_run s (l @ ls) s2"

section \<open>Facts\<close>

definition stream_inv :: "streams \<Rightarrow> bool" where
  "stream_inv s \<longleftrightarrow> hub_inv (sy_hub s) \<and> 0 < next_id (sy_hub s) \<and> 0 < length (heap (sy_hub s)) \<and>
     (\<forall>i. subscribers (sy_hub s) i =
        (if i = 0 then Some 0
         else case sy_conns s i of Some c \<Rightarrow> if cn_open c then Some (cn_chan c) else None | None \<Rightarrow> None)) \<and>
     (\<forall>i c. sy_conns s i = Some c \<longrightarrow> 0 < i \<and> i < next_id (sy_hub s) \<and> 0 < cn_chan c)"

lemma start_streams_inv: "stream_inv start_streams"
proof -
  have "hub_inv (sy_hub start_streams)"
    using hub_inv_subscribe [OF hub_inv_new, of 32] unfolding start_streams_def by (metis prod.collapse streams.select_convs(1))
  then show ?thesis
    by (auto simp: stream_inv_def start_streams_def hub_subscribe_def new_hub_def Let_def)
qed

text \<open>Every step is a run of the hub.\<close>

lemma stream_select_hub:
  assumes "stream_select k c h = Some (go, c', h')"
  shows "hub_run h (case k of FromHub ok \<Rightarrow> (case chan_recv (cn_chan c) h of None \<Rightarrow> [] | Some (e, h) \<Rightarrow> [Received (cn_chan c) e]) | _ \<Rightarrow> []) h'"
    "subscribers h' = subscribers h" "next_id h' = next_id h" "length (heap h') = length (heap h)" "cn_chan c' = cn_chan c"
    "cn_open c' = cn_open c"
  using assms
  by (auto simp: stream_select_def send_frame_def chan_recv_def split: chosen.splits option.splits if_splits list.splits
      intro!: hub_run_Nil hub_run_Cons [OF hub_step.receive hub_run_Nil])

lemma stream_invD:
  assumes "stream_inv s" and "sy_conns s i = Some c"
  shows "i \<noteq> 0" "cn_chan c \<noteq> 0" "cn_open c \<Longrightarrow> subscribers (sy_hub s) i = Some (cn_chan c)"
  using assms by (auto simp: stream_inv_def)

lemma hub_run_trans: "hub_run h xs h1 \<Longrightarrow> hub_run h1 ys h2 \<Longrightarrow> hub_run h (xs @ ys) h2"
  by (induction rule: hub_run.induct) (auto intro: hub_run_Cons)

lemma turn_stream_cases:
  assumes "turn_stream i k s = Some s'" and "stream_inv s"
  obtains (goes_on) c c' h where "sy_conns s i = Some c" "cn_open c" "stream_select k c (sy_hub s) = Some (True, c', h)"
      "s' = s\<lparr>sy_hub := h, sy_conns := (sy_conns s)(i \<mapsto> c')\<rparr>" "hub_run (sy_hub s) (turn_label i k s) h"
  | (leaves) c c' h h' where "sy_conns s i = Some c" "cn_open c" "stream_select k c (sy_hub s) = Some (False, c', h)"
      "hub_unsubscribe i h = Some h'" "s' = s\<lparr>sy_hub := h', sy_conns := (sy_conns s)(i \<mapsto> c'\<lparr>cn_open := False\<rparr>)\<rparr>"
      "hub_run (sy_hub s) (turn_label i k s) h'"
proof -
  obtain c go c' h where c: "sy_conns s i = Some c" "cn_open c" "stream_select k c (sy_hub s) = Some (go, c', h)"
    using assms(1) by (auto simp: turn_stream_def split: option.splits if_splits)
  note run = stream_select_hub(1) [OF c(3)]
  show thesis
  proof (cases go)
    case True
    then show thesis using goes_on [OF c(1,2), of c' h] c assms(1) run by (simp add: turn_stream_def turn_label_def)
  next
    case False
    then obtain h' where h': "hub_unsubscribe i h = Some h'" "s' = s\<lparr>sy_hub := h', sy_conns := (sy_conns s)(i \<mapsto> c'\<lparr>cn_open := False\<rparr>)\<rparr>"
      using c assms(1) by (auto simp: turn_stream_def split: option.splits)
    have "hub_run h [Unsubscribed i] h'" by (intro hub_run_Cons [OF hub_step.unsubscribe hub_run_Nil] h'(1))
    with run have "hub_run (sy_hub s) (turn_label i k s) h'"
      using c False by (simp add: turn_label_def hub_run_trans)
    then show thesis using leaves [OF c(1,2) _ h'] c(3) False by simp
  qed
qed

lemma stream_step_inv:
  assumes "stream_step s l s'" and "stream_inv s"
  shows "hub_run (sy_hub s) l (sy_hub s') \<and> stream_inv s'"
  using assms
proof (induction rule: stream_step.induct)
  case (join s i ch s')
  obtain h where h: "hub_subscribe 32 (sy_hub s) = (ch, i, h)"
    "s' = s\<lparr>sy_hub := h, sy_conns := (sy_conns s)(i \<mapsto> \<lparr>cn_chan = ch, cn_done = False, cn_sent = [], cn_open = True\<rparr>)\<rparr>"
    using join.hyps by (auto simp: join_stream_def split: prod.splits)
  have e: "i = next_id (sy_hub s)" "ch = length (heap (sy_hub s))" "next_id h = next_id (sy_hub s) + 1"
    "subscribers h = (subscribers (sy_hub s))(i \<mapsto> ch)" "length (heap h) = Suc (length (heap (sy_hub s)))"
    using h(1) by (auto simp: hub_subscribe_def Let_def)
  have inv: "hub_inv h" using hub_inv_subscribe [OF _ h(1)] join.prems by (simp add: stream_inv_def)
  have "hub_run (sy_hub s) [Subscribed 32 ch i] h" by (intro hub_run_Cons [OF hub_step.subscribe hub_run_Nil] h(1))
  moreover have "stream_inv s'"
    using join.prems inv e unfolding stream_inv_def h(2) by (auto intro: less_imp_le)
  ultimately show ?case by (simp add: h(2))
next
  case (turn i k s s')
  from turn.hyps turn.prems show ?case
  proof (cases rule: turn_stream_cases)
    case (goes_on c c' h)
    note sel = stream_select_hub(2-6) [OF goes_on(3)]
    have "hub_inv h" using hub_run_inv [OF goes_on(5)] turn.prems by (simp add: stream_inv_def)
    then show ?thesis using turn.prems goes_on sel by (auto simp: stream_inv_def)
  next
    case (leaves c c' h h')
    note sel = stream_select_hub(2-6) [OF leaves(3)]
    have inv': "hub_inv h'" using hub_run_inv [OF leaves(6)] turn.prems by (simp add: stream_inv_def)
    have "subscribers h i = Some (cn_chan c)"
      using stream_invD(3) [OF turn.prems leaves(1,2)] sel(1) by simp
    then have u: "subscribers h' = (subscribers h)(i := None)" "next_id h' = next_id h" "length (heap h') = length (heap h)"
      using leaves(4) by (auto simp: hub_unsubscribe_def split: option.splits)
    show ?thesis using turn.prems leaves inv' sel u stream_invD(1) [OF turn.prems leaves(1)]
      by (auto simp: stream_inv_def)
  qed
next
  case (context_ends s i c)
  then show ?case by (auto simp: stream_inv_def intro: hub_run_Nil)
next
  case (publishes s order e h)
  have "hub_run (sy_hub s) [Published e] h"
    by (rule hub_run_Cons [OF hub_step.publish [OF publishes.hyps(1,2)] hub_run_Nil])
  moreover have "hub_inv h \<and> subscribers h = subscribers (sy_hub s) \<and> next_id h = next_id (sy_hub s) \<and>
      length (heap h) = length (heap (sy_hub s))"
    using publish_loop_effect [of "sy_hub s" order e] publishes by (auto simp: stream_inv_def range_order_def)
  ultimately show ?case using publishes.prems by (simp add: stream_inv_def)
next
  case (invalidates s e h)
  have "hub_run (sy_hub s) [Received 0 e] h" by (intro hub_run_Cons [OF hub_step.receive hub_run_Nil] invalidates.hyps)
  moreover have "subscribers h = subscribers (sy_hub s) \<and> next_id h = next_id (sy_hub s) \<and>
      length (heap h) = length (heap (sy_hub s))"
    using invalidates.hyps by (auto simp: chan_recv_def split: if_splits list.splits)
  moreover have "hub_inv h" using chan_recv_inv [OF _ invalidates.hyps] invalidates.prems by (simp add: stream_inv_def)
  ultimately show ?case using invalidates.prems by (simp add: stream_inv_def)
qed

lemma stream_run_inv: "stream_run s ls s' \<Longrightarrow> stream_inv s \<Longrightarrow> hub_run (sy_hub s) ls (sy_hub s') \<and> stream_inv s'"
  by (induction rule: stream_run.induct) (auto intro: hub_run_Nil hub_run_trans dest: stream_step_inv)

text \<open>What a connection has been handed so far.\<close>

fun events_in :: "frame list \<Rightarrow> hub_event list" where
  "events_in [] = []"
| "events_in (EventFrame e # fs) = e # events_in fs"
| "events_in (Heartbeat t # fs) = events_in fs"

lemma events_in_append [simp]: "events_in (xs @ ys) = events_in xs @ events_in ys"
  by (induction xs rule: events_in.induct) auto

definition handed :: "conn \<Rightarrow> hub_event list \<Rightarrow> conn \<Rightarrow> bool" where
  "handed c es c' \<longleftrightarrow> cn_chan c' = cn_chan c \<and> (cn_open c' \<longrightarrow> cn_open c) \<and>
     (if cn_open c' then events_in (cn_sent c') = events_in (cn_sent c) @ es
      else subseq (events_in (cn_sent c')) (events_in (cn_sent c) @ es))"

lemma handed_trans: "handed c xs m \<Longrightarrow> handed m ys c' \<Longrightarrow> handed c (xs @ ys) c'"
proof -
  assume h: "handed c xs m" "handed m ys c'"
  let ?e = "\<lambda>c. events_in (cn_sent c)"
  have m: "subseq (?e m) (?e c @ xs)" using h(1) by (auto simp: handed_def split: if_splits)
  have "subseq (?e m @ ys) (?e c @ xs @ ys)" using list_emb_append_mono [OF m, of ys ys] by simp
  moreover have "subseq (?e c') (?e m @ ys)" using h(2) by (auto simp: handed_def split: if_splits)
  ultimately have "subseq (?e c') (?e c @ xs @ ys)" by (rule subseq_order.trans [rotated])
  then show ?thesis using h by (auto simp: handed_def split: if_splits)
qed

lemma handed_closed: "\<not> cn_open c \<Longrightarrow> handed c es c"
  by (simp add: handed_def list_emb_prefix)

lemma stream_select_handed:
  assumes "stream_select k c h = Some (go, c', h')" and "cn_open c"
  shows "handed c (received (cn_chan c) (case k of FromHub ok \<Rightarrow> (case chan_recv (cn_chan c) h of None \<Rightarrow> [] | Some (e, h) \<Rightarrow> [Received (cn_chan c) e]) | _ \<Rightarrow> []))
    (if go then c' else c'\<lparr>cn_open := False\<rparr>)"
  using assms
  by (auto simp: handed_def stream_select_def send_frame_def split: chosen.splits option.splits if_splits)

lemma received_append: "received r (xs @ ys) = received r xs @ received r ys"
  by (induction r xs rule: received.induct) auto

lemma published_append: "published (xs @ ys) = published xs @ published ys"
  by (induction xs rule: published.induct) auto

lemma received_other:
  assumes "sy_conns s j = Some d" and "cn_chan d \<noteq> r"
  shows "received r (turn_label j k s) = []"
  using assms by (auto simp: turn_label_def received_append split: chosen.splits option.splits bool.splits)

text \<open>While it is open a connection has been sent all it received; afterwards, a prefix.\<close>

lemma stream_step_handed:
  assumes "stream_step s l s'" and "stream_inv s" and "sy_conns s i = Some c"
  shows "\<exists>c'. sy_conns s' i = Some c' \<and> handed c (received (cn_chan c) l) c'"
  using assms
proof (induction rule: stream_step.induct)
  case (join s j ch s')
  have "j = next_id (sy_hub s)" using join.hyps by (auto simp: join_stream_def hub_subscribe_def Let_def)
  then have "j \<noteq> i" using join.prems(1,2) by (auto simp: stream_inv_def)
  then show ?case using join by (auto simp: join_stream_def handed_def split: prod.splits)
next
  case (turn j k s s')
  show ?case
  proof (cases "j = i")
    case True
    from turn.hyps turn.prems(1) show ?thesis
    proof (cases rule: turn_stream_cases)
      case (goes_on c0 c' h)
      then show ?thesis using stream_select_handed [OF goes_on(3)] turn.prems True
        by (auto simp: turn_label_def received_append split: chosen.splits)
    next
      case (leaves c0 c' h h')
      then show ?thesis using stream_select_handed [OF leaves(3)] turn.prems True
        by (auto simp: turn_label_def received_append split: chosen.splits)
    qed
  next
    case False
    obtain d where d: "sy_conns s j = Some d" "cn_open d"
      using turn.hyps by (auto simp: turn_stream_def split: option.splits if_splits)
    have same: "sy_conns s' i = Some c"
      using turn.hyps turn.prems(2) False by (auto simp: turn_stream_def split: option.splits if_splits bool.splits)
    show ?thesis
    proof (cases "cn_open c")
      case True
      have "cn_chan d \<noteq> cn_chan c"
        using hub_inv_inj [of "sy_hub s" j "cn_chan c" i] stream_invD(3) [OF turn.prems(1) d] stream_invD(3) [OF turn.prems True]
          turn.prems(1) False by (auto simp: stream_inv_def)
      then show ?thesis using same received_other [OF d(1)] by (auto simp: handed_def)
    qed (use same handed_closed in blast)
  qed
next
  case (context_ends s j d)
  then show ?case by (auto simp: handed_def)
next
  case (publishes s order e h)
  then show ?case by (auto simp: handed_def)
next
  case (invalidates s e h)
  have "cn_chan c \<noteq> 0" using stream_invD(2) [OF invalidates.prems(1,2)] .
  then show ?case using invalidates.prems by (auto simp: handed_def)
qed

lemma stream_run_handed:
  assumes "stream_run s ls s'" and "stream_inv s" and "sy_conns s i = Some c"
  shows "\<exists>c'. sy_conns s' i = Some c' \<and> handed c (received (cn_chan c) ls) c'"
  using assms
proof (induction arbitrary: c rule: stream_run.induct)
  case (stream_Nil s)
  then show ?case by (auto simp: handed_def)
next
  case (stream_Cons s l s1 ls s2)
  obtain m where m: "sy_conns s1 i = Some m" "handed c (received (cn_chan c) l) m"
    using stream_step_handed [OF stream_Cons.hyps(1) stream_Cons.prems] by blast
  have "stream_inv s1" using stream_step_inv [OF stream_Cons.hyps(1) stream_Cons.prems(1)] by blast
  from stream_Cons.IH [OF this m(1)] obtain c' where c': "sy_conns s2 i = Some c'" "handed m (received (cn_chan m) ls) c'" by blast
  have "cn_chan m = cn_chan c" using m(2) by (simp add: handed_def)
  with handed_trans [OF m(2)] c' show ?case by (auto simp: received_append)
qed

lemma unsubscribed_closed:
  assumes "stream_step s l s'" and "stream_inv s" and "Unsubscribed i \<in> set l"
  shows "\<exists>d. sy_conns s' i = Some d \<and> \<not> cn_open d"
  using assms
proof (induction rule: stream_step.induct)
  case (turn j k s s')
  have u: "Unsubscribed i \<in> set (turn_label j k s) \<Longrightarrow> i = j \<and> (\<exists>c. sy_conns s j = Some c \<and> (\<exists>x. stream_select k c (sy_hub s) = Some (False, x)))"
    by (auto simp: turn_label_def split: chosen.splits option.splits bool.splits) metis+
  from turn.hyps turn.prems(1) show ?case
    by (cases rule: turn_stream_cases) (use u turn.prems(2) in auto)
qed auto

lemma open_never_unsubscribed:
  assumes "stream_run s ls s'" and "stream_inv s" and "sy_conns s' i = Some c" and "cn_open c"
  shows "Unsubscribed i \<notin> set ls"
  using assms
proof (induction rule: stream_run.induct)
  case (stream_Cons s l s1 ls s2)
  have inv1: "stream_inv s1" using stream_step_inv [OF stream_Cons.hyps(1) stream_Cons.prems(1)] by blast
  have "Unsubscribed i \<notin> set l"
  proof
    assume "Unsubscribed i \<in> set l"
    from unsubscribed_closed [OF stream_Cons.hyps(1) stream_Cons.prems(1) this]
    obtain d where d: "sy_conns s1 i = Some d" "\<not> cn_open d" by blast
    from stream_run_handed [OF stream_Cons.hyps(2) inv1 d(1)] d(2) stream_Cons.prems(2,3) show False
      by (auto simp: handed_def)
  qed
  then show ?case using stream_Cons.IH [OF inv1 stream_Cons.prems(2,3)] by simp
qed simp

text \<open>A handler whose context has ended leaves, and its subscription is gone.\<close>

lemma ended_stream_leaves:
  assumes "stream_inv s" and "sy_conns s i = Some c" and "cn_open c" and "cn_done c"
  shows "\<exists>s'. turn_stream i CtxDone s = Some s' \<and> subscribers (sy_hub s') i = None"
proof -
  obtain h where "hub_unsubscribe i (sy_hub s) = Some h" "subscribers h = (subscribers (sy_hub s))(i := None)"
    using hub_unsubscribe_ok [of "sy_hub s" i] assms(1) by (auto simp: stream_inv_def)
  then show ?thesis using assms(2-4) by (simp add: turn_stream_def stream_select_def)
qed

section \<open>Properties\<close>

text \<open>
  C9. A stream shows a device the events published since it joined, in order and none twice,
  whatever other streams come, go and fail; while the handler runs and no more than the 32
  events of its buffer were published, all of them. No subscription outlives its handler: the
  hub's subscribers are the history cache and the handlers that run, and a handler whose context
  has ended can leave at once, without a panic, and is unsubscribed then.
\<close>

theorem stream_delivers:
  assumes "stream_run start_streams earlier s" and "join_stream s = (i, ch, s1)" and "stream_run s1 ls s'"
  shows "\<exists>c. sy_conns s' i = Some c \<and> subseq (events_in (cn_sent c)) (published ls) \<and>
    (cn_open c \<and> length (published ls) \<le> 32 \<longrightarrow> events_in (cn_sent c) @ buffered (sy_hub s') ch = published ls) \<and>
    (cn_open c \<and> cn_done c \<longrightarrow> (\<exists>s''. turn_stream i CtxDone s' = Some s'' \<and> subscribers (sy_hub s'') i = None)) \<and>
    dom (subscribers (sy_hub s')) = insert 0 {j. \<exists>d. sy_conns s' j = Some d \<and> cn_open d}"
proof -
  have inv: "stream_inv s" using stream_run_inv [OF assms(1) start_streams_inv] by blast
  have inv1: "stream_inv s1" using stream_step_inv [OF stream_step.join [OF assms(2)] inv] by blast
  note run = stream_run_inv [OF assms(3) inv1]
  have c1: "sy_conns s1 i = Some \<lparr>cn_chan = ch, cn_done = False, cn_sent = [], cn_open = True\<rparr>"
    "heap (sy_hub s1) ! ch = \<lparr>ch_buf = [], ch_cap = 32, ch_closed = False\<rparr>"
    using assms(2) by (auto simp: join_stream_def hub_subscribe_def Let_def)
  obtain c where c: "sy_conns s' i = Some c" "handed \<lparr>cn_chan = ch, cn_done = False, cn_sent = [], cn_open = True\<rparr> (received ch ls) c"
    using stream_run_handed [OF assms(3) inv1 c1(1)] by auto
  have sub: "subscribers (sy_hub s1) i = Some ch" using stream_invD(3) [OF inv1 c1(1)] by simp
  have hub1: "hub_inv (sy_hub s1)" using inv1 by (simp add: stream_inv_def)
  have "subseq (received ch ls @ buffered (sy_hub s') ch) (published ls)"
    using hub_run_buffer [OF conjunct1 [OF run] hub1 hub_invD(2) [OF hub1 sub]] c1(2) by simp
  moreover have "subseq (events_in (cn_sent c)) (received ch ls)" using c(2) by (auto simp: handed_def split: if_splits)
  ultimately have shown: "subseq (events_in (cn_sent c)) (published ls)"
    by (meson list_emb_prefix subseq_order.trans)
  have "Unsubscribed i \<notin> set ls" if "cn_open c" using open_never_unsubscribed [OF assms(3) inv1 c(1) that] .
  then have all: "events_in (cn_sent c) @ buffered (sy_hub s') ch = published ls" if "cn_open c" "length (published ls) \<le> 32"
    using hub_run_lossless [OF conjunct1 [OF run] hub1 sub] c1(2) c(2) that by (simp add: handed_def)
  have "dom (subscribers (sy_hub s')) = insert 0 {j. \<exists>d. sy_conns s' j = Some d \<and> cn_open d}"
    using run by (auto simp: stream_inv_def dom_def split: option.splits if_splits)
  with c(1) shown all ended_stream_leaves [OF conjunct2 [OF run] c(1)] show ?thesis by blast
qed

definition ping :: hub_event where
  "ping = \<lparr>ev_type = ''new_message'', ev_data = zero_message\<rparr>"

theorem stream_delivers_witness:
  "\<exists>i ch s1 s' c. join_stream start_streams = (i, ch, s1) \<and> stream_run s1 [Published ping, Received ch ping] s' \<and>
     sy_conns s' i = Some c \<and> cn_open c \<and> events_in (cn_sent c) = [ping]"
proof -
  obtain i ch s1 where j: "join_stream start_streams = (i, ch, s1)" by (metis prod_cases3)
  define s2 where "s2 = the (map_option (\<lambda>h. s1\<lparr>sy_hub := h\<rparr>) (publish_loop [0, 1] ping (sy_hub s1)))"
  define s3 where "s3 = the (turn_stream 1 (FromHub True) s2)"
  have ids: "i = 1" "ch = 1" and s1: "s1 = \<lparr>sy_hub = \<lparr>subscribers = [0 \<mapsto> 0, 1 \<mapsto> 1], next_id = 2,
      heap = [\<lparr>ch_buf = [], ch_cap = 32, ch_closed = False\<rparr>, \<lparr>ch_buf = [], ch_cap = 32, ch_closed = False\<rparr>]\<rparr>,
      sy_conns = [1 \<mapsto> \<lparr>cn_chan = 1, cn_done = False, cn_sent = [], cn_open = True\<rparr>]\<rparr>"
    using j by (auto simp: join_stream_def start_streams_def hub_subscribe_def new_hub_def Let_def)
  have "range_order (subscribers (sy_hub s1)) [0, 1]" by (auto simp: s1 range_order_def)
  moreover obtain h where h: "publish_loop [0, 1] ping (sy_hub s1) = Some h" "s2 = s1\<lparr>sy_hub := h\<rparr>"
    by (simp add: s1 s2_def try_send_def)
  ultimately have "stream_step s1 [Published ping] s2" using stream_step.publishes by simp
  moreover have "turn_stream 1 (FromHub True) s2 = Some s3" "turn_label 1 (FromHub True) s2 = [Received 1 ping]"
    by (simp_all add: s1 s2_def s3_def try_send_def turn_stream_def turn_label_def stream_select_def chan_recv_def send_frame_def)
  then have "stream_step s2 [Received 1 ping] s3" using stream_step.turn by metis
  ultimately have run: "stream_run s1 [Published ping, Received 1 ping] s3"
    using stream_Cons [OF _ stream_Cons [OF _ stream_Nil], of s1 "[Published ping]" s2 "[Received 1 ping]" s3] by simp
  have "buffered (sy_hub s3) 1 = []" and c: "\<exists>c. sy_conns s3 1 = Some c \<and> cn_open c"
    by (simp_all add: s1 s2_def s3_def try_send_def turn_stream_def stream_select_def chan_recv_def send_frame_def)
  then show ?thesis
    using stream_delivers [OF stream_Nil j, of "[Published ping, Received 1 ping]" s3] run j ids by auto
qed

end
