(* ===== verification/HistoryServe.thy ===== *)
theory HistoryServe
  imports ServeProps EventStream
begin

text \<open>
  Histories as they are served (\<open>handleMessages\<close> and \<open>watchHistoryInvalidation\<close> of
  \<open>internal/api/router.go\<close>): many requests at once, each of which asks the cache, on a miss reads
  the history from imsg, and puts it into the cache, in separate steps; beside them the publisher,
  the open streams, and the goroutine that takes the events of the hub and drops the cached
  histories of their chats. A step is what happens under one lock, or the moment at which imsg
  reads its database.
\<close>

section \<open>The parts of a request\<close>

text \<open>Reading a history and, where attachments are asked for, giving them ids.\<close>

definition fetch_history :: "server \<Rightarrow> exec \<Rightarrow> query \<Rightarrow> message list res eff" where
  "fetch_history s exec q e =
     (case list_messages exec (sr_runner s) (fst q) (snd q) of
        Inl err \<Rightarrow> (Inl err, e)
      | Inr ms \<Rightarrow>
          if sr_attachments s \<noteq> None \<and> lo_attachments (snd q)
          then (case decorate_messages (sr_attachments s) ms e of (ms, e) \<Rightarrow> (Inr ms, e))
          else (Inr ms, e))"

text \<open>A request that nothing interrupts is these steps, one after the other.\<close>

lemma load_history_steps:
  "load_history s env chat_id opts st =
     (case on_eff time_now st of (start, st) \<Rightarrow>
        (case on_eff (fetch_history s (ce_exec env) (chat_id, opts)) st of
           (Inl err, st) \<Rightarrow> (write_error (status_for_err err) ''internal'' (error_text err), st)
         | (Inr ms, st) \<Rightarrow>
             (case on_history (\<lambda>c e. case cache_put chat_id opts ms c e of (c, e) \<Rightarrow> (((), c), e)) st of
                (u, st) \<Rightarrow>
                (case on_eff time_now st of (now, st) \<Rightarrow>
                   (write_json (history_headers ''miss'' (int_text (whole_millis (time_sub now start)))) 200
                      (messages_json ms), st)))))"
proof -
  have pure: "on_eff (\<lambda>e. (a, e)) st = (a, st)" for a :: 'a and st
    by (simp add: on_eff_def with_eff_def)
  have fetch: "on_eff (fetch_history s (ce_exec env) (chat_id, opts)) st =
    (case list_messages (ce_exec env) (sr_runner s) chat_id opts of
       Inl err \<Rightarrow> (Inl err, st)
     | Inr ms \<Rightarrow> apfst Inr (if sr_attachments s \<noteq> None \<and> lo_attachments opts
         then on_eff (decorate_messages (sr_attachments s) ms) st else (ms, st)))" for st
    by (simp add: on_eff_def with_eff_def fetch_history_def split: sum.split prod.split)
  show ?thesis
    unfolding load_history_def fetch
    by (auto split: sum.split prod.split)
qed

section \<open>All requests\<close>

text \<open>
  A request that has missed, then one that holds what imsg had, then one that is over. The
  invalidating goroutine has an event in hand between its receive and its call of the cache.
\<close>

datatype history_call = Asking query | Holding query "message list" | Over

record histories =
  hi_streams :: streams
  hi_cache :: message_history_cache
  hi_hand :: "hub_event option"
  hi_calls :: "nat \<rightharpoonup> history_call"

definition new_histories :: histories where
  "new_histories =
     \<lparr>hi_streams = start_streams, hi_cache = new_message_history_cache (30 * minute), hi_hand = None,
      hi_calls = Map.empty\<rparr>"

text \<open>The channel of the invalidating goroutine is the first.\<close>

abbreviation own_chan :: "histories \<Rightarrow> hub_event chan" where
  "own_chan v \<equiv> heap (sy_hub (hi_streams v)) ! 0"

definition has_room :: "histories \<Rightarrow> bool" where
  "has_room v \<longleftrightarrow> length (ch_buf (own_chan v)) < ch_cap (own_chan v)"

text \<open>Events on their way to the cache.\<close>

definition pending :: "histories \<Rightarrow> hub_event set" where
  "pending v = set (ch_buf (own_chan v)) \<union> set_option (hi_hand v)"

abbreviation chat_of :: "hub_event \<Rightarrow> int64" where
  "chat_of e \<equiv> ms_chat_id (ev_data e)"

datatype history_event =
    Hit query "message list"
  | Asked nat query
  | Fetched nat query "message list"
  | Failed nat
  | Stored nat
  | Posted hub_event bool
  | Took hub_event
  | Swept int64
  | Streamed

text \<open>What the streams do without the publisher and the invalidating goroutine.\<close>

fun of_streams :: "hub_event hub_label \<Rightarrow> bool" where
  "of_streams (Published e) \<longleftrightarrow> False"
| "of_streams (Received r e) \<longleftrightarrow> r \<noteq> 0"
| "of_streams _ \<longleftrightarrow> True"

inductive history_step :: "server \<Rightarrow> histories \<Rightarrow> history_event \<Rightarrow> histories \<Rightarrow> bool" for s :: server where
  hits: "opts_in_range (snd q) \<Longrightarrow> cache_get (fst q) (snd q) (hi_cache v) e = ((Some ms, c), e') \<Longrightarrow>
    history_step s v (Hit q ms) (v\<lparr>hi_cache := c\<rparr>)"
| misses: "opts_in_range (snd q) \<Longrightarrow> cache_get (fst q) (snd q) (hi_cache v) e = ((None, c), e') \<Longrightarrow> hi_calls v n = None \<Longrightarrow>
    history_step s v (Asked n q) (v\<lparr>hi_cache := c, hi_calls := (hi_calls v)(n \<mapsto> Asking q)\<rparr>)"
| fetches: "hi_calls v n = Some (Asking q) \<Longrightarrow> fetch_history s exec q e = (Inr ms, e') \<Longrightarrow>
    history_step s v (Fetched n q ms) (v\<lparr>hi_calls := (hi_calls v)(n \<mapsto> Holding q ms)\<rparr>)"
| fails: "hi_calls v n = Some (Asking q) \<Longrightarrow> fetch_history s exec q e = (Inl err, e') \<Longrightarrow>
    history_step s v (Failed n) (v\<lparr>hi_calls := (hi_calls v)(n \<mapsto> Over)\<rparr>)"
| stores: "hi_calls v n = Some (Holding q ms) \<Longrightarrow> cache_put (fst q) (snd q) ms (hi_cache v) e = (c, e') \<Longrightarrow>
    history_step s v (Stored n) (v\<lparr>hi_cache := c, hi_calls := (hi_calls v)(n \<mapsto> Over)\<rparr>)"
| posts: "range_order (subscribers (sy_hub (hi_streams v))) order \<Longrightarrow>
    publish_loop order ev (sy_hub (hi_streams v)) = Some h \<Longrightarrow>
    history_step s v (Posted ev (has_room v)) (v\<lparr>hi_streams := (hi_streams v)\<lparr>sy_hub := h\<rparr>\<rparr>)"
| takes: "hi_hand v = None \<Longrightarrow> chan_recv 0 (sy_hub (hi_streams v)) = Some (ev, h) \<Longrightarrow>
    history_step s v (Took ev) (v\<lparr>hi_streams := (hi_streams v)\<lparr>sy_hub := h\<rparr>, hi_hand := Some ev\<rparr>)"
| sweeps: "hi_hand v = Some ev \<Longrightarrow>
    history_step s v (Swept (chat_of ev)) (v\<lparr>hi_cache := invalidate_for ev (hi_cache v), hi_hand := None\<rparr>)"
| streams: "stream_step (hi_streams v) l y \<Longrightarrow> list_all of_streams l \<Longrightarrow>
    history_step s v Streamed (v\<lparr>hi_streams := y\<rparr>)"

inductive history_run :: "server \<Rightarrow> histories \<Rightarrow> history_event list \<Rightarrow> histories \<Rightarrow> bool" for s :: server where
  history_Nil: "history_run s v [] v"
| history_snoc: "history_run s v ls v1 \<Longrightarrow> history_step s v1 l v2 \<Longrightarrow> history_run s v (ls @ [l]) v2"

inductive_simps history_run_Nil_iff [simp]: "history_run s v [] v'"
inductive_cases history_run_snocE: "history_run s v (ls @ [l]) v'"
inductive_cases hit_stepE: "history_step s v (Hit q ms) v'"

text \<open>The same from the front.\<close>

lemma history_run_front: "history_step s v l v1 \<Longrightarrow> history_run s v1 ls v2 \<Longrightarrow> history_run s v (l # ls) v2"
proof -
  assume l: "history_step s v l v1" and run: "history_run s v1 ls v2"
  from run l show "history_run s v (l # ls) v2"
  proof (induction rule: history_run.induct)
    case (history_Nil u)
    then show ?case using history_snoc [OF history_run.history_Nil] by fastforce
  next
    case (history_snoc u ls u1 k u2)
    then show ?case using history_run.history_snoc [of s v "l # ls" u1 k u2] by simp
  qed
qed

lemmas history_runI = history_run_front history_Nil

lemma history_run_append:
  assumes "history_run s v (xs @ ys) v'"
  obtains m where "history_run s v xs m" and "history_run s m ys v'"
proof -
  have "\<exists>m. history_run s v xs m \<and> history_run s m ys v'"
    using assms
  proof (induction ys arbitrary: v' rule: rev_induct)
    case Nil
    then show ?case by (auto intro: history_Nil)
  next
    case (snoc y ys)
    from snoc.prems have "history_run s v ((xs @ ys) @ [y]) v'" by simp
    then obtain v1 where "history_run s v (xs @ ys) v1" "history_step s v1 y v'" by (rule history_run_snocE)
    then show ?case using snoc.IH by (blast intro: history_snoc)
  qed
  then show thesis using that by blast
qed

section \<open>Events on their way\<close>

definition histories_inv :: "histories \<Rightarrow> bool" where
  "histories_inv v \<longleftrightarrow> stream_inv (hi_streams v) \<and> filed (hi_cache v)"

lemma new_histories_inv: "histories_inv new_histories"
  by (simp add: histories_inv_def new_histories_def start_streams_inv filed_def new_message_history_cache_def)

lemma own_chan_facts:
  assumes "stream_inv y"
  shows "0 < length (heap (sy_hub y))" "hub_inv (sy_hub y)" "subscribers (sy_hub y) 0 = Some 0"
  using assms by (simp_all add: stream_inv_def)

lemma stream_step_stays:
  assumes "stream_step y l y'" and "stream_inv y"
  shows "Unsubscribed 0 \<notin> set l"
  using assms
proof (induction rule: stream_step.induct)
  case (turn i k y y')
  obtain c where "sy_conns y i = Some c"
    using turn.hyps by (auto simp: turn_stream_def split: option.splits)
  then have "i \<noteq> 0" using stream_invD(1) [OF turn.prems] by blast
  then show ?case by (auto simp: turn_label_def split: option.splits chosen.splits prod.splits bool.splits)
qed auto

lemma of_streams_none:
  assumes "list_all of_streams l"
  shows "published l = []" and "received 0 l = []"
proof -
  show "published l = []" using assms by (induction l rule: published.induct) auto
  show "received 0 l = []" using assms by (induction "0 :: nat" l rule: received.induct) auto
qed

lemma streams_keep_own:
  assumes "stream_step y l y'" and "stream_inv y" and "list_all of_streams l"
  shows "ch_buf (heap (sy_hub y') ! 0) = ch_buf (heap (sy_hub y) ! 0)"
proof -
  note own = own_chan_facts [OF assms(2)]
  note none = of_streams_none [OF assms(3)]
  have "hub_run (sy_hub y) l (sy_hub y')" using stream_step_inv [OF assms(1,2)] by blast
  moreover have "length (buffered (sy_hub y) 0 @ published l) \<le> ch_cap (heap (sy_hub y) ! 0)"
    using hub_inv_chan [OF own(2,1)] by (simp add: none)
  ultimately show ?thesis
    using hub_run_lossless [OF _ own(2,3) stream_step_stays [OF assms(1,2)]] none by simp
qed

text \<open>The calls of the cache, by their reading of the clock.\<close>

lemma cache_calls:
  "cache_get (fst q) (snd q) c e = ((r, c'), e') \<Longrightarrow> get_history q (clock e 0) c = (r, c')"
  "cache_put (fst q) (snd q) ms c e = (c', e') \<Longrightarrow> c' = put_history q (clock e 0) ms c"
  by (auto simp: get_history_def put_history_def cache_get_def cache_put_def time_now_def at_time_def Let_def
      split: option.splits if_splits)

lemma invalidate_for_filed: "filed c \<Longrightarrow> filed (invalidate_for ev c)"
  by (simp add: invalidate_for_def history.inv_kept(3))

fun call_ready :: "history_call \<Rightarrow> bool" where
  "call_ready (Asking q) = opts_in_range (snd q)"
| "call_ready (Holding q ms) = opts_in_range (snd q)"
| "call_ready Over = True"

definition calls_in_range :: "histories \<Rightarrow> bool" where
  "calls_in_range v \<longleftrightarrow> (\<forall>n c. hi_calls v n = Some c \<longrightarrow> call_ready c)"

lemma calls_in_rangeD: "calls_in_range v \<Longrightarrow> hi_calls v n = Some (Holding q ms) \<Longrightarrow> opts_in_range (snd q)"
  "calls_in_range v \<Longrightarrow> hi_calls v n = Some (Asking q) \<Longrightarrow> opts_in_range (snd q)"
  by (fastforce simp: calls_in_range_def)+

lemma new_histories_calls: "calls_in_range new_histories"
  by (simp add: calls_in_range_def new_histories_def)

lemma history_step_calls:
  assumes "history_step s v l v'" and "calls_in_range v"
  shows "calls_in_range v'"
  using assms by cases (auto simp: calls_in_range_def, fastforce)

lemma history_step_inv:
  assumes "history_step s v l v'" and "histories_inv v" and "calls_in_range v"
  shows "histories_inv v'"
proof -
  have inv: "stream_inv (hi_streams v)" "filed (hi_cache v)" using assms(2) by (simp_all add: histories_inv_def)
  from assms(1) show ?thesis
  proof cases
    case (hits q e ms c e')
    then show ?thesis using inv history.inv_kept(2) [OF inv(2), of q "clock e 0"] cache_calls(1) [OF hits(4)]
      by (simp add: histories_inv_def)
  next
    case (misses q e c e' n)
    then show ?thesis using inv history.inv_kept(2) [OF inv(2), of q "clock e 0"] cache_calls(1) [OF misses(4)]
      by (simp add: histories_inv_def)
  next
    case (stores n q ms e c e')
    have "opts_in_range (snd q)" using calls_in_rangeD(1) [OF assms(3) stores(3)] .
    then show ?thesis using stores inv history.inv_kept(1) [OF inv(2)] cache_calls(2) [OF stores(4)]
      by (simp add: histories_inv_def)
  next
    case (posts order ev h)
    have "stream_step (hi_streams v) [Published ev] (hi_streams v\<lparr>sy_hub := h\<rparr>)"
      using posts(3,4) by (rule stream_step.publishes)
    then show ?thesis using posts(2) inv stream_step_inv by (auto simp: histories_inv_def)
  next
    case (takes ev h)
    have "stream_step (hi_streams v) [Received 0 ev] (hi_streams v\<lparr>sy_hub := h\<rparr>)"
      using takes(4) by (rule stream_step.invalidates)
    then show ?thesis using takes(2) inv stream_step_inv by (auto simp: histories_inv_def)
  next
    case (sweeps ev)
    then show ?thesis using inv by (simp add: histories_inv_def invalidate_for_filed)
  next
    case (streams k y)
    then show ?thesis using inv stream_step_inv by (auto simp: histories_inv_def)
  qed (use inv in \<open>simp_all add: histories_inv_def\<close>)
qed

lemma history_run_inv:
  assumes "history_run s v ls v'" and "histories_inv v" and "calls_in_range v"
  shows "histories_inv v' \<and> calls_in_range v'"
  using assms by (induction rule: history_run.induct) (auto intro: history_step_inv history_step_calls)

text \<open>An event that is posted or pending is pending afterwards, dropped, or has been swept.\<close>

lemma history_step_pending:
  assumes "history_step s v l v'" and "histories_inv v" and "e \<in> pending v \<or> (\<exists>ok. l = Posted e ok)"
  shows "e \<in> pending v' \<or> l = Posted e False \<or> l = Swept (chat_of e)"
proof -
  have inv: "stream_inv (hi_streams v)" using assms(2) by (simp add: histories_inv_def)
  note own = own_chan_facts [OF inv]
  from assms(1) show ?thesis
  proof cases
    case (posts order ev h)
    have "0 \<in> set order" using posts(3) own(3) by (auto simp: range_order_def)
    then have "heap h ! 0 = offer ev (own_chan v)"
      using publish_loop_effect [OF own(2), of order ev] posts(3,4) own(1,3) by (auto simp: range_order_def)
    then show ?thesis
      using assms(3) posts(1,2) by (auto simp: pending_def offer_def has_room_def)
  next
    case (takes ev h)
    then have "ch_buf (own_chan v) = ev # ch_buf (heap h ! 0)"
      using own(1) by (auto simp: chan_recv_def split: list.splits if_splits)
    then show ?thesis using assms(3) takes by (auto simp: pending_def)
  next
    case (sweeps ev)
    then show ?thesis using assms(3) by (auto simp: pending_def)
  next
    case (streams k y)
    then show ?thesis using assms(3) streams_keep_own [OF streams(3) inv streams(4)] by (auto simp: pending_def)
  qed (use assms(3) in \<open>auto simp: pending_def\<close>)
qed

lemma history_run_pending:
  assumes "history_run s v ls v'" and "histories_inv v" and "calls_in_range v" and "e \<in> pending v \<or> (\<exists>ok. Posted e ok \<in> set ls)"
  shows "e \<in> pending v' \<or> Posted e False \<in> set ls \<or> Swept (chat_of e) \<in> set ls"
  using assms
proof (induction rule: history_run.induct)
  case (history_snoc v ls v1 l v2)
  have inv: "histories_inv v1" using history_run_inv [OF history_snoc.hyps(1) history_snoc.prems(1,2)] by simp
  have "e \<in> pending v1 \<or> Posted e False \<in> set ls \<or> Swept (chat_of e) \<in> set ls \<or> (\<exists>ok. l = Posted e ok)"
    using history_snoc.IH [OF history_snoc.prems(1,2)] history_snoc.prems(3) by auto
  then show ?case using history_step_pending [OF history_snoc.hyps(2) inv] by auto
qed simp

section \<open>Where cached histories come from\<close>

text \<open>A request holds what it fetched.\<close>

lemma history_run_holding:
  assumes "history_run s v ls v'" and "hi_calls v = Map.empty" and "hi_calls v' n = Some (Holding q ms)"
  shows "\<exists>xs us. ls = xs @ Fetched n q ms # us"
  using assms
proof (induction rule: history_run.induct)
  case (history_snoc v ls v1 l v2)
  show ?case
  proof (cases "hi_calls v1 n = Some (Holding q ms)")
    case True
    then show ?thesis using history_snoc.IH history_snoc.prems(1) by fastforce
  next
    case False
    have "l = Fetched n q ms"
      using history_snoc.hyps(2) False history_snoc.prems(2) by cases (auto split: if_splits)
    then show ?thesis by blast
  qed
qed simp

text \<open>The trace says where an entry is from: it was fetched, then stored, and its chat not swept since.\<close>

definition stored_from :: "history_event list \<Rightarrow> query \<Rightarrow> message list \<Rightarrow> bool" where
  "stored_from ls q ms \<longleftrightarrow>
     (\<exists>xs n q' us vs. ls = xs @ Fetched n q' ms # us @ Stored n # vs \<and> same_query q' q \<and> Swept (fst q) \<notin> set vs)"

lemma stored_from_snoc: "stored_from ls q ms \<Longrightarrow> l \<noteq> Swept (fst q) \<Longrightarrow> stored_from (ls @ [l]) q ms"
proof -
  assume "stored_from ls q ms" "l \<noteq> Swept (fst q)"
  then obtain xs n q' us vs where h: "ls = xs @ Fetched n q' ms # us @ Stored n # vs" "same_query q' q" "Swept (fst q) \<notin> set vs"
    by (auto simp: stored_from_def)
  show ?thesis
    unfolding stored_from_def
    by (rule exI [of _ xs], rule exI [of _ n], rule exI [of _ q'], rule exI [of _ us], rule exI [of _ "vs @ [l]"])
      (use h \<open>l \<noteq> Swept (fst q)\<close> in simp)
qed

lemma history_run_stored:
  assumes "history_run s v ls v'" and "histories_inv v" and "hi_calls v = Map.empty" and "\<And>q. look_history (hi_cache v) q = None"
    and "look_history (hi_cache v') q = Some (expiry, ms)" and "opts_in_range (snd q)" and "fst q \<noteq> 0"
  shows "stored_from ls q ms"
  using assms
proof (induction arbitrary: expiry rule: history_run.induct)
  case (history_snoc v ls v1 l v2)
  note prems = history_snoc.prems
  have range: "calls_in_range v" using prems(2) by (simp add: calls_in_range_def)
  have v1: "histories_inv v1" "calls_in_range v1" using history_run_inv [OF history_snoc.hyps(1) prems(1) range] by simp_all
  have filed: "filed (hi_cache v1)" using v1(1) by (simp add: histories_inv_def)
  have old: "stored_from (ls @ [l]) q ms" if "look_history (hi_cache v1) q = Some (x, ms)" "l \<noteq> Swept (fst q)" for x
    using history_snoc.IH [OF prems(1-3) that(1) prems(5,6)] that(2) by (rule stored_from_snoc)
  from history_snoc.hyps(2) show ?case
  proof cases
    case (hits q' e ms' c e')
    then show ?thesis
      using old prems(4) cache_calls(1) [OF hits(4)] history.look_get [OF prems(5) hits(3), of "clock e 0" "hi_cache v1"]
      by (auto split: option.splits if_splits)
  next
    case (misses q' e c e' n)
    then show ?thesis
      using old prems(4) cache_calls(1) [OF misses(4)] history.look_get [OF prems(5) misses(3), of "clock e 0" "hi_cache v1"]
      by (auto split: option.splits if_splits)
  next
    case (stores n q' ms' e c e')
    have q': "opts_in_range (snd q')" using calls_in_rangeD(1) [OF v1(2) stores(3)] .
    note look = history.look_put [OF prems(5) q', of "clock e 0" ms' "hi_cache v1"]
    show ?thesis
    proof (cases "same_query q' q")
      case True
      obtain xs us where "ls = xs @ Fetched n q' ms' # us"
        using history_run_holding [OF history_snoc.hyps(1) prems(2) stores(3)] by blast
      moreover have "ms' = ms" using stores(2) prems(4) cache_calls(2) [OF stores(4)] look True by simp
      ultimately show ?thesis
        unfolding stored_from_def
        by (intro exI [of _ xs] exI [of _ n] exI [of _ q'] exI [of _ us] exI [of _ "[]"]) (simp add: True stores(1))
    next
      case False
      then show ?thesis using old stores(1,2) prems(4) cache_calls(2) [OF stores(4)] look by simp
    qed
  next
    case (sweeps ev)
    have "look_history (hi_cache v1) q = Some (expiry, ms) \<and> l \<noteq> Swept (fst q)"
      using sweeps prems(4,6) history.look_drop [OF filed prems(5), of "chat_of ev"]
      by (auto simp: invalidate_for_def split: if_splits)
    then show ?thesis using old by blast
  qed (use old prems(4) in auto)
qed simp

section \<open>Properties\<close>


text \<open>One chat without messages, and a message that comes.\<close>

definition third_query :: query where
  "third_query = (3, \<lparr>lo_limit = 50, lo_before = None, lo_after = None, lo_attachments = True\<rparr>)"

definition third_event :: hub_event where
  "third_event = \<lparr>ev_type = ''message.received'', ev_data = zero_message\<lparr>ms_chat_id := 3\<rparr>\<rparr>"

definition own_hub :: "hub_event list \<Rightarrow> streams" where
  "own_hub es = \<lparr>sy_hub = \<lparr>subscribers = [0 \<mapsto> 0], next_id = 1, heap = [\<lparr>ch_buf = es, ch_cap = 32, ch_closed = False\<rparr>]\<rparr>,
     sy_conns = Map.empty\<rparr>"

definition third_cache :: "bool \<Rightarrow> message_history_cache" where
  "third_cache full = (if full then put_history third_query 0 [] (new_message_history_cache (30 * minute))
     else new_message_history_cache (30 * minute))"

definition third_state :: "hub_event list \<Rightarrow> bool \<Rightarrow> hub_event option \<Rightarrow> history_call option \<Rightarrow> histories" where
  "third_state es full hand call =
     \<lparr>hi_streams = own_hub es, hi_cache = third_cache full, hi_hand = hand, hi_calls = (\<lambda>n. if n = 0 then call else None)\<rparr>"

lemma third_start: "new_histories = third_state [] False None None"
  by (auto simp: new_histories_def third_state_def third_cache_def own_hub_def start_streams_def hub_subscribe_def new_hub_def)

lemma third_get:
  "fst (cache_get 3 (snd third_query) (third_cache full) (at_time 0)) = (if full then Some [] else None, third_cache full)"
  by (auto simp: third_cache_def cache_get_def put_history_def cache_put_def new_message_history_cache_def time_now_def at_time_def
      third_query_def Let_def)

lemma third_state_simps:
  "hi_calls (third_state es f h c) 0 = c" "hi_hand (third_state es f h c) = h" "hi_cache (third_state es f h c) = third_cache f"
  "hi_streams (third_state es f h c) = own_hub es" "has_room (third_state [] f h c)"
  "(third_state es f h c)\<lparr>hi_calls := (hi_calls (third_state es' f' h' c'))(0 \<mapsto> x)\<rparr> = third_state es f h (Some x)"
  "(third_state es f h c)\<lparr>hi_cache := third_cache f'\<rparr> = third_state es f' h c"
  "(third_state es f h c)\<lparr>hi_streams := own_hub es'\<rparr> = third_state es' f h c"
  "(third_state es f h c)\<lparr>hi_hand := h'\<rparr> = third_state es f h' c"
  by (auto simp: third_state_def has_room_def own_hub_def)

lemma third_query_facts: "opts_in_range (snd third_query)" "fst third_query = 3"
  by (simp_all add: third_query_def opts_in_range_def)

lemma third_calls:
  "cache_get (fst third_query) (snd third_query) (third_cache full) (at_time 0) =
     ((if full then Some [] else None, third_cache full), snd (cache_get 3 (snd third_query) (third_cache full) (at_time 0)))"
  "cache_put (fst third_query) (snd third_query) [] (third_cache False) (at_time 0) =
     (third_cache True, snd (cache_put 3 (snd third_query) [] (third_cache False) (at_time 0)))"
  "fetch_history demo_server (ce_exec demo_env) third_query e = (Inr [], e)"
proof -
  show "cache_get (fst third_query) (snd third_query) (third_cache full) (at_time 0) =
     ((if full then Some [] else None, third_cache full), snd (cache_get 3 (snd third_query) (third_cache full) (at_time 0)))"
    using third_get by (metis prod.collapse third_query_facts(2))
  show "cache_put (fst third_query) (snd third_query) [] (third_cache False) (at_time 0) =
     (third_cache True, snd (cache_put 3 (snd third_query) [] (third_cache False) (at_time 0)))"
    by (simp add: third_cache_def put_history_def third_query_facts(2) prod_eq_iff)
  have "decode_lines item [] dst = Inr dst" for item :: "json \<Rightarrow> 'a option" and dst
    by (subst decode_lines.simps) (simp add: skip_ws_def)
  then have "list_messages (ce_exec demo_env) (sr_runner demo_server) 3 opts = Inr []" for opts
    by (simp add: list_messages_def run_def demo_env_def)
  then show "fetch_history demo_server (ce_exec demo_env) third_query e = (Inr [], e)"
    by (simp add: fetch_history_def third_query_facts(2))
qed

lemma third_hub:
  "publish_loop [0] ev (sy_hub (own_hub [])) = Some (sy_hub (own_hub [ev]))"
  "chan_recv 0 (sy_hub (own_hub [ev])) = Some (ev, sy_hub (own_hub []))"
  "own_hub es\<lparr>sy_hub := sy_hub (own_hub es')\<rparr> = own_hub es'"
  "range_order (subscribers (sy_hub (own_hub es))) [0]"
  by (simp_all add: own_hub_def try_send_def chan_recv_def range_order_def)

lemma third_steps:
  "history_step demo_server (third_state es False h None) (Asked 0 third_query) (third_state es False h (Some (Asking third_query)))"
  "history_step demo_server (third_state es f h (Some (Asking third_query))) (Fetched 0 third_query [])
     (third_state es f h (Some (Holding third_query [])))"
  "history_step demo_server (third_state es False h (Some (Holding third_query []))) (Stored 0) (third_state es True h (Some Over))"
  "history_step demo_server (third_state [] f h c) (Posted third_event True) (third_state [third_event] f h c)"
  "history_step demo_server (third_state [third_event] f None c) (Took third_event) (third_state [] f (Some third_event) c)"
  "history_step demo_server (third_state es False (Some third_event) c) (Swept 3) (third_state es False None c)"
  "history_step demo_server (third_state es True h c) (Hit third_query []) (third_state es True h c)"
proof -
  let ?st = third_state
  show "history_step demo_server (?st es False h None) (Asked 0 third_query) (?st es False h (Some (Asking third_query)))"
    using history_step.misses [OF third_query_facts(1), of "?st es False h None", simplified third_state_simps,
        OF third_calls(1) [of False, simplified], of 0 demo_server]
    by (simp add: third_state_simps)
  show "history_step demo_server (?st es f h (Some (Asking third_query))) (Fetched 0 third_query [])
     (?st es f h (Some (Holding third_query [])))"
    using history_step.fetches [of "?st es f h (Some (Asking third_query))" 0 third_query, OF _ third_calls(3)]
    by (simp add: third_state_simps)
  show "history_step demo_server (?st es False h (Some (Holding third_query []))) (Stored 0) (?st es True h (Some Over))"
    using history_step.stores [of "?st es False h (Some (Holding third_query []))" 0 third_query "[]", simplified third_state_simps,
        OF refl third_calls(2), of demo_server]
    by (simp add: third_state_simps)
  show "history_step demo_server (?st [] f h c) (Posted third_event True) (?st [third_event] f h c)"
    using history_step.posts [of "?st [] f h c" "[0]" third_event, unfolded third_state_simps, OF third_hub(4,1), of demo_server]
    by (simp add: third_state_simps third_hub)
  show "history_step demo_server (?st [third_event] f None c) (Took third_event) (?st [] f (Some third_event) c)"
    using history_step.takes [of "?st [third_event] f None c" third_event, unfolded third_state_simps, OF refl third_hub(2), of demo_server]
    by (simp add: third_state_simps third_hub)
  have "invalidate_for third_event (third_cache False) = third_cache False"
    by (simp add: invalidate_for_def invalidate_chat_def third_cache_def new_message_history_cache_def)
  then show "history_step demo_server (?st es False (Some third_event) c) (Swept 3) (?st es False None c)"
    using history_step.sweeps [of "?st es False (Some third_event) c" third_event] by (simp add: third_state_simps third_event_def)
  show "history_step demo_server (?st es True h c) (Hit third_query []) (?st es True h c)"
    using history_step.hits [OF third_query_facts(1), of "?st es True h c", simplified third_state_simps,
        OF third_calls(1) [of True, simplified], of demo_server]
    by (simp add: third_state_simps)
qed


text \<open>
  The race itself: the message comes after the fetch and its event is handled before the store, so
  nothing is pending and nothing was dropped, and the history without it is served.
\<close>

lemma race_serves_stale:
  "\<exists>v. history_run demo_server new_histories [Asked 0 third_query, Fetched 0 third_query [], Posted third_event True,
       Took third_event, Swept 3, Stored 0, Hit third_query []] v \<and> pending v = {} \<and> chat_of third_event = fst third_query"
proof -
  have "history_run demo_server new_histories [Asked 0 third_query, Fetched 0 third_query [], Posted third_event True,
       Took third_event, Swept 3, Stored 0, Hit third_query []] (third_state [] True None (Some Over))"
    unfolding third_start by (rule history_runI third_steps)+
  then show ?thesis
    by (intro exI conjI) (auto simp: pending_def third_state_simps own_hub_def third_event_def third_query_facts)
qed

end
