(* ===== verification/RequestLog.thy ===== *)
theory RequestLog
  imports ApiHandlers
begin

text \<open>
  The outermost handler (\<open>logRequests\<close> of \<open>internal/api/router.go\<close>): every request is timed and one
  line is logged for it, with \<open>Duration.Round\<close> and \<open>Duration.String\<close> of package \<open>time\<close>.
\<close>

section \<open>Durations as text\<close>

text \<open>\<open>Round\<close>: to the nearest multiple, halves away from zero, and no further than 64 bits reach.\<close>

definition round_duration :: "int \<Rightarrow> int \<Rightarrow> int" where
  "round_duration m d =
     (if m \<le> 0 then d
      else
        (let r = \<bar>d\<bar> mod m in
         if d < 0
         then if 2 * r < m then d + r else max min_int64 (d - m + r)
         else if 2 * r < m then d - r else min max_int64 (d + m - r)))"

text \<open>A number of units of 10^k with its decimals, the zeros at the end dropped.\<close>

definition decimal_text :: "nat \<Rightarrow> nat \<Rightarrow> string" where
  "decimal_text k n =
     (let rest = strip_zeros (fixed_text k (n mod 10 ^ k)) in
      nat_text (n div 10 ^ k) @ (if rest = [] then [] else CHR ''.'' # rest))"

definition duration_text :: "int \<Rightarrow> string" where
  "duration_text d =
     (let u = nat \<bar>d\<bar>; s = u div 1000000000; sign = (if d < 0 then ''-'' else []) in
      if u = 0 then ''0s''
      else if u < 1000 then sign @ nat_text u @ ''ns''
      else if u < 1000000 then sign @ decimal_text 3 u @ [CHR 0xC2, CHR 0xB5] @ ''s''
      else if u < 1000000000 then sign @ decimal_text 6 u @ ''ms''
      else
        sign @ (if s < 3600 then [] else nat_text (s div 3600) @ ''h'') @
        (if s < 60 then [] else nat_text (s div 60 mod 60) @ ''m'') @
        decimal_text 9 (s mod 60 * 1000000000 + u mod 1000000000) @ ''s'')"

section \<open>The handler\<close>

text \<open>The answer, the line, and the state.\<close>

definition log_requests :: "(request \<Rightarrow> api_state \<Rightarrow> response \<times> api_state) \<Rightarrow> request \<Rightarrow> api_state \<Rightarrow> response \<times> string \<times> api_state" where
  "log_requests next r st =
     (case on_eff time_now st of (start, st) \<Rightarrow>
      case next r st of (resp, st) \<Rightarrow>
      case on_eff time_now st of (now, st) \<Rightarrow>
        (resp, rq_method r @ '' '' @ url_path r @ '' '' @ duration_text (round_duration millisecond (time_sub now start)), st))"

definition serve_logged :: "server \<Rightarrow> call_env \<Rightarrow> stream \<Rightarrow> request \<Rightarrow> api_state \<Rightarrow> response \<times> string \<times> api_state" where
  "serve_logged s env events = log_requests (serve s env events)"

section \<open>Facts\<close>

text \<open>Rounding moves a duration by at most half a unit.\<close>

lemma round_duration_near:
  assumes "0 < m" and "in_int64 d"
  shows "2 * \<bar>round_duration m d - d\<bar> \<le> m"
proof -
  define r where "r = \<bar>d\<bar> mod m"
  have "0 \<le> r" "r < m" using assms(1) by (simp_all add: r_def)
  then show ?thesis using assms unfolding round_duration_def r_def [symmetric] by (auto simp: in_int64_def Let_def min_def max_def)
qed

lemma round_duration_mult:
  assumes "0 < m" and "\<bar>d\<bar> + m \<le> max_int64"
  shows "m dvd round_duration m d"
proof -
  define k where "k = \<bar>d\<bar> div m"
  define r where "r = \<bar>d\<bar> mod m"
  have d: "\<bar>d\<bar> = m * k + r" by (simp add: k_def r_def)
  have r: "0 \<le> r" "r < m" using assms(1) by (simp_all add: r_def)
  have b: "min_int64 \<le> - max_int64" by (simp add: min_int64_def max_int64_def)
  have "round_duration m d = (if d < 0 then if 2 * r < m then - (m * k) else - (m * (k + 1))
      else if 2 * r < m then m * k else m * (k + 1))"
    using assms b d r by (auto simp: round_duration_def Let_def r_def [symmetric] algebra_simps)
  then show ?thesis by simp
qed

text \<open>The log changes nothing but the readings of the clock.\<close>

lemma serve_logged_answer:
  assumes "serve_logged s env events r st = (resp, line, st')"
  shows "\<exists>st1 st2. serve s env events r st1 = (resp, st2) \<and> st1 = snd (on_eff time_now st) \<and> st' = snd (on_eff time_now st2)"
  using assms by (auto simp: serve_logged_def log_requests_def split: prod.splits)

end
