(* ===== verification/Spec2Isabelle.thy ===== *)
theory Spec2Isabelle
  imports Feed Lifecycle HistoryServe RequestLog
begin

text \<open>
  A model of chatbubbles, a daemon that puts the messages of \<open>imsg\<close>, a command line program, on
  the network: devices pair with it, read histories, send messages and attachments, follow a stream
  of events, and register webhooks. All paths below are under \<open>src/\<close>.

  The parts and how they interact. \<open>cmd/chatbubbles/main.go\<close> makes or loads the keys
  (\<open>internal/auth/keypair.go\<close>, \<open>internal/tls/selfcert.go\<close>), loads the state file
  (\<open>internal/store\<close>), and builds the services from them: pairing and tokens (\<open>internal/auth\<close>),
  attachments (\<open>internal/attachment\<close>), webhooks (\<open>internal/webhook\<close>), the runner and the watcher of
  imsg (\<open>internal/imsg\<close>) and the event hub (\<open>internal/events\<close>). The HTTP server (\<open>internal/api\<close>)
  and the control socket (\<open>internal/ctlsock\<close>) run over them; \<open>cmd/chatbubbles-cli\<close> is the client
  of the socket. The watcher's events go into the state file (the last row), the hub and the
  webhooks; the hub's subscribers are the open streams and the history cache.

  Go, by theory. \<open>GoPrelude\<close>: the effects of an operation, which are a clock and a source of random
  bytes that are read in sequence, errors as values of a sum, and generic lemmas. \<open>GoStrings\<close>,
  \<open>GoNumbers\<close>, \<open>GoFloat\<close>, \<open>GoTime\<close>, \<open>GoBase64\<close>, \<open>GoPath\<close>, \<open>GoNet\<close>, \<open>GoFlag\<close>, \<open>GoJson\<close>,
  \<open>GoUnmarshal\<close>: what the program uses of the standard library, each with its round trips. Integers
  of 64 bits are words where they wrap, else integers with the wrap written out; times are
  nanoseconds in UTC, and with their offset where one is read from outside.

  The program, by theory, each with the operations of its source file and their errors.
  \<open>ConfigStore\<close>: the state file, its JSON, and \<open>Load\<close>, \<open>Update\<close> on a disk whose every system call
  may fail; a \<open>world\<close> is the effects, the faults to come and the disk. \<open>Scopes\<close>, \<open>Tokens\<close>, \<open>Pairing\<close>
  (\<open>pairing.go\<close>, \<open>tokens.go\<close>), with properties in \<open>PairingProps\<close> and over whole runs in
  \<open>AuthTrace\<close>. \<open>RateLimit\<close>, \<open>HistoryCache\<close>, \<open>Api\<close> (requests, gates), \<open>ApiHandlers\<close> (handlers and the
  table of routes) and \<open>RequestLog\<close> (the line logged for each), with properties in \<open>ApiProps\<close> and
  \<open>ServeProps\<close>. \<open>Addresses\<close> and \<open>Webhooks\<close>. \<open>Imsg\<close> (\<open>types.go\<close>, \<open>runner.go\<close>) and \<open>Watcher\<close>.
  \<open>Attachments\<close>. \<open>EventHub\<close> and \<open>EventStream\<close> (\<open>ws.go\<close>). \<open>CtlSock\<close> (the handler of the control
  socket) and \<open>CtlServer\<close> (its \<open>Run\<close>). \<open>Cli\<close> and \<open>CliProps\<close>. \<open>KeyMaterial\<close>. The compositions:
  \<open>Feed\<close> (the goroutine around the watcher, over restarts), \<open>Daemon\<close> (the HTTP server and the control socket over
  one state file), \<open>PairFlow\<close> (the command line, the socket, the HTTP server and a device),
  \<open>HistoryServe\<close> (requests for histories, step by step, beside the publisher, the streams and the
  goroutine that drops cached histories), \<open>Startup\<close> (\<open>main\<close> up to the first pairing code),
  \<open>Lifecycle\<close> (the daemons of one machine over time: starts, requests, signals, the shutdown, crashes,
  and their control sockets).

  Interfaces. \<open>config_store\<close> (\<open>ConfigStore\<close>) is the contract of the state file: an update commits
  one result of its function or changes nothing; every service is proved against its interpretation
  \<open>state\<close>. \<open>administrator\<close> (\<open>CtlSock\<close>) is what the control socket needs of the interface \<open>Admin\<close>,
  interpreted as \<open>admin\<close> on the pairing service. \<open>control_client\<close> (\<open>CliProps\<close>) is what the command
  line needs of the other end of the socket, interpreted as \<open>cli\<close> on the daemon. \<open>kept_material\<close>
  (\<open>KeyMaterial\<close>) is the contract of files that are made once and read ever after, interpreted as
  \<open>own_identity\<close> and \<open>own_certificate\<close>. The remaining locales state the contracts inside a theory and
  are interpreted there.

  What the groups of lemmas show. Access: a protected call needs a good token with the scope of the
  policy; no run of anything gains a scope that was not given out; a revoked client stays out, through
  the socket and over HTTP, whichever daemons stop, crash and start; the control socket answers its
  owner only; clients join by a pairing or an approval answered with 200 and in
  no other way; a code is redeemed at most as often as it was issued; what the command line prints
  pairs a device. State: updates are atomic whatever fails, and the file, the tokens, the
  descriptors and the histories read back as they were written. Persistence: no start changes a key
  file, and devices, fingerprint and attachment ids survive a restart; every row is sent to
  its hooks once and in order over restarts. Bounds: calls in a window, in double precision with its
  rounding, and pairing attempts; the watcher's pauses. Confinement: a download opens only what was
  sealed, an upload leaves nothing behind, a webhook is posted only to an allowed address. Sharing:
  the hub never panics, a stream shows events in order with no subscription left over, and a cached
  history is out of date in three ways only, which are named.

  Bounds chosen. The JSON reader has fuel of twice the length of its text, and \<open>parse_fuel_enough\<close>
  shows that more makes no difference. The rate limiter's bound holds for limits below 2^20 and up to
  2^30 calls. A line of the watcher holds 4 MiB, as in the source. All other recursion is
  structural or has a measure.

  What is a parameter, with the hypotheses where they are used: Ed25519, AES-GCM, SHA-256, PEM, DER
  and X.509, \<open>url.Parse\<close>, the resolver, the HTTP client of the webhooks, the tables of MIME types,
  the parsing of a multipart form, the processes of imsg and what they print, the interfaces of the
  host, the connection to the socket, and the drawing of a QR code.

  Restrictions of the model. Text is well-formed UTF-8, and a JSON array member does not occur twice
  in an object. Times are in the years 0 to 9999. A nil slice is not told from an empty
  one; cloning a slice is the identity. Each operation runs under the lock the source takes and is one
  step; handlers run one after the other, and only the hub, its streams, the requests for histories and the
  control socket are interleaved. Paths of
  requests are clean (others the multiplexer redirects). The Content-Length a handler sets is not
  enforced. The details that some errors append after a colon are left out.

  In \<open>Lifecycle\<close> a process is killed between operations; what a kill inside one leaves is what its
  failing calls leave. Daemons side by side take turns at whole operations.

  Not modelled: what the HTTP listener and the directories' permissions let through, TLS itself,
  logging except for the pairing warnings and the line of a request, the reading side of a websocket, the text of usage
  messages, and the web client under \<open>web/\<close>, which is another language.
\<close>

end
